(* ===== verification/Prelude.thy ===== *)
theory Prelude
  imports Main "HOL-Library.Word" "HOL-Library.AList" "HOL-Library.Monad_Syntax"
begin

text \<open>
  Shared vocabulary of the development: the machine types of the Go sources as words,
  Go maps as association lists, big-endian byte strings (\<^verbatim>\<open>encoding/binary\<close> and
  \<^verbatim>\<open>bytes.Compare\<close>), weighted sums over votes, and a generic event machine whose
  invariants the stateful components inherit.
\<close>

section \<open>Machine types\<close>

text \<open>
  A Go fixed-size byte array is a word of the same number of bits read big-endian, so that
  equality of arrays is equality of words and \<^verbatim>\<open>bytes.Compare\<close> on two arrays of one
  size is the unsigned order.  A \<^verbatim>\<open>*big.Int\<close> is an \<open>int\<close>.  A pointer that may be
  nil is an \<open>option\<close>.  A Go panic is the value \<open>None\<close> of an \<open>option\<close> result.
\<close>

type_synonym u8 = "8 word"
type_synonym u32 = "32 word"
type_synonym u64 = "64 word"
type_synonym hash = "256 word"
type_synonym address = "160 word"
type_synonym vrf_proof = "640 word"
type_synonym vrf_output = "256 word"
type_synonym public_key = "256 word"
type_synonym private_key = "512 word"
type_synonym signature = "512 word"
type_synonym bytes = "u8 list"

text \<open>A Go map is an association list with distinct keys, updated with \<^const>\<open>AList.update\<close>.\<close>

type_synonym ('k, 'v) gomap = "('k \<times> 'v) list"

abbreviation mget :: "('k, 'v) gomap \<Rightarrow> 'k \<Rightarrow> 'v option" where
  "mget m k \<equiv> map_of m k"

abbreviation mput :: "'k \<Rightarrow> 'v \<Rightarrow> ('k, 'v) gomap \<Rightarrow> ('k, 'v) gomap" where
  "mput k v m \<equiv> AList.update k v m"

abbreviation mdel :: "'k \<Rightarrow> ('k, 'v) gomap \<Rightarrow> ('k, 'v) gomap" where
  "mdel k m \<equiv> AList.delete k m"

abbreviation keys_of :: "('k, 'v) gomap \<Rightarrow> 'k list" where
  "keys_of m \<equiv> map fst m"

definition is_map :: "('k, 'v) gomap \<Rightarrow> bool" where
  "is_map m \<longleftrightarrow> distinct (keys_of m)"

named_theorems wf_intro \<open>preservation of the well-formedness of a component's state\<close>
named_theorems frame \<open>fields an operation does not touch\<close>

section \<open>Maps\<close>

lemma mget_mput [simp]: "mget (mput k v m) k' = (if k' = k then Some v else mget m k')"
  by (simp add: AList.update_conv')

lemma mget_mdel [simp]: "mget (mdel k m) k' = (if k' = k then None else mget m k')"
  by (simp add: AList.delete_conv')

lemma is_map_Nil [simp, intro]: "is_map []"
  by (simp add: is_map_def)

lemma is_map_mput [simp, intro]: "is_map m \<Longrightarrow> is_map (mput k v m)"
  by (simp add: is_map_def AList.distinct_update)

lemma is_map_mdel [simp, intro]: "is_map m \<Longrightarrow> is_map (mdel k m)"
  by (simp add: is_map_def AList.distinct_delete)

lemma is_map_mget: "is_map m \<Longrightarrow> (k, v) \<in> set m \<longleftrightarrow> mget m k = Some v"
  by (auto simp: is_map_def intro: map_of_is_SomeI dest: map_of_SomeD)

lemma mget_in_set: "mget m k = Some v \<Longrightarrow> (k, v) \<in> set m"
  by (rule map_of_SomeD)

lemma set_mput_subset: "set (mput k v m) \<subseteq> insert (k, v) (set m)"
  by (induction m) auto

lemma mput_elem: "x \<in> set (mput k v m) \<Longrightarrow> x = (k, v) \<or> x \<in> set m"
  using set_mput_subset by fastforce

section \<open>Big-endian byte strings\<close>

text \<open>\<open>put_be n x\<close> is the \<open>n\<close>-byte big-endian encoding, \<open>get_be\<close> its reading.\<close>

primrec put_be :: "nat \<Rightarrow> nat \<Rightarrow> bytes" where
  "put_be 0 x = []"
| "put_be (Suc n) x = put_be n (x div 256) @ [of_nat x]"

definition get_be :: "bytes \<Rightarrow> nat" where
  "get_be bs = foldl (\<lambda>a b. a * 256 + unat b) 0 bs"

lemma length_put_be [simp]: "length (put_be n x) = n"
  by (induction n arbitrary: x) auto

lemma get_be_Nil [simp]: "get_be [] = 0"
  by (simp add: get_be_def)

lemma get_be_snoc [simp]: "get_be (bs @ [b]) = get_be bs * 256 + unat b"
  by (simp add: get_be_def)

lemma unat_of_nat_u8: "unat (of_nat x :: u8) = x mod 256"
  by (simp add: unat_of_nat)

lemma get_be_put_be [simp]: "get_be (put_be n x) = x mod 256 ^ n"
proof (induction n arbitrary: x)
  case 0
  then show ?case by simp
next
  case (Suc n)
  have "x mod 256 ^ Suc n = x mod (256 * 256 ^ n)" by simp
  also have "\<dots> = 256 * (x div 256 mod 256 ^ n) + x mod 256"
    by (rule mod_mult2_eq)
  finally show ?case using Suc by (simp add: unat_of_nat_u8)
qed

lemma get_be_bound: "get_be bs < 256 ^ length bs"
proof (induction bs rule: rev_induct)
  case Nil
  then show ?case by simp
next
  case (snoc b bs)
  have "unat b < 256" using unsigned_less [of b] by simp
  with snoc show ?case by (simp add: algebra_simps)
qed

lemma put_be_get_be [simp]: "length bs = n \<Longrightarrow> put_be n (get_be bs) = bs"
proof (induction bs arbitrary: n rule: rev_induct)
  case Nil
  then show ?case by simp
next
  case (snoc b bs)
  have b: "unat b < 256" using unsigned_less [of b] by simp
  then have "(get_be bs * 256 + unat b) div 256 = get_be bs" by simp
  moreover have "(of_nat (get_be bs * 256 + unat b) :: u8) = b"
  proof -
    have "(of_nat 256 :: u8) = 0" by simp
    then have "(of_nat (get_be bs * 256) :: u8) = 0" by (simp only: of_nat_mult mult_zero_right)
    then show ?thesis by (simp only: of_nat_add) simp
  qed
  ultimately show ?case using snoc by auto
qed

lemma put_be_inj: "put_be n x = put_be n y \<Longrightarrow> x mod 256 ^ n = y mod 256 ^ n"
  by (metis get_be_put_be)

lemma unat_lt_pow256:
  fixes u :: "'a::len word"
  assumes "LENGTH('a) \<le> 8 * n"
  shows "unat u < 256 ^ n"
proof -
  have "unat u < 2 ^ LENGTH('a)" by (rule unsigned_less)
  also have "\<dots> \<le> 2 ^ (8 * n)" using assms by simp
  also have "\<dots> = (256::nat) ^ n" by (simp add: power_mult)
  finally show ?thesis .
qed

lemma put_be_word_inj:
  fixes v w :: "'a::len word"
  assumes "put_be n (unat v) = put_be n (unat w)" and "LENGTH('a) \<le> 8 * n"
  shows "v = w"
proof -
  from put_be_inj [OF assms(1)] show ?thesis
    using assms(2) by (simp add: unat_lt_pow256 word_unat_eq_iff)
qed

text \<open>\<^verbatim>\<open>bytes.Compare\<close>\<close>

fun bytes_compare :: "bytes \<Rightarrow> bytes \<Rightarrow> int" where
  "bytes_compare [] [] = 0"
| "bytes_compare [] (y # ys) = -1"
| "bytes_compare (x # xs) [] = 1"
| "bytes_compare (x # xs) (y # ys) =
     (if x < y then -1 else if y < x then 1 else bytes_compare xs ys)"

lemma bytes_compare_refl [simp]: "bytes_compare xs xs = 0"
  by (induction xs) auto

lemma bytes_compare_eq_0 [simp]: "bytes_compare xs ys = 0 \<longleftrightarrow> xs = ys"
  by (induction xs ys rule: bytes_compare.induct) auto

lemma bytes_compare_anti: "bytes_compare ys xs = - bytes_compare xs ys"
  by (induction xs ys rule: bytes_compare.induct) auto

lemma bytes_compare_trans:
  "bytes_compare xs ys < 0 \<Longrightarrow> bytes_compare ys zs < 0 \<Longrightarrow> bytes_compare xs zs < 0"
proof (induction xs ys arbitrary: zs rule: bytes_compare.induct)
  case (1)
  then show ?case by simp
next
  case (2 y ys)
  then show ?case by (cases zs) auto
next
  case (3 x xs)
  then show ?case by simp
next
  case (4 x xs y ys)
  then show ?case by (cases zs) (auto split: if_splits)
qed

lemma bytes_compare_snoc:
  "length xs = length ys \<Longrightarrow> bytes_compare (xs @ [x]) (ys @ [y]) < 0 \<longleftrightarrow>
     bytes_compare xs ys < 0 \<or> (xs = ys \<and> x < y)"
  by (induction xs ys rule: bytes_compare.induct) auto

lemma bytes_compare_get_be:
  "length xs = length ys \<Longrightarrow> bytes_compare xs ys < 0 \<longleftrightarrow> get_be xs < get_be ys"
proof (induction xs arbitrary: ys rule: rev_induct)
  case Nil
  then show ?case by simp
next
  case (snoc x xs)
  then obtain zs z where ys: "ys = zs @ [z]" and len: "length xs = length zs"
    by (cases ys rule: rev_cases) auto
  have b: "unat x < 256" "unat z < 256" using unsigned_less [of x] unsigned_less [of z] by auto
  have eq: "xs = zs \<longleftrightarrow> get_be xs = get_be zs" using len put_be_get_be by metis
  have "get_be xs * 256 + unat x < get_be zs * 256 + unat z \<longleftrightarrow>
      get_be xs < get_be zs \<or> (get_be xs = get_be zs \<and> unat x < unat z)"
    using b by linarith
  then show ?case
    using snoc.IH [OF len] eq by (simp add: ys bytes_compare_snoc [OF len] word_less_nat_alt)
qed

lemma bytes_compare_word:
  fixes v w :: "'a::len word"
  assumes "LENGTH('a) \<le> 8 * n"
  shows "bytes_compare (put_be n (unat v)) (put_be n (unat w)) < 0 \<longleftrightarrow> v < w"
  using assms by (simp add: bytes_compare_get_be unat_lt_pow256 word_less_nat_alt)

section \<open>Weighted sums\<close>

text \<open>A sum over a list whose keys are distinct is a sum over the set of keys.\<close>

lemma sum_list_distinct_keys:
  assumes "distinct (map f xs)" and "\<And>x. x \<in> set xs \<Longrightarrow> g x = h (f x)"
  shows "sum_list (map g xs) = sum h (f ` set xs)"
proof -
  have "map g xs = map h (map f xs)" using assms(2) by simp
  then have "sum_list (map g xs) = sum_list (map h (map f xs))" by (rule arg_cong)
  also have "\<dots> = sum h (set (map f xs))"
    using assms(1) by (rule sum_list_distinct_conv_sum_set)
  finally show ?thesis by simp
qed

lemma inclusion_exclusion_bound:
  fixes h :: "'a \<Rightarrow> nat"
  assumes "finite U" "A \<subseteq> U" "B \<subseteq> U"
  shows "sum h A + sum h B \<le> sum h U + sum h (A \<inter> B)"
proof -
  have fin: "finite A" "finite B" using assms finite_subset by auto
  have "sum h A + sum h B = sum h (A \<union> B) + sum h (A \<inter> B)"
    using sum.union_inter [OF fin, of h] by simp
  moreover have "sum h (A \<union> B) \<le> sum h U" using assms by (intro sum_mono2) auto
  ultimately show ?thesis by simp
qed

section \<open>Binary search\<close>

text \<open>
  \<^verbatim>\<open>sort.Search\<close>: the loop keeps \<open>f\<close> false below \<open>i\<close> and true from \<open>j\<close> on.  For a predicate that
  stays true once it is true it finds the first index where it holds.
\<close>

function search_loop :: "(nat \<Rightarrow> bool) \<Rightarrow> nat \<Rightarrow> nat \<Rightarrow> nat" where
  "search_loop f i j =
     (if i < j then (let h = (i + j) div 2 in if \<not> f h then search_loop f (h + 1) j else search_loop f i h)
      else i)"
  by pat_completeness auto
termination by (relation "measure (\<lambda>(f, i, j). j - i)") auto

declare search_loop.simps [simp del]

definition sort_search :: "nat \<Rightarrow> (nat \<Rightarrow> bool) \<Rightarrow> nat" where
  "sort_search n f = search_loop f 0 n"

lemma search_loop_spec:
  assumes mono: "\<forall>k l. k \<le> l \<longrightarrow> l < n \<longrightarrow> f k \<longrightarrow> f l"
    and "i \<le> j" "j \<le> n" "\<forall>k < i. \<not> f k" "j < n \<longrightarrow> f j" "search_loop f i j = r"
  shows "r \<le> n \<and> (\<forall>k < r. \<not> f k) \<and> (r < n \<longrightarrow> f r)"
  using assms
proof (induction f i j rule: search_loop.induct)
  case (1 f i j)
  show ?case
  proof (cases "i < j")
    case True
    define h where "h = (i + j) div 2"
    have h: "i \<le> h" "h < j" using True by (auto simp: h_def)
    show ?thesis
    proof (cases "f h")
      case t: True
      have r: "search_loop f i h = r"
        using "1.prems"(6) True t by (simp add: search_loop.simps [of f i j] h_def [symmetric] Let_def)
      show ?thesis
        by (rule "1.IH"(2) [OF True h_def _ "1.prems"(1) h(1) _ "1.prems"(4) _ r]) (use t h "1.prems"(3) in auto)
    next
      case False
      have "\<not> f k" if "k < h + 1" for k
      proof -
        have "k \<le> h" "h < n" using that h "1.prems"(3) by auto
        then show ?thesis using "1.prems"(1) False by blast
      qed
      then have low: "\<forall>k < h + 1. \<not> f k" by blast
      have r: "search_loop f (h + 1) j = r"
        using "1.prems"(6) True False by (simp add: search_loop.simps [of f i j] h_def [symmetric] Let_def)
      show ?thesis
        by (rule "1.IH"(1) [OF True h_def False "1.prems"(1) _ "1.prems"(3) low "1.prems"(5) r]) (use h in simp)
    qed
  next
    case False
    then have "r = i" using "1.prems"(6) by (simp add: search_loop.simps [of f i j])
    moreover have "i = j" using False "1.prems"(2) by simp
    ultimately show ?thesis using "1.prems"(3-5) by simp
  qed
qed
lemma search_loop_le: "i \<le> j \<Longrightarrow> search_loop f i j \<le> j"
proof (induction f i j rule: search_loop.induct)
  case (1 f i j)
  define h where "h = (i + j) div 2"
  show ?case
  proof (cases "i < j")
    case True
    then have h: "i \<le> h" "h < j" by (auto simp: h_def)
    show ?thesis
    proof (cases "f h")
      case t: True
      then have "search_loop f i j = search_loop f i h"
        using True by (simp add: search_loop.simps [of f i j] h_def Let_def)
      moreover have "search_loop f i h \<le> h" using "1.IH"(2) [OF True h_def] t h by simp
      ultimately show ?thesis using h by simp
    next
      case False
      then have "search_loop f i j = search_loop f (h + 1) j"
        using True by (simp add: search_loop.simps [of f i j] h_def Let_def)
      moreover have "search_loop f (h + 1) j \<le> j" using "1.IH"(1) [OF True h_def False] h by simp
      ultimately show ?thesis by simp
    qed
  next
    case False
    then have "search_loop f i j = i" by (simp add: search_loop.simps [of f i j])
    with "1.prems" show ?thesis by simp
  qed
qed

lemma sort_search_first:
  assumes "\<forall>k l. k \<le> l \<longrightarrow> l < n \<longrightarrow> f k \<longrightarrow> f l" and "i < n" "f i" "\<forall>k < i. \<not> f k"
  shows "sort_search n f = i"
proof -
  define r where "r = search_loop f 0 n"
  have r: "r \<le> n \<and> (\<forall>k < r. \<not> f k) \<and> (r < n \<longrightarrow> f r)"
    by (rule search_loop_spec [OF assms(1), of 0 n]) (simp_all add: r_def)
  have "r = i"
  proof (rule linorder_cases [of r i])
    assume "r < i"
    with r assms(2,4) show ?thesis by auto
  next
    assume "i < r"
    with r assms(3) show ?thesis by blast
  qed
  then show ?thesis by (simp add: sort_search_def r_def)
qed

section \<open>Event machines\<close>

text \<open>
  Every stateful component of the node is driven by a sequence of events.  A predicate that
  holds initially and that each admissible event keeps holds after any sequence of them.
\<close>

locale event_machine =
  fixes init :: "'s \<Rightarrow> bool"
    and step :: "'s \<Rightarrow> 'e \<Rightarrow> 's"
    and ok :: "'e \<Rightarrow> bool"
    and inv :: "'s \<Rightarrow> bool"
  assumes init_inv: "init s \<Longrightarrow> inv s"
    and step_inv: "inv s \<Longrightarrow> ok e \<Longrightarrow> inv (step s e)"
begin

lemma run_from_inv: "inv s \<Longrightarrow> \<forall>e \<in> set es. ok e \<Longrightarrow> inv (foldl step s es)"
  by (induction es arbitrary: s) (auto intro: step_inv)

lemma run_inv: "init s \<Longrightarrow> \<forall>e \<in> set es. ok e \<Longrightarrow> inv (foldl step s es)"
  by (rule run_from_inv) (rule init_inv)

text \<open>A relation between successive states that is reflexive and transitive spans a whole run.\<close>

lemma run_rel:
  assumes "inv s" and "\<forall>e \<in> set es. ok e"
    and "\<And>s. r s s" and "\<And>s t u. r s t \<Longrightarrow> r t u \<Longrightarrow> r s u"
    and "\<And>s e. inv s \<Longrightarrow> ok e \<Longrightarrow> r s (step s e)"
  shows "r s (foldl step s es)"
  using assms(1,2)
proof (induction es arbitrary: s)
  case Nil
  then show ?case using assms(3) by simp
next
  case (Cons e es)
  then have "inv (step s e)" by (auto intro: step_inv)
  then have "r (step s e) (foldl step (step s e) es)" using Cons.IH Cons.prems(2) by simp
  moreover have "r s (step s e)" using assms(5) Cons.prems by simp
  ultimately show ?case using assms(4) by simp
qed

end

end
