(* ===== verification/Crypto.thy ===== *)
theory Crypto
  imports Prelude
begin

text \<open>
  The Go side of \<^verbatim>\<open>src/crypto/ed25519\<close>: the wrappers around libsodium's signatures and
  verifiable random functions, and the forward-secure signature scheme built on them
  (\<^verbatim>\<open>forwardsecure.go\<close>).  libsodium, SHA-512/256, Keccak and the RLP package are third-party
  code: they are the fields of the record \<open>crypto\<close>, an argument of every definition that
  calls them.
\<close>

section \<open>Third-party primitives\<close>

text \<open>The values handed to the RLP encoder: byte arrays of a given size, integers and lists.\<close>

datatype rlp_item = RBytes bytes | RUint nat | RList "rlp_item list"

record crypto =
  crypto_vrf_prove :: "private_key \<Rightarrow> bytes \<Rightarrow> vrf_proof option"
  crypto_vrf_proof_to_hash :: "vrf_proof \<Rightarrow> 512 word option"
  crypto_vrf_verify :: "public_key \<Rightarrow> vrf_proof \<Rightarrow> bytes \<Rightarrow> 512 word option"
  crypto_vrf_sk_to_pk :: "private_key \<Rightarrow> public_key"
  crypto_sign_detached :: "bytes \<Rightarrow> private_key \<Rightarrow> signature"
  crypto_sign_verify_detached :: "signature \<Rightarrow> bytes \<Rightarrow> public_key \<Rightarrow> bool"
  crypto_sign_sk_to_pk :: "private_key \<Rightarrow> public_key option"
  Sum512_256 :: "bytes \<Rightarrow> hash"
  Keccak256 :: "bytes \<Rightarrow> hash"
  EncodeToBytes :: "rlp_item \<Rightarrow> bytes"

abbreviation word_bytes :: "nat \<Rightarrow> 'a::len word \<Rightarrow> bytes" where
  "word_bytes n w \<equiv> put_be n (unat w)"

section \<open>Signatures and verifiable random functions\<close>

definition Sign :: "crypto \<Rightarrow> private_key \<Rightarrow> bytes \<Rightarrow> signature" where
  "Sign cr privateKey data = crypto_sign_detached cr data privateKey"

definition Verify :: "crypto \<Rightarrow> public_key \<Rightarrow> bytes \<Rightarrow> signature \<Rightarrow> bool" where
  "Verify cr publicKey data sig = crypto_sign_verify_detached cr sig data publicKey"

text \<open>The error result carries the zero-valued key, which \<^verbatim>\<open>ForwardSecureSign\<close> uses as it is.\<close>

definition PrivateKeyToPublicKey :: "crypto \<Rightarrow> private_key \<Rightarrow> public_key \<times> bool" where
  "PrivateKeyToPublicKey cr privateKey =
     (case crypto_sign_sk_to_pk cr privateKey of None \<Rightarrow> (0, False) | Some pk \<Rightarrow> (pk, True))"

definition VrfPrivateKeyToPublicKey :: "crypto \<Rightarrow> private_key \<Rightarrow> public_key" where
  "VrfPrivateKeyToPublicKey cr privateKey = crypto_vrf_sk_to_pk cr privateKey"

definition VrfProve :: "crypto \<Rightarrow> private_key \<Rightarrow> bytes \<Rightarrow> vrf_proof option" where
  "VrfProve cr privateKey msg = crypto_vrf_prove cr privateKey msg"

definition VrfProofToHash256 :: "crypto \<Rightarrow> vrf_proof \<Rightarrow> vrf_output option" where
  "VrfProofToHash256 cr proof =
     map_option (\<lambda>hash. Sum512_256 cr (word_bytes 64 hash)) (crypto_vrf_proof_to_hash cr proof)"

definition VrfVerify256 :: "crypto \<Rightarrow> public_key \<Rightarrow> vrf_proof \<Rightarrow> bytes \<Rightarrow> vrf_output option" where
  "VrfVerify256 cr publicKey proof msg =
     map_option (\<lambda>hash. Sum512_256 cr (word_bytes 64 hash)) (crypto_vrf_verify cr publicKey proof msg)"

section \<open>Forward-secure signatures\<close>

record signedSubKey =
  Sk :: private_key
  PkSig :: signature

record ForwardSecurePrivateKey =
  fs_PublicKey :: public_key
  fs_Start :: u64
  fs_SubKeys :: "signedSubKey list"

record ForwardSecureSignature =
  sig_Sig :: signature
  sig_Pk :: public_key
  sig_PkSig :: signature

definition zero_signature :: ForwardSecureSignature where
  "zero_signature = \<lparr>sig_Sig = 0, sig_Pk = 0, sig_PkSig = 0\<rparr>"

definition ValidOffset :: "ForwardSecurePrivateKey \<Rightarrow> u64 \<Rightarrow> bool" where
  "ValidOffset key offset =
     (let limit = fs_Start key + of_nat (length (fs_SubKeys key))
      in fs_Start key \<le> offset \<and> offset < limit)"

text \<open>
  The buffer has \<^verbatim>\<open>8 + PublicKeySize\<close> bytes, but the destination of the second copy is
  \<^verbatim>\<open>buffer[8:PublicKeySize]\<close>, which holds only 24 bytes of the 32-byte key; the last 8 bytes
  of the buffer keep their zero value.
\<close>

definition toBytes :: "u64 \<Rightarrow> public_key \<Rightarrow> bytes" where
  "toBytes offset subPk =
     word_bytes 8 offset @ take (32 - 8) (word_bytes 32 subPk) @ replicate 8 0"

text \<open>
  \<^verbatim>\<open>GenerateKey\<close> draws fresh random key pairs: the master pair and the \<open>i\<close>-th sub key pair
  are arguments.
\<close>

definition GenerateForwardSecureKey ::
  "crypto \<Rightarrow> public_key \<times> private_key \<Rightarrow> (nat \<Rightarrow> public_key \<times> private_key) \<Rightarrow> u64 \<Rightarrow> u64
    \<Rightarrow> public_key \<times> ForwardSecurePrivateKey" where
  "GenerateForwardSecureKey cr master gen offset count =
     (let (rawPk, skToBeDestroyed) = master;
          subs = map (\<lambda>i. let (subPk, subSk) = gen i;
                              data = toBytes (offset + of_nat i) subPk
                          in \<lparr>Sk = subSk, PkSig = Sign cr skToBeDestroyed data\<rparr>) [0..<unat count]
      in (rawPk, \<lparr>fs_PublicKey = rawPk, fs_Start = offset, fs_SubKeys = subs\<rparr>))"

definition ForwardSecurePrivateKeyToPublicKey :: "ForwardSecurePrivateKey \<Rightarrow> public_key" where
  "ForwardSecurePrivateKeyToPublicKey sk = fs_PublicKey sk"

definition ForwardSecureSign ::
  "crypto \<Rightarrow> ForwardSecurePrivateKey \<Rightarrow> u64 \<Rightarrow> bytes \<Rightarrow> ForwardSecureSignature" where
  "ForwardSecureSign cr sk offset data =
     (if \<not> ValidOffset sk offset then zero_signature
      else let idx = unat (offset - fs_Start sk);
               sub = fs_SubKeys sk ! idx;
               subPk = fst (PrivateKeyToPublicKey cr (Sk sub))
           in \<lparr>sig_Sig = Sign cr (Sk sub) data, sig_Pk = subPk, sig_PkSig = PkSig sub\<rparr>)"

definition ForwardSecureVerify ::
  "crypto \<Rightarrow> public_key \<Rightarrow> u64 \<Rightarrow> bytes \<Rightarrow> ForwardSecureSignature \<Rightarrow> bool" where
  "ForwardSecureVerify cr pk offset data sig =
     (let verifyData = toBytes offset (sig_Pk sig)
      in Verify cr pk verifyData (sig_PkSig sig) \<and> Verify cr (sig_Pk sig) data (sig_Sig sig))"

definition ForwardSecureUpdate ::
  "ForwardSecurePrivateKey \<Rightarrow> u64 \<Rightarrow> u64 \<times> ForwardSecurePrivateKey" where
  "ForwardSecureUpdate sk offset =
     (if fs_Start sk < offset then
        let deleted0 = offset - fs_Start sk;
            max = of_nat (length (fs_SubKeys sk));
            deleted = (if max < deleted0 then max else deleted0)
        in (deleted, sk\<lparr>fs_Start := fs_Start sk + deleted,
                        fs_SubKeys := drop (unat deleted) (fs_SubKeys sk)\<rparr>)
      else (0, sk))"

section \<open>Properties of the forward-secure scheme\<close>

text \<open>
  A key is well formed when its offsets do not run over the 64-bit range: the limit computed
  by \<^verbatim>\<open>ValidOffset\<close> does not wrap.
\<close>

definition fs_wf :: "ForwardSecurePrivateKey \<Rightarrow> bool" where
  "fs_wf sk \<longleftrightarrow> unat (fs_Start sk) + length (fs_SubKeys sk) < 2 ^ 64"

lemma ValidOffset_iff:
  assumes "fs_wf sk"
  shows "ValidOffset sk offset \<longleftrightarrow>
    unat (fs_Start sk) \<le> unat offset \<and> unat offset < unat (fs_Start sk) + length (fs_SubKeys sk)"
proof -
  have "unat (fs_Start sk + of_nat (length (fs_SubKeys sk)))
      = unat (fs_Start sk) + length (fs_SubKeys sk)"
    using assms by (simp add: fs_wf_def unat_word_ariths unat_of_nat)
  then show ?thesis
    by (simp add: ValidOffset_def Let_def word_le_nat_alt word_less_nat_alt)
qed

lemma length_toBytes [simp]: "length (toBytes offset pk) = 40"
  by (simp add: toBytes_def)

lemma take_put_be: "m \<le> n \<Longrightarrow> take m (put_be n x) = put_be m (x div 256 ^ (n - m))"
proof (induction n arbitrary: x)
  case 0
  then show ?case by simp
next
  case (Suc n)
  show ?case
  proof (cases "m = Suc n")
    case True
    then show ?thesis by simp
  next
    case False
    with Suc.prems have "m \<le> n" by simp
    then have "take m (put_be (Suc n) x) = put_be m (x div 256 div 256 ^ (n - m))"
      using Suc.IH by simp
    also have "x div 256 div 256 ^ (n - m) = x div 256 ^ (Suc n - m)"
      using \<open>m \<le> n\<close> by (simp add: div_mult2_eq Suc_diff_le)
    finally show ?thesis .
  qed
qed

lemma toBytes_eq_iff:
  "toBytes o1 p = toBytes o2 q \<longleftrightarrow> o1 = o2 \<and> drop_bit 64 p = drop_bit 64 q"
proof -
  have lt: "unat w div 256 ^ 8 < 256 ^ 24" for w :: "256 word"
  proof -
    have "unat w < 2 ^ LENGTH(256)" by (rule unsigned_less)
    then show ?thesis by (simp add: less_mult_imp_div_less)
  qed
  have "take 24 (word_bytes 32 p) = take 24 (word_bytes 32 q) \<longleftrightarrow>
      put_be 24 (unat p div 256 ^ 8) = put_be 24 (unat q div 256 ^ 8)"
    by (simp add: take_put_be)
  also have "\<dots> \<longleftrightarrow> unat p div 256 ^ 8 = unat q div 256 ^ 8"
    using put_be_inj [of 24] lt [of p] lt [of q] by (metis mod_less)
  also have "\<dots> \<longleftrightarrow> drop_bit 64 p = drop_bit 64 q"
    by (simp add: word_unat_eq_iff [of "drop_bit 64 p"] unat_drop_bit_eq)
      (simp add: drop_bit_eq_div)
  finally have "take 24 (word_bytes 32 p) = take 24 (word_bytes 32 q) \<longleftrightarrow>
      drop_bit 64 p = drop_bit 64 q" .
  moreover have "word_bytes 8 o1 = word_bytes 8 o2 \<longleftrightarrow> o1 = o2"
    using put_be_word_inj [of 8 o1 o2] by auto
  ultimately show ?thesis by (auto simp: toBytes_def)
qed


text \<open>
  What the scheme needs of libsodium: a signature made with a private key verifies under the
  public key extracted from it.
\<close>

definition sign_correct :: "crypto \<Rightarrow> bool" where
  "sign_correct cr \<longleftrightarrow> (\<forall>sk pk data. crypto_sign_sk_to_pk cr sk = Some pk \<longrightarrow>
     crypto_sign_verify_detached cr (crypto_sign_detached cr data sk) data pk)"

definition key_pair :: "crypto \<Rightarrow> public_key \<times> private_key \<Rightarrow> bool" where
  "key_pair cr kp \<longleftrightarrow> crypto_sign_sk_to_pk cr (snd kp) = Some (fst kp)"

text \<open>
  A key is certified for a master public key when each sub key it still holds carries a
  signature that the master key accepts for that sub key's own offset.
\<close>

definition fs_certified :: "crypto \<Rightarrow> public_key \<Rightarrow> ForwardSecurePrivateKey \<Rightarrow> bool" where
  "fs_certified cr pk sk \<longleftrightarrow> fs_wf sk \<and>
     (\<forall>i < length (fs_SubKeys sk).
        \<exists>subPk. crypto_sign_sk_to_pk cr (Sk (fs_SubKeys sk ! i)) = Some subPk \<and>
          Verify cr pk (toBytes (fs_Start sk + of_nat i) subPk) (PkSig (fs_SubKeys sk ! i)))"

lemma GenerateForwardSecureKey_certified:
  assumes "sign_correct cr" "key_pair cr master" "\<And>i. key_pair cr (gen i)"
    and "unat offset + unat cnt < 2 ^ 64"
    and "GenerateForwardSecureKey cr master gen offset cnt = (pk, sk)"
  shows "fs_certified cr pk sk"
proof -
  have gen: "crypto_sign_sk_to_pk cr (snd (gen i)) = Some (fst (gen i))" for i
    using assms(3) by (simp add: key_pair_def)
  show ?thesis
    using assms(1,2,4,5) gen
    by (auto simp: GenerateForwardSecureKey_def fs_certified_def fs_wf_def sign_correct_def
        key_pair_def Sign_def Verify_def Let_def case_prod_beta)
qed

lemma ForwardSecureUpdate_cases:
  assumes "fs_wf sk" "ForwardSecureUpdate sk offset = (deleted, sk')"
  shows "unat deleted = min (unat offset - unat (fs_Start sk)) (length (fs_SubKeys sk))"
    and "unat (fs_Start sk') = unat (fs_Start sk) + unat deleted"
    and "fs_SubKeys sk' = drop (unat deleted) (fs_SubKeys sk)"
    and "fs_PublicKey sk' = fs_PublicKey sk"
    and "fs_Start sk' = fs_Start sk + of_nat (unat deleted)"
proof -
  have len: "unat (of_nat (length (fs_SubKeys sk)) :: u64) = length (fs_SubKeys sk)"
    using assms(1) by (simp add: fs_wf_def unat_of_nat)
  have sub: "fs_Start sk < offset \<Longrightarrow>
      unat (offset - fs_Start sk) = unat offset - unat (fs_Start sk)"
    by (simp add: unat_sub)
  show del: "unat deleted = min (unat offset - unat (fs_Start sk)) (length (fs_SubKeys sk))"
    using assms(2) len sub
    by (auto simp: ForwardSecureUpdate_def Let_def word_less_nat_alt min_def split: if_splits)
  have st: "fs_Start sk' = fs_Start sk + deleted"
    using assms(2) by (auto simp: ForwardSecureUpdate_def Let_def split: if_splits)
  show "fs_Start sk' = fs_Start sk + of_nat (unat deleted)" using st by simp
  have "unat (fs_Start sk) + unat deleted < 2 ^ 64"
    using assms(1) del by (simp add: fs_wf_def)
  then show "unat (fs_Start sk') = unat (fs_Start sk) + unat deleted"
    using st by (simp add: unat_word_ariths)
  show "fs_SubKeys sk' = drop (unat deleted) (fs_SubKeys sk)"
    and "fs_PublicKey sk' = fs_PublicKey sk"
    using assms(2) by (auto simp: ForwardSecureUpdate_def Let_def split: if_splits)
qed

lemma fs_wf_Update [wf_intro]:
  assumes "fs_wf sk" "ForwardSecureUpdate sk offset = (deleted, sk')"
  shows "fs_wf sk'"
  using assms(1) ForwardSecureUpdate_cases [OF assms] by (simp add: fs_wf_def)

lemma fs_certified_Update [wf_intro]:
  assumes "fs_certified cr pk sk" "ForwardSecureUpdate sk offset = (deleted, sk')"
  shows "fs_certified cr pk sk'"
proof -
  have wf: "fs_wf sk" using assms(1) by (simp add: fs_certified_def)
  note u = ForwardSecureUpdate_cases [OF wf assms(2)]
  have "\<exists>subPk. crypto_sign_sk_to_pk cr (Sk (fs_SubKeys sk' ! i)) = Some subPk \<and>
      Verify cr pk (toBytes (fs_Start sk' + of_nat i) subPk) (PkSig (fs_SubKeys sk' ! i))"
    if "i < length (fs_SubKeys sk')" for i
  proof -
    have off: "fs_Start sk' + of_nat i = fs_Start sk + of_nat (unat deleted + i)"
      unfolding u(5) by (simp only: of_nat_add add.assoc)
    have key: "fs_SubKeys sk' ! i = fs_SubKeys sk ! (unat deleted + i)"
      using that by (simp add: u(3))
    have "unat deleted + i < length (fs_SubKeys sk)" using that by (simp add: u(3))
    then show ?thesis using assms(1) unfolding off key fs_certified_def by blast
  qed
  then show ?thesis using fs_wf_Update [OF wf assms(2)] by (simp add: fs_certified_def)
qed

lemma ForwardSecureSign_verifies:
  assumes "sign_correct cr" "fs_certified cr pk sk" "ValidOffset sk offset"
  shows "ForwardSecureVerify cr pk offset data (ForwardSecureSign cr sk offset data)"
proof -
  have wf: "fs_wf sk" using assms(2) by (simp add: fs_certified_def)
  let ?i = "unat (offset - fs_Start sk)"
  have ge: "fs_Start sk \<le> offset" using assms(3) by (simp add: ValidOffset_def Let_def)
  have i: "?i = unat offset - unat (fs_Start sk)" using ge by (rule unat_sub)
  have lt: "?i < length (fs_SubKeys sk)"
    using assms(3) unfolding ValidOffset_iff [OF wf] i by arith
  have off: "fs_Start sk + of_nat ?i = offset" by simp
  from lt assms(2) obtain subPk where
    "crypto_sign_sk_to_pk cr (Sk (fs_SubKeys sk ! ?i)) = Some subPk"
    "Verify cr pk (toBytes (fs_Start sk + of_nat ?i) subPk) (PkSig (fs_SubKeys sk ! ?i))"
    unfolding fs_certified_def by blast
  then show ?thesis
    using assms(1,3) unfolding off
    by (simp add: ForwardSecureSign_def ForwardSecureVerify_def PrivateKeyToPublicKey_def
        Let_def sign_correct_def Sign_def Verify_def)
qed

lemma ForwardSecureSign_after_Update:
  assumes "fs_wf sk" "ForwardSecureUpdate sk u = (deleted, sk')" "u \<le> offset"
    and "ValidOffset sk offset"
  shows "ValidOffset sk' offset"
    and "ForwardSecureSign cr sk' offset data = ForwardSecureSign cr sk offset data"
proof -
  note upd = ForwardSecureUpdate_cases [OF assms(1,2)]
  have wf': "fs_wf sk'" using assms(1,2) by (rule fs_wf_Update)
  have v: "unat (fs_Start sk) \<le> unat offset"
    "unat offset < unat (fs_Start sk) + length (fs_SubKeys sk)"
    using assms(4) by (auto simp: ValidOffset_iff [OF assms(1)])
  have le: "unat (fs_Start sk') \<le> unat offset"
    using upd(1,2) v assms(3) by (auto simp: word_le_nat_alt)
  show valid: "ValidOffset sk' offset"
    using v upd le by (simp add: ValidOffset_iff [OF wf'])
  have "unat (offset - fs_Start sk) = unat deleted + unat (offset - fs_Start sk')"
    using upd(2) le v by (simp add: unat_sub word_le_nat_alt)
  moreover have "unat (offset - fs_Start sk') < length (fs_SubKeys sk')"
    using valid le by (simp add: ValidOffset_iff [OF wf'] unat_sub word_le_nat_alt)
  ultimately show "ForwardSecureSign cr sk' offset data = ForwardSecureSign cr sk offset data"
    using assms(4) valid by (simp add: ForwardSecureSign_def Let_def upd(3))
qed

lemma fs_run_sign:
  assumes "sign_correct cr" "fs_certified cr pk sk" "ValidOffset sk offset"
    and "\<forall>u \<in> set us. u \<le> offset"
  shows "ForwardSecureVerify cr pk offset data
    (ForwardSecureSign cr (foldl (\<lambda>k u. snd (ForwardSecureUpdate k u)) sk us) offset data)"
  using assms(2-)
proof (induction us arbitrary: sk)
  case Nil
  then show ?case using ForwardSecureSign_verifies [OF assms(1)] by simp
next
  case (Cons u us)
  obtain deleted sk' where upd: "ForwardSecureUpdate sk u = (deleted, sk')" by fastforce
  have "fs_wf sk" using Cons.prems(1) by (simp add: fs_certified_def)
  then have "ValidOffset sk' offset"
    using ForwardSecureSign_after_Update(1) [OF _ upd] Cons.prems by simp
  with Cons.IH [of sk'] fs_certified_Update [OF Cons.prems(1) upd] Cons.prems(3)
  show ?case by (simp add: upd)
qed

lemma fs_update_facts:
  assumes "fs_wf sk" "ForwardSecureUpdate sk u = (deleted, sk')"
  shows "ValidOffset sk' offset \<longleftrightarrow> ValidOffset sk offset \<and> u \<le> offset"
    and "ForwardSecureSign cr sk' offset data =
      (if u \<le> offset then ForwardSecureSign cr sk offset data else zero_signature)"
    and "fs_SubKeys sk' = drop (unat u - unat (fs_Start sk)) (fs_SubKeys sk)"
proof -
  note upd = ForwardSecureUpdate_cases [OF assms]
  have wf': "fs_wf sk'" using assms by (rule fs_wf_Update)
  show valid: "ValidOffset sk' offset \<longleftrightarrow> ValidOffset sk offset \<and> u \<le> offset"
    unfolding ValidOffset_iff [OF assms(1)] ValidOffset_iff [OF wf'] upd(2,3) length_drop
      word_le_nat_alt upd(1)
    by linarith
  show "ForwardSecureSign cr sk' offset data =
      (if u \<le> offset then ForwardSecureSign cr sk offset data else zero_signature)"
  proof (cases "ValidOffset sk' offset")
    case True
    with valid ForwardSecureSign_after_Update(2) [OF assms] show ?thesis by simp
  next
    case False
    with valid show ?thesis by (auto simp: ForwardSecureSign_def)
  qed
  show "fs_SubKeys sk' = drop (unat u - unat (fs_Start sk)) (fs_SubKeys sk)"
    unfolding upd(3) upd(1) by (simp add: min_def)
qed

text \<open>A concrete stand-in for the primitives, at which hypotheses about them are discharged.\<close>

fun flat_item :: "rlp_item \<Rightarrow> bytes" where
  "flat_item (RBytes bs) = bs"
| "flat_item (RUint n) = put_be 8 n"
| "flat_item (RList xs) = concat (map flat_item xs)"

definition demo_crypto :: crypto where
  "demo_crypto =
    \<lparr>crypto_vrf_prove = (\<lambda>sk msg. Some (of_nat (get_be msg))),
     crypto_vrf_proof_to_hash = (\<lambda>proof. Some (ucast proof)),
     crypto_vrf_verify = (\<lambda>pk proof msg.
        if proof = of_nat (get_be msg) then Some (ucast proof) else None),
     crypto_vrf_sk_to_pk = (\<lambda>sk. ucast sk),
     crypto_sign_detached = (\<lambda>data sk. ucast (ucast sk :: 256 word) + of_nat (get_be data)),
     crypto_sign_verify_detached = (\<lambda>sig data pk. sig = ucast pk + of_nat (get_be data)),
     crypto_sign_sk_to_pk = (\<lambda>sk. Some (ucast sk)),
     Sum512_256 = (\<lambda>bs. of_nat (get_be bs)),
     Keccak256 = (\<lambda>bs. of_nat (get_be bs)),
     EncodeToBytes = flat_item\<rparr>"

lemma sign_correct_demo: "sign_correct demo_crypto"
  by (simp add: sign_correct_def demo_crypto_def)

section \<open>Theorems\<close>



text \<open>
  C11.  Forward security of the key state: after an update to \<open>u\<close>, the key signs exactly at the
  offsets from \<open>u\<close> on that it could sign at before, with the same signatures; below \<open>u\<close> it
  returns the zero signature, and the sub keys of those offsets are gone from the state.
\<close>

theorem fs_update_forgets:
  assumes "fs_wf sk" "ForwardSecureUpdate sk u = (deleted, sk')"
  shows "(ValidOffset sk' offset \<longleftrightarrow> ValidOffset sk offset \<and> u \<le> offset)
    \<and> ForwardSecureSign cr sk' offset data =
        (if u \<le> offset then ForwardSecureSign cr sk offset data else zero_signature)
    \<and> fs_SubKeys sk' = drop (unat u - unat (fs_Start sk)) (fs_SubKeys sk)"
  using fs_update_facts [OF assms] by blast

theorem fs_update_forgets_witness:
  "let sk = \<lparr>fs_PublicKey = 1, fs_Start = 4,
             fs_SubKeys = [\<lparr>Sk = 2, PkSig = 3\<rparr>, \<lparr>Sk = 5, PkSig = 6\<rparr>]\<rparr>;
       sk' = snd (ForwardSecureUpdate sk 5)
   in \<not> ValidOffset sk' 4 \<and> ForwardSecureSign demo_crypto sk' 4 [9] = zero_signature
      \<and> fs_SubKeys sk' = [\<lparr>Sk = 5, PkSig = 6\<rparr>]"
proof -
  let ?sk = "\<lparr>fs_PublicKey = 1, fs_Start = 4,
             fs_SubKeys = [\<lparr>Sk = 2, PkSig = 3\<rparr>, \<lparr>Sk = 5, PkSig = 6\<rparr>]\<rparr>"
  obtain d sk' where u: "ForwardSecureUpdate ?sk 5 = (d, sk')" by fastforce
  have "fs_wf ?sk" by (simp add: fs_wf_def)
  from fs_update_forgets [OF this u, of 4 demo_crypto "[9]"] u show ?thesis by simp
qed



end
