(* ===== verification/State_Db.thy ===== *)
theory State_Db
  imports Crypto
begin

text \<open>
  The account state (\<^verbatim>\<open>src/core/state/statedb.go\<close>, \<^verbatim>\<open>state_object.go\<close>, \<^verbatim>\<open>journal.go\<close>): live objects over
  an account trie, with storage caches, the journal of undo entries, snapshots, and the
  finalisation of a transaction.

  A trie is represented by the map it stores, and a storage root inside an account by the
  contents it commits to (the zero hash at a key stands for no entry, as in the source, which deletes
  the entry of a zero value).  Reads of the database succeed; \<^verbatim>\<open>dbErr\<close> is therefore not part of the
  state.  A pointer to a live object is the address under which \<^verbatim>\<open>stateObjects\<close> holds it.
\<close>

section \<open>State objects\<close>

type_synonym storage = "(hash, hash) gomap"
type_synonym trie_storage = "hash \<Rightarrow> hash"

record Account =
  acc_Nonce :: u64
  acc_Balance :: int
  acc_Root :: trie_storage
  acc_CodeHash :: hash

record stateObject =
  so_data :: Account
  so_trie :: "trie_storage option"
  so_code :: "bytes option"
  so_originStorage :: storage
  so_dirtyStorage :: storage
  so_dirtyCode :: bool
  so_suicided :: bool
  so_deleted :: bool

definition emptyCodeHash :: "crypto \<Rightarrow> hash" where "emptyCodeHash cr = Keccak256 cr []"

abbreviation empty_root :: trie_storage where "empty_root \<equiv> (\<lambda>_. 0)"

text \<open>\<^verbatim>\<open>Account{}\<close> with the nil balance and code hash that \<^verbatim>\<open>newObject\<close> fills in.\<close>

definition emptyAccount :: "crypto \<Rightarrow> Account" where
  "emptyAccount cr = \<lparr>acc_Nonce = 0, acc_Balance = 0, acc_Root = empty_root, acc_CodeHash = emptyCodeHash cr\<rparr>"

definition newObject :: "Account \<Rightarrow> stateObject" where
  "newObject data =
     \<lparr>so_data = data, so_trie = None, so_code = None, so_originStorage = [], so_dirtyStorage = [],
      so_dirtyCode = False, so_suicided = False, so_deleted = False\<rparr>"

definition so_empty :: "crypto \<Rightarrow> stateObject \<Rightarrow> bool" where
  "so_empty cr so \<longleftrightarrow> acc_Nonce (so_data so) = 0 \<and> acc_Balance (so_data so) = 0
     \<and> acc_CodeHash (so_data so) = emptyCodeHash cr"

definition markSuicided :: "stateObject \<Rightarrow> stateObject" where
  "markSuicided so = so\<lparr>so_suicided := True\<rparr>"

definition setBalance :: "int \<Rightarrow> stateObject \<Rightarrow> stateObject" where
  "setBalance amount so = so\<lparr>so_data := (so_data so)\<lparr>acc_Balance := amount\<rparr>\<rparr>"

definition setNonce :: "u64 \<Rightarrow> stateObject \<Rightarrow> stateObject" where
  "setNonce nonce so = so\<lparr>so_data := (so_data so)\<lparr>acc_Nonce := nonce\<rparr>\<rparr>"

definition setCode :: "hash \<Rightarrow> bytes option \<Rightarrow> stateObject \<Rightarrow> stateObject" where
  "setCode codeHash code so =
     so\<lparr>so_code := code, so_data := (so_data so)\<lparr>acc_CodeHash := codeHash\<rparr>, so_dirtyCode := True\<rparr>"

definition setState :: "hash \<Rightarrow> hash \<Rightarrow> stateObject \<Rightarrow> stateObject" where
  "setState key val so = so\<lparr>so_dirtyStorage := mput key val (so_dirtyStorage so)\<rparr>"

text \<open>The storage trie is opened at the account's root on first access.\<close>

definition getTrie :: "stateObject \<Rightarrow> trie_storage \<times> stateObject" where
  "getTrie so =
     (case so_trie so of
        Some tr \<Rightarrow> (tr, so)
      | None \<Rightarrow> (acc_Root (so_data so), so\<lparr>so_trie := Some (acc_Root (so_data so))\<rparr>))"

definition so_GetCommittedState :: "stateObject \<Rightarrow> hash \<Rightarrow> hash \<times> stateObject" where
  "so_GetCommittedState so key =
     (case mget (so_originStorage so) key of
        Some val \<Rightarrow> (val, so)
      | None \<Rightarrow>
          let (tr, so) = getTrie so; val = tr key
          in (val, so\<lparr>so_originStorage := mput key val (so_originStorage so)\<rparr>))"

definition so_GetState :: "stateObject \<Rightarrow> hash \<Rightarrow> hash \<times> stateObject" where
  "so_GetState so key =
     (case mget (so_dirtyStorage so) key of
        Some val \<Rightarrow> (val, so)
      | None \<Rightarrow> so_GetCommittedState so key)"

text \<open>\<^verbatim>\<open>codes\<close> is the contract code stored in the database; nil code is \<open>None\<close>.\<close>

definition so_Code :: "crypto \<Rightarrow> (hash \<Rightarrow> bytes option) \<Rightarrow> stateObject \<Rightarrow> bytes option \<times> stateObject" where
  "so_Code cr codes so =
     (case so_code so of
        Some code \<Rightarrow> (Some code, so)
      | None \<Rightarrow>
          if acc_CodeHash (so_data so) = emptyCodeHash cr then (None, so)
          else let code = codes (acc_CodeHash (so_data so)) in (code, so\<lparr>so_code := code\<rparr>))"

text \<open>
  One iteration of \<^verbatim>\<open>updateTrie\<close>: the entry leaves the dirty storage; a value equal to the cached
  original one (zero when nothing is cached) is skipped.
\<close>

definition updateTrie_step :: "hash \<times> hash \<Rightarrow> trie_storage \<times> stateObject \<Rightarrow> trie_storage \<times> stateObject" where
  "updateTrie_step kv ts =
     (case (kv, ts) of ((key, val), (tr, so)) \<Rightarrow>
        let so = so\<lparr>so_dirtyStorage := mdel key (so_dirtyStorage so)\<rparr> in
        if val = (case mget (so_originStorage so) key of None \<Rightarrow> 0 | Some v \<Rightarrow> v) then (tr, so)
        else (tr(key := val), so\<lparr>so_originStorage := mput key val (so_originStorage so)\<rparr>))"

definition updateTrie :: "stateObject \<Rightarrow> trie_storage \<times> stateObject" where
  "updateTrie so0 =
     (let (tr, so) = getTrie so0;
          (tr, so) = fold updateTrie_step (so_dirtyStorage so0) (tr, so)
      in (tr, so\<lparr>so_trie := Some tr\<rparr>))"

definition updateRoot :: "stateObject \<Rightarrow> stateObject" where
  "updateRoot so = (let (tr, so) = updateTrie so in so\<lparr>so_data := (so_data so)\<lparr>acc_Root := tr\<rparr>\<rparr>)"

definition deepCopy :: "stateObject \<Rightarrow> stateObject" where
  "deepCopy so = (newObject (so_data so))
     \<lparr>so_trie := so_trie so, so_code := so_code so, so_dirtyStorage := so_dirtyStorage so,
      so_originStorage := so_originStorage so, so_suicided := so_suicided so,
      so_dirtyCode := so_dirtyCode so, so_deleted := so_deleted so\<rparr>"

section \<open>The state and its journal\<close>

record Log =
  lg_Address :: address
  lg_Topics :: "hash list"
  lg_Data :: bytes
  lg_BlockNumber :: u64
  lg_TxHash :: hash
  lg_TxIndex :: u64
  lg_BlockHash :: hash
  lg_Index :: u64
  lg_Removed :: bool

datatype journalEntry =
    createObjectChange address
  | resetObjectChange address stateObject
  | suicideChange address bool int
  | balanceChange address int
  | nonceChange address u64
  | storageChange address hash hash
  | codeChange address "bytes option" hash
  | refundChange u64
  | addLogChange hash
  | addPreimageChange hash
  | touchChange address

fun dirtied :: "journalEntry \<Rightarrow> address option" where
  "dirtied (createObjectChange a) = Some a"
| "dirtied (resetObjectChange a prev) = None"
| "dirtied (suicideChange a prev bal) = Some a"
| "dirtied (balanceChange a prev) = Some a"
| "dirtied (nonceChange a prev) = Some a"
| "dirtied (storageChange a key prev) = Some a"
| "dirtied (codeChange a code hash) = Some a"
| "dirtied (refundChange prev) = None"
| "dirtied (addLogChange h) = None"
| "dirtied (addPreimageChange h) = None"
| "dirtied (touchChange a) = Some a"

record journal =
  j_entries :: "journalEntry list"
  j_dirties :: "(address, int) gomap"

record revision =
  rev_id :: nat
  rev_journalIndex :: nat

record StateDB =
  sdb_codes :: "hash \<Rightarrow> bytes option"
  sdb_trie :: "address \<Rightarrow> Account option"
  sdb_stateObjects :: "(address, stateObject) gomap"
  sdb_stateObjectsDirty :: "address list"
  sdb_refund :: u64
  sdb_thash :: hash
  sdb_bhash :: hash
  sdb_txIndex :: u64
  sdb_logs :: "(hash, Log list) gomap"
  sdb_logSize :: u64
  sdb_preimages :: "(hash, bytes) gomap"
  sdb_journal :: journal
  sdb_validRevisions :: "revision list"
  sdb_nextRevisionId :: nat

definition newJournal :: journal where "newJournal = \<lparr>j_entries = [], j_dirties = []\<rparr>"

definition journal_dirty :: "address \<Rightarrow> journal \<Rightarrow> journal" where
  "journal_dirty addr j = j\<lparr>j_dirties :=
     mput addr ((case mget (j_dirties j) addr of None \<Rightarrow> 0 | Some n \<Rightarrow> n) + 1) (j_dirties j)\<rparr>"

definition journal_append :: "journalEntry \<Rightarrow> journal \<Rightarrow> journal" where
  "journal_append entry j =
     (let j = j\<lparr>j_entries := j_entries j @ [entry]\<rparr>
      in case dirtied entry of None \<Rightarrow> j | Some addr \<Rightarrow> journal_dirty addr j)"

definition append_entry :: "journalEntry \<Rightarrow> StateDB \<Rightarrow> StateDB" where
  "append_entry entry s = s\<lparr>sdb_journal := journal_append entry (sdb_journal s)\<rparr>"

text \<open>\<^verbatim>\<open>New\<close>, on the trie a root opens to.\<close>

definition NewStateDB :: "(hash \<Rightarrow> bytes option) \<Rightarrow> (address \<Rightarrow> Account option) \<Rightarrow> StateDB" where
  "NewStateDB codes tr =
     \<lparr>sdb_codes = codes, sdb_trie = tr, sdb_stateObjects = [], sdb_stateObjectsDirty = [], sdb_refund = 0,
      sdb_thash = 0, sdb_bhash = 0, sdb_txIndex = 0, sdb_logs = [], sdb_logSize = 0, sdb_preimages = [],
      sdb_journal = newJournal, sdb_validRevisions = [], sdb_nextRevisionId = 0\<rparr>"

section \<open>Live objects\<close>

definition setStateObject :: "address \<Rightarrow> stateObject \<Rightarrow> StateDB \<Rightarrow> StateDB" where
  "setStateObject addr so s = s\<lparr>sdb_stateObjects := mput addr so (sdb_stateObjects s)\<rparr>"

definition getStateObject :: "StateDB \<Rightarrow> address \<Rightarrow> stateObject option \<times> StateDB" where
  "getStateObject s addr =
     (case mget (sdb_stateObjects s) addr of
        Some obj \<Rightarrow> (if so_deleted obj then (None, s) else (Some obj, s))
      | None \<Rightarrow>
          (case sdb_trie s addr of
             None \<Rightarrow> (None, s)
           | Some data \<Rightarrow> let obj = newObject data in (Some obj, setStateObject addr obj s)))"

text \<open>The new object, its predecessor, and the state that holds the new object.\<close>

definition createObject :: "crypto \<Rightarrow> StateDB \<Rightarrow> address \<Rightarrow> stateObject \<times> stateObject option \<times> StateDB" where
  "createObject cr s addr =
     (let (prev, s) = getStateObject s addr;
          newobj = setNonce 0 (newObject (emptyAccount cr));
          s = (case prev of
                 None \<Rightarrow> append_entry (createObjectChange addr) s
               | Some p \<Rightarrow> append_entry (resetObjectChange addr p) s)
      in (newobj, prev, setStateObject addr newobj s))"

definition GetOrNewStateObject :: "crypto \<Rightarrow> StateDB \<Rightarrow> address \<Rightarrow> stateObject \<times> StateDB" where
  "GetOrNewStateObject cr s addr =
     (case getStateObject s addr of
        (Some obj, s) \<Rightarrow> if so_deleted obj
           then (let (newobj, prev, s) = createObject cr s addr in (newobj, s))
           else (obj, s)
      | (None, s) \<Rightarrow> let (newobj, prev, s) = createObject cr s addr in (newobj, s))"

definition CreateAccount :: "crypto \<Rightarrow> address \<Rightarrow> StateDB \<Rightarrow> StateDB" where
  "CreateAccount cr addr s =
     (let (newObj, prev, s) = createObject cr s addr
      in case prev of
           None \<Rightarrow> s
         | Some p \<Rightarrow> setStateObject addr (setBalance (acc_Balance (so_data p)) newObj) s)"

section \<open>Reading\<close>

text \<open>
  A read may load an object or cache a storage entry, so it returns the state as well.  The name
  without a suffix is the value read.
\<close>

definition GetState_upd :: "StateDB \<Rightarrow> address \<Rightarrow> hash \<Rightarrow> hash \<times> StateDB" where
  "GetState_upd s addr key =
     (case getStateObject s addr of
        (None, s) \<Rightarrow> (0, s)
      | (Some so, s) \<Rightarrow> let (val, so) = so_GetState so key in (val, setStateObject addr so s))"

definition GetCommittedState_upd :: "StateDB \<Rightarrow> address \<Rightarrow> hash \<Rightarrow> hash \<times> StateDB" where
  "GetCommittedState_upd s addr key =
     (case getStateObject s addr of
        (None, s) \<Rightarrow> (0, s)
      | (Some so, s) \<Rightarrow> let (val, so) = so_GetCommittedState so key in (val, setStateObject addr so s))"

definition GetCode_upd :: "crypto \<Rightarrow> StateDB \<Rightarrow> address \<Rightarrow> bytes option \<times> StateDB" where
  "GetCode_upd cr s addr =
     (case getStateObject s addr of
        (None, s) \<Rightarrow> (None, s)
      | (Some so, s) \<Rightarrow> let (code, so) = so_Code cr (sdb_codes s) so in (code, setStateObject addr so s))"

definition GetState :: "StateDB \<Rightarrow> address \<Rightarrow> hash \<Rightarrow> hash" where
  "GetState s addr key = fst (GetState_upd s addr key)"

definition GetCommittedState :: "StateDB \<Rightarrow> address \<Rightarrow> hash \<Rightarrow> hash" where
  "GetCommittedState s addr key = fst (GetCommittedState_upd s addr key)"

definition GetCode :: "crypto \<Rightarrow> StateDB \<Rightarrow> address \<Rightarrow> bytes option" where
  "GetCode cr s addr = fst (GetCode_upd cr s addr)"

definition Exist :: "StateDB \<Rightarrow> address \<Rightarrow> bool" where
  "Exist s addr \<longleftrightarrow> fst (getStateObject s addr) \<noteq> None"

definition Empty :: "crypto \<Rightarrow> StateDB \<Rightarrow> address \<Rightarrow> bool" where
  "Empty cr s addr = (case fst (getStateObject s addr) of None \<Rightarrow> True | Some so \<Rightarrow> so_empty cr so)"

definition GetBalance :: "StateDB \<Rightarrow> address \<Rightarrow> int" where
  "GetBalance s addr = (case fst (getStateObject s addr) of None \<Rightarrow> 0 | Some so \<Rightarrow> acc_Balance (so_data so))"

definition GetNonce :: "StateDB \<Rightarrow> address \<Rightarrow> u64" where
  "GetNonce s addr = (case fst (getStateObject s addr) of None \<Rightarrow> 0 | Some so \<Rightarrow> acc_Nonce (so_data so))"

text \<open>\<^verbatim>\<open>db.ContractCodeSize\<close> is the length of the stored code, 0 with an error when there is none.\<close>

definition GetCodeSize :: "StateDB \<Rightarrow> address \<Rightarrow> nat" where
  "GetCodeSize s addr =
     (case fst (getStateObject s addr) of
        None \<Rightarrow> 0
      | Some so \<Rightarrow>
          (case so_code so of
             Some code \<Rightarrow> length code
           | None \<Rightarrow> (case sdb_codes s (acc_CodeHash (so_data so)) of None \<Rightarrow> 0 | Some code \<Rightarrow> length code)))"

definition HasCode :: "crypto \<Rightarrow> StateDB \<Rightarrow> address \<Rightarrow> bool" where
  "HasCode cr s addr =
     (case fst (getStateObject s addr) of
        None \<Rightarrow> False | Some so \<Rightarrow> acc_CodeHash (so_data so) \<noteq> emptyCodeHash cr)"

definition GetCodeHash :: "StateDB \<Rightarrow> address \<Rightarrow> hash" where
  "GetCodeHash s addr = (case fst (getStateObject s addr) of None \<Rightarrow> 0 | Some so \<Rightarrow> acc_CodeHash (so_data so))"

definition HasSuicided :: "StateDB \<Rightarrow> address \<Rightarrow> bool" where
  "HasSuicided s addr = (case fst (getStateObject s addr) of None \<Rightarrow> False | Some so \<Rightarrow> so_suicided so)"

definition GetLogs :: "StateDB \<Rightarrow> hash \<Rightarrow> Log list" where
  "GetLogs s h = (case mget (sdb_logs s) h of None \<Rightarrow> [] | Some ls \<Rightarrow> ls)"

section \<open>Writing\<close>

definition ripemd :: address where "ripemd = 3"

definition touch :: "address \<Rightarrow> StateDB \<Rightarrow> StateDB" where
  "touch addr s =
     (let s = append_entry (touchChange addr) s
      in if addr = ripemd then s\<lparr>sdb_journal := journal_dirty addr (sdb_journal s)\<rparr> else s)"

definition so_SetBalance :: "address \<Rightarrow> stateObject \<Rightarrow> int \<Rightarrow> StateDB \<Rightarrow> StateDB" where
  "so_SetBalance addr so amount s =
     setStateObject addr (setBalance amount so) (append_entry (balanceChange addr (acc_Balance (so_data so))) s)"

definition so_AddBalance :: "crypto \<Rightarrow> address \<Rightarrow> stateObject \<Rightarrow> int \<Rightarrow> StateDB \<Rightarrow> StateDB" where
  "so_AddBalance cr addr so amount s =
     (if amount = 0 then (if so_empty cr so then touch addr s else s)
      else so_SetBalance addr so (acc_Balance (so_data so) + amount) s)"

definition so_SubBalance :: "address \<Rightarrow> stateObject \<Rightarrow> int \<Rightarrow> StateDB \<Rightarrow> StateDB" where
  "so_SubBalance addr so amount s =
     (if amount = 0 then s else so_SetBalance addr so (acc_Balance (so_data so) - amount) s)"

definition so_SetNonce :: "address \<Rightarrow> stateObject \<Rightarrow> u64 \<Rightarrow> StateDB \<Rightarrow> StateDB" where
  "so_SetNonce addr so nonce s =
     setStateObject addr (setNonce nonce so) (append_entry (nonceChange addr (acc_Nonce (so_data so))) s)"

definition so_SetCode :: "crypto \<Rightarrow> address \<Rightarrow> stateObject \<Rightarrow> hash \<Rightarrow> bytes \<Rightarrow> StateDB \<Rightarrow> StateDB" where
  "so_SetCode cr addr so codeHash code s =
     (let (prevcode, so) = so_Code cr (sdb_codes s) so
      in setStateObject addr (setCode codeHash (Some code) so)
           (append_entry (codeChange addr prevcode (acc_CodeHash (so_data so))) s))"

definition so_SetState :: "address \<Rightarrow> stateObject \<Rightarrow> hash \<Rightarrow> hash \<Rightarrow> StateDB \<Rightarrow> StateDB" where
  "so_SetState addr so key val s =
     (let (prev, so) = so_GetState so key
      in if prev = val then setStateObject addr so s
         else setStateObject addr (setState key val so) (append_entry (storageChange addr key prev) s))"

definition AddBalance :: "crypto \<Rightarrow> address \<Rightarrow> int \<Rightarrow> StateDB \<Rightarrow> StateDB" where
  "AddBalance cr addr amount s = (let (so, s) = GetOrNewStateObject cr s addr in so_AddBalance cr addr so amount s)"

definition SubBalance :: "crypto \<Rightarrow> address \<Rightarrow> int \<Rightarrow> StateDB \<Rightarrow> StateDB" where
  "SubBalance cr addr amount s = (let (so, s) = GetOrNewStateObject cr s addr in so_SubBalance addr so amount s)"

definition SetBalance :: "crypto \<Rightarrow> address \<Rightarrow> int \<Rightarrow> StateDB \<Rightarrow> StateDB" where
  "SetBalance cr addr amount s = (let (so, s) = GetOrNewStateObject cr s addr in so_SetBalance addr so amount s)"

definition SetNonce :: "crypto \<Rightarrow> address \<Rightarrow> u64 \<Rightarrow> StateDB \<Rightarrow> StateDB" where
  "SetNonce cr addr nonce s = (let (so, s) = GetOrNewStateObject cr s addr in so_SetNonce addr so nonce s)"

definition SetCode :: "crypto \<Rightarrow> address \<Rightarrow> bytes \<Rightarrow> StateDB \<Rightarrow> StateDB" where
  "SetCode cr addr code s =
     (let (so, s) = GetOrNewStateObject cr s addr in so_SetCode cr addr so (Keccak256 cr code) code s)"

definition SetState :: "crypto \<Rightarrow> address \<Rightarrow> hash \<Rightarrow> hash \<Rightarrow> StateDB \<Rightarrow> StateDB" where
  "SetState cr addr key val s = (let (so, s) = GetOrNewStateObject cr s addr in so_SetState addr so key val s)"

definition Suicide :: "address \<Rightarrow> StateDB \<Rightarrow> bool \<times> StateDB" where
  "Suicide addr s =
     (case getStateObject s addr of
        (None, s) \<Rightarrow> (False, s)
      | (Some so, s) \<Rightarrow>
          (True, setStateObject addr (setBalance 0 (markSuicided so))
             (append_entry (suicideChange addr (so_suicided so) (acc_Balance (so_data so))) s)))"

definition AddLog :: "Log \<Rightarrow> StateDB \<Rightarrow> StateDB" where
  "AddLog log s =
     (let s = append_entry (addLogChange (sdb_thash s)) s;
          log = log\<lparr>lg_TxHash := sdb_thash s, lg_BlockHash := sdb_bhash s, lg_TxIndex := sdb_txIndex s,
                    lg_Index := sdb_logSize s\<rparr>
      in s\<lparr>sdb_logs := mput (sdb_thash s) (GetLogs s (sdb_thash s) @ [log]) (sdb_logs s),
           sdb_logSize := sdb_logSize s + 1\<rparr>)"

definition AddPreimage :: "hash \<Rightarrow> bytes \<Rightarrow> StateDB \<Rightarrow> StateDB" where
  "AddPreimage h preimage s =
     (if mget (sdb_preimages s) h = None then
        (append_entry (addPreimageChange h) s)\<lparr>sdb_preimages := mput h preimage (sdb_preimages s)\<rparr>
      else s)"

definition AddRefund :: "u64 \<Rightarrow> StateDB \<Rightarrow> StateDB" where
  "AddRefund gas s = (append_entry (refundChange (sdb_refund s)) s)\<lparr>sdb_refund := sdb_refund s + gas\<rparr>"

text \<open>\<open>None\<close> is the panic "Refund counter below zero".\<close>

definition SubRefund :: "u64 \<Rightarrow> StateDB \<Rightarrow> StateDB option" where
  "SubRefund gas s =
     (let s' = append_entry (refundChange (sdb_refund s)) s
      in if sdb_refund s < gas then None else Some (s'\<lparr>sdb_refund := sdb_refund s - gas\<rparr>))"

definition Prepare :: "hash \<Rightarrow> hash \<Rightarrow> u64 \<Rightarrow> StateDB \<Rightarrow> StateDB" where
  "Prepare thash bhash ti s = s\<lparr>sdb_thash := thash, sdb_bhash := bhash, sdb_txIndex := ti\<rparr>"

section \<open>Snapshots\<close>

text \<open>
  Undoing one entry; \<open>None\<close> is the nil dereference of a missing object, or the slice bound below
  zero when there is no log to remove.
\<close>

definition on_object :: "address \<Rightarrow> (stateObject \<Rightarrow> stateObject) \<Rightarrow> StateDB \<Rightarrow> StateDB option" where
  "on_object addr f s =
     (case getStateObject s addr of (None, s) \<Rightarrow> None | (Some so, s) \<Rightarrow> Some (setStateObject addr (f so) s))"

fun revert_entry :: "journalEntry \<Rightarrow> StateDB \<Rightarrow> StateDB option" where
  "revert_entry (createObjectChange addr) s =
     Some (s\<lparr>sdb_stateObjects := mdel addr (sdb_stateObjects s),
             sdb_stateObjectsDirty := removeAll addr (sdb_stateObjectsDirty s)\<rparr>)"
| "revert_entry (resetObjectChange addr prev) s = Some (setStateObject addr prev s)"
| "revert_entry (suicideChange addr prev prevbalance) s =
     (case getStateObject s addr of
        (None, s) \<Rightarrow> Some s
      | (Some so, s) \<Rightarrow> Some (setStateObject addr (setBalance prevbalance (so\<lparr>so_suicided := prev\<rparr>)) s))"
| "revert_entry (balanceChange addr prev) s = on_object addr (setBalance prev) s"
| "revert_entry (nonceChange addr prev) s = on_object addr (setNonce prev) s"
| "revert_entry (storageChange addr key prev) s = on_object addr (setState key prev) s"
| "revert_entry (codeChange addr prevcode prevhash) s = on_object addr (setCode prevhash prevcode) s"
| "revert_entry (refundChange prev) s = Some (s\<lparr>sdb_refund := prev\<rparr>)"
| "revert_entry (addLogChange txhash) s =
     (let logs = GetLogs s txhash
      in if logs = [] then None
         else Some (s\<lparr>sdb_logs := (if length logs = 1 then mdel txhash (sdb_logs s)
                              else mput txhash (butlast logs) (sdb_logs s)),
                 sdb_logSize := sdb_logSize s - 1\<rparr>))"
| "revert_entry (addPreimageChange h) s = Some (s\<lparr>sdb_preimages := mdel h (sdb_preimages s)\<rparr>)"
| "revert_entry (touchChange addr) s = Some s"

definition undirty :: "journalEntry \<Rightarrow> journal \<Rightarrow> journal" where
  "undirty entry j =
     (case dirtied entry of
        None \<Rightarrow> j
      | Some addr \<Rightarrow>
          let n = (case mget (j_dirties j) addr of None \<Rightarrow> 0 | Some n \<Rightarrow> n) - 1
          in j\<lparr>j_dirties := (if n = 0 then mdel addr (j_dirties j) else mput addr n (j_dirties j))\<rparr>)"

text \<open>The loop of \<^verbatim>\<open>journal.revert\<close> runs over the entries above the snapshot, the last one first.\<close>

fun revert_loop :: "journalEntry list \<Rightarrow> StateDB \<Rightarrow> StateDB option" where
  "revert_loop [] s = Some s"
| "revert_loop (entry # entries) s =
     (case revert_entry entry s of
        None \<Rightarrow> None
      | Some s \<Rightarrow> revert_loop entries (s\<lparr>sdb_journal := undirty entry (sdb_journal s)\<rparr>))"

definition journal_revert :: "nat \<Rightarrow> StateDB \<Rightarrow> StateDB option" where
  "journal_revert snapshot s =
     map_option (\<lambda>s. s\<lparr>sdb_journal := (sdb_journal s)\<lparr>j_entries := take snapshot (j_entries (sdb_journal s))\<rparr>\<rparr>)
       (revert_loop (rev (drop snapshot (j_entries (sdb_journal s)))) s)"

definition Snapshot :: "StateDB \<Rightarrow> nat \<times> StateDB" where
  "Snapshot s =
     (let rid = sdb_nextRevisionId s
      in (rid, s\<lparr>sdb_nextRevisionId := rid + 1,
                 sdb_validRevisions := sdb_validRevisions s @
                   [\<lparr>rev_id = rid, rev_journalIndex = length (j_entries (sdb_journal s))\<rparr>]\<rparr>))"

definition RevertToSnapshot :: "nat \<Rightarrow> StateDB \<Rightarrow> StateDB option" where
  "RevertToSnapshot revid s =
     (let revs = sdb_validRevisions s;
          idx = sort_search (length revs) (\<lambda>i. revid \<le> rev_id (revs ! i))
      in if idx = length revs \<or> rev_id (revs ! idx) \<noteq> revid then None
         else map_option (\<lambda>s. s\<lparr>sdb_validRevisions := take idx revs\<rparr>)
                (journal_revert (rev_journalIndex (revs ! idx)) s))"

definition clearJournalAndRefund :: "StateDB \<Rightarrow> StateDB" where
  "clearJournalAndRefund s = s\<lparr>sdb_journal := newJournal, sdb_validRevisions := [], sdb_refund := 0\<rparr>"

definition ResetState :: "(address \<Rightarrow> Account option) \<Rightarrow> StateDB \<Rightarrow> StateDB" where
  "ResetState tr s = clearJournalAndRefund
     (s\<lparr>sdb_trie := tr, sdb_stateObjects := [], sdb_stateObjectsDirty := [], sdb_thash := 0, sdb_bhash := 0,
        sdb_txIndex := 0, sdb_logs := [], sdb_logSize := 0, sdb_preimages := []\<rparr>)"

section \<open>Finalising and committing\<close>

definition updateStateObject :: "address \<Rightarrow> stateObject \<Rightarrow> StateDB \<Rightarrow> StateDB" where
  "updateStateObject addr so s = s\<lparr>sdb_trie := (sdb_trie s)(addr \<mapsto> so_data so)\<rparr>"

definition deleteStateObject :: "address \<Rightarrow> stateObject \<Rightarrow> StateDB \<Rightarrow> StateDB" where
  "deleteStateObject addr so s =
     (setStateObject addr (so\<lparr>so_deleted := True\<rparr>) s)\<lparr>sdb_trie := (sdb_trie s)(addr := None)\<rparr>"

definition add_dirty :: "address \<Rightarrow> StateDB \<Rightarrow> StateDB" where
  "add_dirty addr s = s\<lparr>sdb_stateObjectsDirty := List.insert addr (sdb_stateObjectsDirty s)\<rparr>"

definition finalise_object :: "crypto \<Rightarrow> bool \<Rightarrow> address \<Rightarrow> StateDB \<Rightarrow> StateDB" where
  "finalise_object cr deleteEmptyObjects addr s =
     (case mget (sdb_stateObjects s) addr of
        None \<Rightarrow> s
      | Some so \<Rightarrow>
          add_dirty addr
            (if so_suicided so \<or> deleteEmptyObjects \<and> so_empty cr so then deleteStateObject addr so s
             else let so = updateRoot so in updateStateObject addr so (setStateObject addr so s)))"

text \<open>
  The addresses the miner tracker marks while the journal is walked, in the same pass over the
  entries as in the source.
\<close>

definition tracked_dirties :: "StateDB \<Rightarrow> address list" where
  "tracked_dirties s =
     concat (map (\<lambda>entry. case entry of
                    balanceChange addr prev \<Rightarrow> if mget (sdb_stateObjects s) addr = None then [] else [addr]
                  | suicideChange addr prev bal \<Rightarrow> if mget (sdb_stateObjects s) addr = None then [] else [addr]
                  | _ \<Rightarrow> [])
       (j_entries (sdb_journal s)))"

definition Finalise :: "crypto \<Rightarrow> bool \<Rightarrow> StateDB \<Rightarrow> StateDB" where
  "Finalise cr deleteEmptyObjects s =
     clearJournalAndRefund (fold (finalise_object cr deleteEmptyObjects) (map fst (j_dirties (sdb_journal s))) s)"

text \<open>The root that \<^verbatim>\<open>IntermediateRoot\<close> returns stands for the contents of the account trie.\<close>

definition IntermediateRoot :: "crypto \<Rightarrow> bool \<Rightarrow> StateDB \<Rightarrow> (address \<Rightarrow> Account option) \<times> StateDB" where
  "IntermediateRoot cr deleteEmptyObjects s =
     (let s = Finalise cr deleteEmptyObjects s in (sdb_trie s, s))"

text \<open>\<^verbatim>\<open>CommitTrie\<close> leaves the storage trie's contents; the nodes it writes are those of the database.\<close>

definition commit_object :: "crypto \<Rightarrow> bool \<Rightarrow> address \<Rightarrow> StateDB \<Rightarrow> StateDB" where
  "commit_object cr deleteEmptyObjects addr s =
     (case mget (sdb_stateObjects s) addr of
        None \<Rightarrow> s
      | Some so \<Rightarrow>
          let isDirty = (addr \<in> set (sdb_stateObjectsDirty s));
              s = (if so_suicided so \<or> isDirty \<and> deleteEmptyObjects \<and> so_empty cr so then
                     deleteStateObject addr so s
                   else if isDirty then
                     let (s, so) = (case so_code so of
                           Some code \<Rightarrow>
                             if so_dirtyCode so
                             then (s\<lparr>sdb_codes := (sdb_codes s)(acc_CodeHash (so_data so) \<mapsto> code)\<rparr>,
                                   so\<lparr>so_dirtyCode := False\<rparr>)
                             else (s, so)
                         | None \<Rightarrow> (s, so));
                         so = updateRoot so
                     in updateStateObject addr so (setStateObject addr so s)
                   else s)
          in s\<lparr>sdb_stateObjectsDirty := removeAll addr (sdb_stateObjectsDirty s)\<rparr>)"

definition Commit :: "crypto \<Rightarrow> bool \<Rightarrow> StateDB \<Rightarrow> (address \<Rightarrow> Account option) \<times> StateDB" where
  "Commit cr deleteEmptyObjects s =
     (let s = fold add_dirty (map fst (j_dirties (sdb_journal s))) s;
          s = fold (commit_object cr deleteEmptyObjects) (map fst (sdb_stateObjects s)) s
      in (sdb_trie s, clearJournalAndRefund s))"

text \<open>
  \<^verbatim>\<open>Copy\<close> keeps the objects of the journal's dirty addresses and of \<^verbatim>\<open>stateObjectsDirty\<close>; copying a
  dirty address that has no object would dereference nil (\<open>None\<close>).
\<close>

definition copy_journal_dirty :: "StateDB \<Rightarrow> address \<Rightarrow> StateDB \<Rightarrow> StateDB" where
  "copy_journal_dirty s addr c =
     (case mget (sdb_stateObjects s) addr of
        None \<Rightarrow> c
      | Some so \<Rightarrow> add_dirty addr (setStateObject addr (deepCopy so) c))"

fun copy_objects_dirty :: "StateDB \<Rightarrow> address list \<Rightarrow> StateDB \<Rightarrow> StateDB option" where
  "copy_objects_dirty s [] c = Some c"
| "copy_objects_dirty s (addr # addrs) c =
     (if mget (sdb_stateObjects c) addr \<noteq> None then copy_objects_dirty s addrs c
      else case mget (sdb_stateObjects s) addr of
             None \<Rightarrow> None
           | Some so \<Rightarrow> copy_objects_dirty s addrs (add_dirty addr (setStateObject addr (deepCopy so) c)))"

definition CopyState :: "StateDB \<Rightarrow> StateDB option" where
  "CopyState s =
     copy_objects_dirty s (sdb_stateObjectsDirty s)
       (fold (copy_journal_dirty s) (map fst (j_dirties (sdb_journal s)))
          ((NewStateDB (sdb_codes s) (sdb_trie s))
           \<lparr>sdb_refund := sdb_refund s, sdb_logs := sdb_logs s, sdb_logSize := sdb_logSize s,
            sdb_preimages := sdb_preimages s\<rparr>))"

end
