(* ===== verification/State_Journal.thy ===== *)
theory State_Journal
  imports State_Db
begin

text \<open>
  Snapshots are exact: what a reader can observe of a state after \<^verbatim>\<open>RevertToSnapshot\<close> is what it
  could observe when the snapshot was taken.  The observable content of a state is its \<open>view\<close>;
  reads keep it, writes change it and append undo entries whose abstract meaning (\<open>undo\<close>)
  restores it, and reverting an entry implements its abstract meaning.
\<close>

section \<open>What can be observed\<close>

record acct_view =
  av_nonce :: u64
  av_balance :: int
  av_codeHash :: hash
  av_code :: bytes
  av_committed :: "hash \<Rightarrow> hash"
  av_storage :: "hash \<Rightarrow> hash"
  av_suicided :: bool

record view =
  w_acct :: "address \<Rightarrow> acct_view option"
  w_refund :: u64
  w_logs :: "hash \<Rightarrow> Log list"
  w_logSize :: u64
  w_preimages :: "hash \<Rightarrow> bytes option"

definition committed_of :: "stateObject \<Rightarrow> hash \<Rightarrow> hash" where
  "committed_of so key =
     (case mget (so_originStorage so) key of
        Some v \<Rightarrow> v
      | None \<Rightarrow> (case so_trie so of Some tr \<Rightarrow> tr key | None \<Rightarrow> acc_Root (so_data so) key))"

definition storage_of :: "stateObject \<Rightarrow> hash \<Rightarrow> hash" where
  "storage_of so key = (case mget (so_dirtyStorage so) key of Some v \<Rightarrow> v | None \<Rightarrow> committed_of so key)"

definition code_of :: "crypto \<Rightarrow> (hash \<Rightarrow> bytes option) \<Rightarrow> stateObject \<Rightarrow> bytes" where
  "code_of cr codes so =
     (case so_code so of
        Some c \<Rightarrow> c
      | None \<Rightarrow> if acc_CodeHash (so_data so) = emptyCodeHash cr then []
                else (case codes (acc_CodeHash (so_data so)) of None \<Rightarrow> [] | Some c \<Rightarrow> c))"

definition obj_view :: "crypto \<Rightarrow> (hash \<Rightarrow> bytes option) \<Rightarrow> stateObject \<Rightarrow> acct_view" where
  "obj_view cr codes so =
     \<lparr>av_nonce = acc_Nonce (so_data so), av_balance = acc_Balance (so_data so),
      av_codeHash = acc_CodeHash (so_data so), av_code = code_of cr codes so,
      av_committed = committed_of so, av_storage = storage_of so, av_suicided = so_suicided so\<rparr>"

definition acct :: "crypto \<Rightarrow> StateDB \<Rightarrow> address \<Rightarrow> acct_view option" where
  "acct cr s addr =
     (case mget (sdb_stateObjects s) addr of
        Some so \<Rightarrow> if so_deleted so then None else Some (obj_view cr (sdb_codes s) so)
      | None \<Rightarrow> map_option (\<lambda>d. obj_view cr (sdb_codes s) (newObject d)) (sdb_trie s addr))"

definition view_of :: "crypto \<Rightarrow> StateDB \<Rightarrow> view" where
  "view_of cr s =
     \<lparr>w_acct = acct cr s, w_refund = sdb_refund s, w_logs = GetLogs s, w_logSize = sdb_logSize s,
      w_preimages = mget (sdb_preimages s)\<rparr>"

definition put_acct :: "address \<Rightarrow> acct_view option \<Rightarrow> view \<Rightarrow> view" where
  "put_acct addr av v = v\<lparr>w_acct := (w_acct v)(addr := av)\<rparr>"

section \<open>The meaning of a journal entry\<close>

definition on_acct :: "address \<Rightarrow> (acct_view \<Rightarrow> acct_view) \<Rightarrow> view \<Rightarrow> view option" where
  "on_acct addr f v = map_option (\<lambda>av. put_acct addr (Some (f av)) v) (w_acct v addr)"

definition balance_in :: "acct_view option \<Rightarrow> int" where
  "balance_in x = (case x of None \<Rightarrow> 0 | Some av \<Rightarrow> av_balance av)"

definition suicided_in :: "acct_view option \<Rightarrow> bool" where
  "suicided_in x = (case x of None \<Rightarrow> False | Some av \<Rightarrow> av_suicided av)"

text \<open>
  \<open>quiet old new\<close>: the change from \<open>old\<close> to \<open>new\<close> keeps the balance and marks no suicide.  The entries of
  new and reset objects stand for such changes only: undoing them is defined where that is so.
\<close>

definition quiet :: "acct_view option \<Rightarrow> acct_view option \<Rightarrow> bool" where
  "quiet old new \<longleftrightarrow> balance_in old = balance_in new \<and> (suicided_in new \<longrightarrow> suicided_in old)"

fun undo :: "crypto \<Rightarrow> (hash \<Rightarrow> bytes option) \<Rightarrow> journalEntry \<Rightarrow> view \<Rightarrow> view option" where
  "undo cr codes (createObjectChange a) v =
     (if w_acct v a \<noteq> None \<and> quiet None (w_acct v a) then Some (put_acct a None v) else None)"
| "undo cr codes (resetObjectChange a prev) v =
     (if w_acct v a \<noteq> None \<and> quiet (Some (obj_view cr codes prev)) (w_acct v a)
      then Some (put_acct a (Some (obj_view cr codes prev)) v) else None)"
| "undo cr codes (suicideChange a prev bal) v =
     on_acct a (\<lambda>av. av\<lparr>av_suicided := prev, av_balance := bal\<rparr>) v"
| "undo cr codes (balanceChange a prev) v = on_acct a (\<lambda>av. av\<lparr>av_balance := prev\<rparr>) v"
| "undo cr codes (nonceChange a prev) v = on_acct a (\<lambda>av. av\<lparr>av_nonce := prev\<rparr>) v"
| "undo cr codes (storageChange a key prev) v =
     on_acct a (\<lambda>av. av\<lparr>av_storage := (av_storage av)(key := prev)\<rparr>) v"
| "undo cr codes (codeChange a prevcode prevhash) v =
     on_acct a (\<lambda>av. av\<lparr>av_codeHash := prevhash,
       av_code := (case prevcode of
                     Some c \<Rightarrow> c
                   | None \<Rightarrow> if prevhash = emptyCodeHash cr then []
                             else (case codes prevhash of None \<Rightarrow> [] | Some c \<Rightarrow> c))\<rparr>) v"
| "undo cr codes (refundChange prev) v = Some (v\<lparr>w_refund := prev\<rparr>)"
| "undo cr codes (addLogChange h) v =
     (if w_logs v h = [] then None
      else Some (v\<lparr>w_logs := (w_logs v)(h := butlast (w_logs v h)), w_logSize := w_logSize v - 1\<rparr>))"
| "undo cr codes (addPreimageChange h) v = Some (v\<lparr>w_preimages := (w_preimages v)(h := None)\<rparr>)"
| "undo cr codes (touchChange a) v = Some v"

fun undo_all :: "crypto \<Rightarrow> (hash \<Rightarrow> bytes option) \<Rightarrow> journalEntry list \<Rightarrow> view \<Rightarrow> view option" where
  "undo_all cr codes [] v = Some v"
| "undo_all cr codes (e # es) v = Option.bind (undo cr codes e v) (undo_all cr codes es)"

lemma undo_all_append:
  "undo_all cr codes (es @ es') v = Option.bind (undo_all cr codes es v) (undo_all cr codes es')"
proof (induction es arbitrary: v)
  case (Cons e es)
  then show ?case by (cases "undo cr codes e v") simp_all
qed simp

section \<open>Well-formed states\<close>

abbreviation entries :: "StateDB \<Rightarrow> journalEntry list" where
  "entries s \<equiv> j_entries (sdb_journal s)"

definition entry_ok :: "StateDB \<Rightarrow> journalEntry \<Rightarrow> bool" where
  "entry_ok s e \<longleftrightarrow>
     (case e of
        createObjectChange a \<Rightarrow> sdb_trie s a = None
      | resetObjectChange a prev \<Rightarrow> \<not> so_deleted prev
      | _ \<Rightarrow> True)"

definition objects_ok :: "StateDB \<Rightarrow> bool" where
  "objects_ok s \<longleftrightarrow>
     (\<forall>a so. mget (sdb_stateObjects s) a = Some so \<longrightarrow> so_deleted so \<longrightarrow> sdb_trie s a = None)"

text \<open>
  The journal's dirty counters cover its entries, and an address it counts as dirty has no
  deleted object.
\<close>

definition dirty_count :: "address \<Rightarrow> journalEntry list \<Rightarrow> nat" where
  "dirty_count a es = length (filter (\<lambda>e. dirtied e = Some a) es)"

definition dirties_for :: "journalEntry list \<Rightarrow> StateDB \<Rightarrow> bool" where
  "dirties_for es s \<longleftrightarrow>
     (\<forall>a so. mget (j_dirties (sdb_journal s)) a \<noteq> None \<longrightarrow> mget (sdb_stateObjects s) a = Some so \<longrightarrow> \<not> so_deleted so)
     \<and> (\<forall>a. int (dirty_count a es) \<le> (case mget (j_dirties (sdb_journal s)) a of None \<Rightarrow> 0 | Some n \<Rightarrow> n))"

definition dirties_ok :: "StateDB \<Rightarrow> bool" where
  "dirties_ok s \<longleftrightarrow> dirties_for (entries s) s"

definition sdb_ok :: "StateDB \<Rightarrow> bool" where
  "sdb_ok s \<longleftrightarrow> objects_ok s \<and> dirties_ok s \<and> (\<forall>e \<in> set (entries s). entry_ok s e)"

lemma append_entry_simps [simp]:
  "entries (append_entry e s) = entries s @ [e]"
  "sdb_trie (append_entry e s) = sdb_trie s" "sdb_codes (append_entry e s) = sdb_codes s"
  "sdb_stateObjects (append_entry e s) = sdb_stateObjects s" "sdb_refund (append_entry e s) = sdb_refund s"
  "sdb_logs (append_entry e s) = sdb_logs s" "sdb_logSize (append_entry e s) = sdb_logSize s"
  "sdb_preimages (append_entry e s) = sdb_preimages s"
  "sdb_validRevisions (append_entry e s) = sdb_validRevisions s"
  "sdb_nextRevisionId (append_entry e s) = sdb_nextRevisionId s"
  "sdb_thash (append_entry e s) = sdb_thash s" "sdb_bhash (append_entry e s) = sdb_bhash s"
  "sdb_txIndex (append_entry e s) = sdb_txIndex s"
  by (simp_all add: append_entry_def journal_append_def journal_dirty_def Let_def split: option.split)

lemma setStateObject_simps [simp]:
  "sdb_trie (setStateObject a so s) = sdb_trie s" "sdb_codes (setStateObject a so s) = sdb_codes s"
  "sdb_stateObjects (setStateObject a so s) = mput a so (sdb_stateObjects s)"
  "sdb_journal (setStateObject a so s) = sdb_journal s" "sdb_refund (setStateObject a so s) = sdb_refund s"
  "sdb_logs (setStateObject a so s) = sdb_logs s" "sdb_logSize (setStateObject a so s) = sdb_logSize s"
  "sdb_preimages (setStateObject a so s) = sdb_preimages s"
  "sdb_validRevisions (setStateObject a so s) = sdb_validRevisions s"
  "sdb_nextRevisionId (setStateObject a so s) = sdb_nextRevisionId s"
  by (simp_all add: setStateObject_def)

lemma dirty_count_simps [simp]:
  "dirty_count a [] = 0" "dirty_count a (es @ es') = dirty_count a es + dirty_count a es'"
  "dirty_count a (e # es) = (if dirtied e = Some a then 1 else 0) + dirty_count a es"
  by (simp_all add: dirty_count_def)

lemma dirties_append_entry:
  "mget (j_dirties (sdb_journal (append_entry e s))) a =
     (if dirtied e = Some a then Some ((case mget (j_dirties (sdb_journal s)) a of None \<Rightarrow> 0 | Some n \<Rightarrow> n) + 1)
      else mget (j_dirties (sdb_journal s)) a)"
  by (auto simp: append_entry_def journal_append_def journal_dirty_def Let_def split: option.split)

lemma dirties_for_set: "dirties_for es s \<Longrightarrow> \<not> so_deleted so \<Longrightarrow> dirties_for es (setStateObject a so s)"
  by (auto simp: dirties_for_def)

lemma dirties_for_upd:
  assumes "dirties_for es s" "sdb_journal s' = sdb_journal (append_entry e s)"
    "\<And>b. b \<noteq> a \<Longrightarrow> mget (sdb_stateObjects s') b = mget (sdb_stateObjects s) b"
    "dirtied e \<in> {None, Some a}" "\<And>so. mget (sdb_stateObjects s') a = Some so \<Longrightarrow> \<not> so_deleted so"
  shows "dirties_for (es @ [e]) s'"
proof -
  have "\<not> so_deleted so"
    if "mget (j_dirties (sdb_journal s')) b \<noteq> None" "mget (sdb_stateObjects s') b = Some so" for b so
    using assms that by (cases "b = a") (auto simp: dirties_for_def dirties_append_entry split: if_splits)
  moreover have "int (dirty_count b (es @ [e])) \<le> (case mget (j_dirties (sdb_journal s')) b of None \<Rightarrow> 0 | Some n \<Rightarrow> n)" for b
    using assms(1) unfolding dirties_for_def assms(2) dirties_append_entry by auto
  ultimately show ?thesis by (auto simp: dirties_for_def)
qed

lemma view_append [simp]: "view_of cr (append_entry e s) = view_of cr s"
  by (simp add: view_of_def acct_def fun_eq_iff GetLogs_def split: option.split)

lemma view_set [simp]:
  "\<not> so_deleted so \<Longrightarrow> view_of cr (setStateObject a so s) = put_acct a (Some (obj_view cr (sdb_codes s) so)) (view_of cr s)"
  by (auto simp: view_of_def put_acct_def acct_def fun_eq_iff GetLogs_def split: option.split)

lemma put_acct_simps [simp]:
  "w_acct (put_acct a x v) = (w_acct v)(a := x)" "w_refund (put_acct a x v) = w_refund v"
  "w_logs (put_acct a x v) = w_logs v" "w_logSize (put_acct a x v) = w_logSize v"
  "w_preimages (put_acct a x v) = w_preimages v" "put_acct a x (put_acct a y v) = put_acct a x v"
  by (simp_all add: put_acct_def)

lemma put_acct_id: "w_acct v a = x \<Longrightarrow> put_acct a x v = v"
  by (auto simp: put_acct_def fun_upd_idem)

section \<open>Reads keep the view\<close>

text \<open>Fields that no operation inside a transaction changes.\<close>

definition same_base :: "StateDB \<Rightarrow> StateDB \<Rightarrow> bool" where
  "same_base s s' \<longleftrightarrow> sdb_trie s' = sdb_trie s \<and> sdb_codes s' = sdb_codes s"

lemma getStateObject_cases:
  assumes "getStateObject s a = (x, s')" "objects_ok s"
  shows "view_of cr s' = view_of cr s" "sdb_journal s' = sdb_journal s" "same_base s s'" "objects_ok s'"
    and "sdb_validRevisions s' = sdb_validRevisions s" "sdb_nextRevisionId s' = sdb_nextRevisionId s"
    and "x = None \<Longrightarrow> w_acct (view_of cr s) a = None \<and> sdb_trie s a = None"
    and "x = Some so \<Longrightarrow> \<not> so_deleted so \<and> w_acct (view_of cr s) a = Some (obj_view cr (sdb_codes s) so)
           \<and> mget (sdb_stateObjects s') a = Some so"
proof -
  have load: "w_acct (view_of cr s) a = Some (obj_view cr (sdb_codes s) (newObject d))"
    if "mget (sdb_stateObjects s) a = None" "sdb_trie s a = Some d" for d
    using that by (simp add: view_of_def acct_def)
  have nd: "\<not> so_deleted (newObject d)" for d by (simp add: newObject_def)
  show "view_of cr s' = view_of cr s"
    using assms load nd by (auto simp: getStateObject_def Let_def put_acct_id split: option.splits if_splits)
  show "sdb_journal s' = sdb_journal s" "same_base s s'" "sdb_validRevisions s' = sdb_validRevisions s"
    "sdb_nextRevisionId s' = sdb_nextRevisionId s"
    using assms by (auto simp: getStateObject_def Let_def same_base_def split: option.splits if_splits)
  show "objects_ok s'"
    using assms nd by (auto simp: getStateObject_def Let_def objects_ok_def split: option.splits if_splits)
  show "x = None \<Longrightarrow> w_acct (view_of cr s) a = None \<and> sdb_trie s a = None"
    using assms by (auto simp: getStateObject_def Let_def objects_ok_def view_of_def acct_def split: option.splits if_splits)
  show "x = Some so \<Longrightarrow> \<not> so_deleted so \<and> w_acct (view_of cr s) a = Some (obj_view cr (sdb_codes s) so)
           \<and> mget (sdb_stateObjects s') a = Some so"
    using assms nd by (auto simp: getStateObject_def Let_def view_of_def acct_def split: option.splits if_splits)
qed

lemma obj_view_cong:
  assumes "so_data so' = so_data so" "so_code so' = so_code so" "so_suicided so' = so_suicided so"
    "so_dirtyStorage so' = so_dirtyStorage so" "\<And>k. committed_of so' k = committed_of so k"
  shows "obj_view cr codes so' = obj_view cr codes so"
proof -
  have "committed_of so' = committed_of so" using assms(5) by (rule ext)
  moreover from this have "storage_of so' = storage_of so" using assms(4) by (intro ext) (simp add: storage_of_def split: option.split)
  ultimately show ?thesis using assms by (simp add: obj_view_def code_of_def split: option.split)
qed

lemma getTrie_eq:
  "fst (getTrie so) key = (case so_trie so of Some t \<Rightarrow> t key | None \<Rightarrow> acc_Root (so_data so) key)"
  "snd (getTrie so) = so\<lparr>so_trie := Some (fst (getTrie so))\<rparr>"
  "so_trie so = None \<Longrightarrow> fst (getTrie so) = acc_Root (so_data so)"
  "so_trie so = Some t \<Longrightarrow> fst (getTrie so) = t"
  by (cases so; auto simp: getTrie_def split: option.splits)+

lemma committed_read_eq:
  "so_GetCommittedState so key =
    (committed_of so key,
     if mget (so_originStorage so) key = None
     then so\<lparr>so_trie := Some (fst (getTrie so)),
             so_originStorage := mput key (committed_of so key) (so_originStorage so)\<rparr>
     else so)"
  by (auto simp: so_GetCommittedState_def committed_of_def case_prod_beta Let_def getTrie_eq split: option.splits)

lemma committed_read:
  assumes "so_GetCommittedState so key = (val, so')"
  shows "val = committed_of so key" "obj_view cr codes so' = obj_view cr codes so" "so_deleted so' = so_deleted so"
proof -
  show "val = committed_of so key" "so_deleted so' = so_deleted so"
    using assms by (auto simp: committed_read_eq split: if_splits)
  have "committed_of so' k = committed_of so k" for k
    using assms getTrie_eq(1) [of so k]
    by (auto simp: committed_read_eq committed_of_def split: option.splits if_splits)
  then show "obj_view cr codes so' = obj_view cr codes so"
    using assms by (intro obj_view_cong) (auto simp: committed_read_eq split: if_splits)
qed

lemma state_read:
  assumes "so_GetState so key = (val, so')"
  shows "val = storage_of so key" "obj_view cr codes so' = obj_view cr codes so" "so_deleted so' = so_deleted so"
  using assms committed_read [of so key val so'] by (auto simp: so_GetState_def storage_of_def Let_def split: option.splits)

lemma code_read:
  assumes "so_Code cr codes so = (code, so')"
  shows "code_of cr codes so = (case code of Some c \<Rightarrow> c | None \<Rightarrow>
      if acc_CodeHash (so_data so) = emptyCodeHash cr then []
      else (case codes (acc_CodeHash (so_data so)) of None \<Rightarrow> [] | Some c \<Rightarrow> c))"
    and "obj_view cr codes so' = obj_view cr codes so" "so_deleted so' = so_deleted so"
    and "so_data so' = so_data so"
  using assms
  by (auto simp: so_Code_def code_of_def obj_view_def committed_of_def [abs_def] storage_of_def [abs_def] Let_def
      split: option.splits if_splits)

section \<open>Writes append what undoes them\<close>

text \<open>
  \<open>extends cr s s'\<close>: the journal of \<open>s'\<close> is that of \<open>s\<close> with entries appended whose undoing
  leads from the view of \<open>s'\<close> back to the view of \<open>s\<close>.
\<close>

definition extends :: "crypto \<Rightarrow> StateDB \<Rightarrow> StateDB \<Rightarrow> bool" where
  "extends cr s s' \<longleftrightarrow> same_base s s' \<and> sdb_ok s'
     \<and> (\<exists>es. entries s' = entries s @ es \<and> undo_all cr (sdb_codes s) (rev es) (view_of cr s') = Some (view_of cr s))"

lemma extends_refl: "sdb_ok s \<Longrightarrow> extends cr s s"
  by (auto simp: extends_def same_base_def)

lemma extends_trans:
  assumes "extends cr s t" "extends cr t u"
  shows "extends cr s u"
proof -
  obtain es es' where "entries t = entries s @ es" "entries u = entries t @ es'"
    "undo_all cr (sdb_codes s) (rev es) (view_of cr t) = Some (view_of cr s)"
    "undo_all cr (sdb_codes t) (rev es') (view_of cr u) = Some (view_of cr t)"
    using assms unfolding extends_def by blast
  moreover have "same_base s t" "same_base t u" "sdb_ok u" using assms by (auto simp: extends_def)
  ultimately show ?thesis
    unfolding extends_def by (auto simp: same_base_def undo_all_append intro!: exI [of _ "es @ es'"])
qed

lemma sdb_ok_base:
  "sdb_ok s \<Longrightarrow> same_base s s' \<Longrightarrow> objects_ok s' \<Longrightarrow> dirties_ok s' \<Longrightarrow> entries s' = entries s @ es \<Longrightarrow>
     \<forall>e \<in> set es. entry_ok s e \<Longrightarrow> sdb_ok s'"
  by (auto simp: sdb_ok_def same_base_def entry_ok_def split: journalEntry.splits)

text \<open>A step that appends one entry, or none.\<close>

lemma extends_one:
  assumes "sdb_ok s" "same_base s s'" "objects_ok s'" "dirties_ok s'" "entries s' = entries s @ [e]" "entry_ok s e"
    "undo cr (sdb_codes s) e (view_of cr s') = Some (view_of cr s)"
  shows "extends cr s s'"
  using assms sdb_ok_base [of s s' "[e]"] by (auto simp: extends_def)

lemma extends_none:
  assumes "sdb_ok s" "same_base s s'" "objects_ok s'" "dirties_ok s'" "entries s' = entries s" "view_of cr s' = view_of cr s"
  shows "extends cr s s'"
  using assms sdb_ok_base [of s s' "[]"] by (auto simp: extends_def)

text \<open>Recording a change of a live object, with an entry that restores its old view.\<close>

definition live :: "StateDB \<Rightarrow> address \<Rightarrow> stateObject \<Rightarrow> bool" where
  "live s a so \<longleftrightarrow> mget (sdb_stateObjects s) a = Some so \<and> \<not> so_deleted so"

lemma live_view: "live s a so \<Longrightarrow> w_acct (view_of cr s) a = Some (obj_view cr (sdb_codes s) so)"
  by (simp add: live_def view_of_def acct_def)

lemma objects_ok_set: "objects_ok s \<Longrightarrow> \<not> so_deleted so \<Longrightarrow> objects_ok (setStateObject a so s)"
  by (auto simp: objects_ok_def)

lemma objects_ok_append: "objects_ok s \<Longrightarrow> objects_ok (append_entry e s)"
  by (simp add: objects_ok_def)

lemma dirties_ok_append:
  "dirties_ok s \<Longrightarrow> dirtied e \<in> {None, Some a} \<Longrightarrow> \<not> so_deleted so \<Longrightarrow>
     dirties_ok (setStateObject a so (append_entry e s))"
  unfolding dirties_ok_def using dirties_for_upd [of "entries s" s "setStateObject a so (append_entry e s)" e a]
  by auto

lemma dirties_ok_set: "dirties_ok s \<Longrightarrow> \<not> so_deleted so \<Longrightarrow> dirties_ok (setStateObject a so s)"
  by (simp add: dirties_ok_def dirties_for_set)

lemma extends_write:
  assumes "sdb_ok s" "live s a so" "so_deleted so' = so_deleted so" "entry_ok s e" "dirtied e \<in> {None, Some a}"
    and "undo cr (sdb_codes s) e (put_acct a (Some (obj_view cr (sdb_codes s) so')) (view_of cr s))
      = Some (put_acct a (Some (obj_view cr (sdb_codes s) so)) (view_of cr s))"
  shows "extends cr s (setStateObject a so' (append_entry e s))"
  using assms
  by (intro extends_one [where e = e])
    (auto simp: same_base_def sdb_ok_def live_def intro!: objects_ok_set objects_ok_append dirties_ok_append
      simp: put_acct_id [OF live_view [OF assms(2)]])

lemma extends_reload:
  assumes "sdb_ok s" "live s a so" "so_deleted so' = so_deleted so"
    "obj_view cr (sdb_codes s) so' = obj_view cr (sdb_codes s) so"
  shows "extends cr s (setStateObject a so' s)"
  using assms
  by (intro extends_none)
    (auto simp: same_base_def sdb_ok_def live_def put_acct_id [OF live_view [OF assms(2)]]
      intro!: objects_ok_set dirties_ok_set)

lemma dirties_for_get: "dirties_for es s \<Longrightarrow> getStateObject s a = (x, s') \<Longrightarrow> dirties_for es s'"
  by (auto simp: getStateObject_def newObject_def Let_def split: option.splits if_splits intro!: dirties_for_set)

lemma dirties_ok_get: "dirties_ok s \<Longrightarrow> objects_ok s \<Longrightarrow> getStateObject s a = (x, s') \<Longrightarrow> dirties_ok s'"
  using dirties_for_get [of "entries s" s a x s'] getStateObject_cases(2) [of s a x s'] by (simp add: dirties_ok_def)

lemma extends_get:
  assumes "sdb_ok s" "getStateObject s a = (x, s')"
  shows "extends cr s s'"
  using assms getStateObject_cases(1-4) [OF assms(2)] dirties_ok_get [OF _ _ assms(2)]
  by (intro extends_none) (auto simp: sdb_ok_def)

lemma get_live:
  assumes "sdb_ok s" "getStateObject s a = (Some so, s')"
  shows "live s' a so"
  using assms getStateObject_cases(8) [OF assms(2)] by (auto simp: live_def sdb_ok_def)

lemma fresh_object:
  assumes "createObject cr s a = (so, prev, s')"
  shows "so = setNonce 0 (newObject (emptyAccount cr))" "\<not> so_deleted so" "\<not> so_suicided so"
    "acc_Balance (so_data so) = 0" "mget (sdb_stateObjects s') a = Some so"
  using assms
  by (auto simp: createObject_def Let_def setNonce_def newObject_def emptyAccount_def split: prod.splits option.splits)

lemma extends_create:
  assumes "sdb_ok s" "createObject cr s a = (so, None, s')"
  shows "extends cr s s'" "live s' a so"
proof -
  note F = fresh_object [OF assms(2)]
  obtain s1 where g: "getStateObject s a = (None, s1)"
    using assms(2) by (auto simp: createObject_def Let_def split: prod.splits)
  have ok1: "sdb_ok s1" and e1: "extends cr s s1"
    using extends_get [OF assms(1) g, of cr] by (auto simp: extends_def)
  have s': "s' = setStateObject a so (append_entry (createObjectChange a) s1)"
    using assms(2) F(1) by (simp add: createObject_def g Let_def)
  have "w_acct (view_of cr s1) a = None" "sdb_trie s1 a = None"
    using getStateObject_cases [OF g] assms(1) by (auto simp: sdb_ok_def same_base_def)
  moreover have "quiet None (Some (obj_view cr (sdb_codes s1) so))"
    using F by (simp add: quiet_def balance_in_def suicided_in_def obj_view_def)
  ultimately have "extends cr s1 s'"
    unfolding s' using ok1 F(2)
    by (intro extends_one) (auto simp: same_base_def sdb_ok_def entry_ok_def put_acct_id
        intro!: objects_ok_set objects_ok_append dirties_ok_append)
  with e1 show "extends cr s s'" by (rule extends_trans)
  show "live s' a so" using F by (simp add: live_def)
qed

lemma get_absent: "getStateObject s a = (None, s') \<Longrightarrow> s' = s"
  by (auto simp: getStateObject_def Let_def split: option.splits if_splits)

lemma extends_ok: "extends cr s s' \<Longrightarrow> sdb_ok s'"
  by (simp add: extends_def)

lemma extends_GetOrNew:
  assumes "sdb_ok s" "GetOrNewStateObject cr s a = (so, s')"
  shows "extends cr s s' \<and> live s' a so"
proof (cases "getStateObject s a")
  case (Pair x s1)
  have e1: "extends cr s s1" by (rule extends_get [OF assms(1) Pair])
  show ?thesis
  proof (cases x)
    case None
    then obtain prev where c: "createObject cr s1 a = (so, prev, s')"
      using assms(2) Pair by (auto simp: GetOrNewStateObject_def split: prod.splits)
    have "prev = None"
      using c get_absent [of s a s1] Pair None by (auto simp: createObject_def Let_def split: prod.splits)
    with c have "createObject cr s1 a = (so, None, s')" by simp
    then show ?thesis using extends_create [OF extends_ok [OF e1]] extends_trans [OF e1] by blast
  next
    case (Some so1)
    then have "live s1 a so1" using get_live [OF assms(1)] Pair by simp
    with assms(2) Pair Some e1 show ?thesis by (auto simp: GetOrNewStateObject_def live_def)
  qed
qed

lemma obj_view_setters [simp]:
  "obj_view cr codes (setBalance x so) = (obj_view cr codes so)\<lparr>av_balance := x\<rparr>"
  "obj_view cr codes (setNonce n so) = (obj_view cr codes so)\<lparr>av_nonce := n\<rparr>"
  "obj_view cr codes (setState k v so) = (obj_view cr codes so)\<lparr>av_storage := (storage_of so)(k := v)\<rparr>"
  "obj_view cr codes (so\<lparr>so_suicided := b\<rparr>) = (obj_view cr codes so)\<lparr>av_suicided := b\<rparr>"
  "obj_view cr codes (setCode h c so) = (obj_view cr codes so)\<lparr>av_codeHash := h,
     av_code := (case c of Some c \<Rightarrow> c | None \<Rightarrow> if h = emptyCodeHash cr then []
                   else (case codes h of None \<Rightarrow> [] | Some c \<Rightarrow> c))\<rparr>"
proof -
  have c: "committed_of (setBalance x so) = committed_of so" "committed_of (setNonce n so) = committed_of so"
    "committed_of (setState k v so) = committed_of so" "committed_of (so\<lparr>so_suicided := b\<rparr>) = committed_of so"
    "committed_of (setCode h c so) = committed_of so"
    by (intro ext, simp add: committed_of_def setBalance_def setNonce_def setState_def setCode_def split: option.split)+
  have d: "so_dirtyStorage (setBalance x so) = so_dirtyStorage so" "so_dirtyStorage (setNonce n so) = so_dirtyStorage so"
    "so_dirtyStorage (setState k v so) = mput k v (so_dirtyStorage so)"
    "so_dirtyStorage (setCode h c so) = so_dirtyStorage so"
    by (simp_all add: setBalance_def setNonce_def setState_def setCode_def)
  have "storage_of (setBalance x so) = storage_of so" "storage_of (setNonce n so) = storage_of so"
    "storage_of (setState k v so) = (storage_of so)(k := v)" "storage_of (so\<lparr>so_suicided := b\<rparr>) = storage_of so"
    "storage_of (setCode h c so) = storage_of so"
    by (intro ext, simp add: storage_of_def c d split: option.split)+
  with c show
    "obj_view cr codes (setBalance x so) = (obj_view cr codes so)\<lparr>av_balance := x\<rparr>"
    "obj_view cr codes (setNonce n so) = (obj_view cr codes so)\<lparr>av_nonce := n\<rparr>"
    "obj_view cr codes (setState k v so) = (obj_view cr codes so)\<lparr>av_storage := (storage_of so)(k := v)\<rparr>"
    "obj_view cr codes (so\<lparr>so_suicided := b\<rparr>) = (obj_view cr codes so)\<lparr>av_suicided := b\<rparr>"
    "obj_view cr codes (setCode h c so) = (obj_view cr codes so)\<lparr>av_codeHash := h,
       av_code := (case c of Some c \<Rightarrow> c | None \<Rightarrow> if h = emptyCodeHash cr then []
                     else (case codes h of None \<Rightarrow> [] | Some c \<Rightarrow> c))\<rparr>"
    by (simp_all add: obj_view_def code_of_def setBalance_def setNonce_def setState_def setCode_def split: option.split)
qed

lemma obj_view_fields [simp]:
  "av_balance (obj_view cr codes so) = acc_Balance (so_data so)" "av_nonce (obj_view cr codes so) = acc_Nonce (so_data so)"
  "av_codeHash (obj_view cr codes so) = acc_CodeHash (so_data so)" "av_code (obj_view cr codes so) = code_of cr codes so"
  "av_storage (obj_view cr codes so) = storage_of so" "av_suicided (obj_view cr codes so) = so_suicided so"
  by (simp_all add: obj_view_def)

lemma setters_deleted [simp]:
  "so_deleted (setBalance x so) = so_deleted so" "so_deleted (setNonce n so) = so_deleted so"
  "so_deleted (setState k v so) = so_deleted so" "so_deleted (setCode h c so) = so_deleted so"
  "so_deleted (markSuicided so) = so_deleted so"
  by (simp_all add: setBalance_def setNonce_def setState_def setCode_def markSuicided_def)

lemma acct_view_idem [simp]:
  "av_balance av = x \<Longrightarrow> av\<lparr>av_balance := x\<rparr> = av" "av_nonce av = n \<Longrightarrow> av\<lparr>av_nonce := n\<rparr> = av"
  "av_storage av = f \<Longrightarrow> av\<lparr>av_storage := f\<rparr> = av" "av_suicided av = b \<Longrightarrow> av\<lparr>av_suicided := b\<rparr> = av"
  "av_codeHash av = h \<Longrightarrow> av\<lparr>av_codeHash := h\<rparr> = av" "av_code av = c \<Longrightarrow> av\<lparr>av_code := c\<rparr> = av"
  by (cases av; simp)+

lemma extends_SetBalance:
  assumes "sdb_ok s" "live s a so"
  shows "extends cr s (so_SetBalance a so amount s)"
  unfolding so_SetBalance_def using assms
  by (intro extends_write) (auto simp: entry_ok_def on_acct_def)

lemma extends_SetNonce:
  assumes "sdb_ok s" "live s a so"
  shows "extends cr s (so_SetNonce a so nonce s)"
  unfolding so_SetNonce_def using assms
  by (intro extends_write) (auto simp: entry_ok_def on_acct_def)

lemma extends_SetState:
  assumes "sdb_ok s" "live s a so"
  shows "extends cr s (so_SetState a so key val s)"
proof -
  obtain prev so1 where r: "so_GetState so key = (prev, so1)" by force
  note R = state_read [OF r]
  show ?thesis
  proof (cases "prev = val")
    case True
    then show ?thesis
      unfolding so_SetState_def r using assms R by (auto intro!: extends_reload)
  next
    case False
    have "obj_view cr (sdb_codes s) (setState key val so1)
        = (obj_view cr (sdb_codes s) so)\<lparr>av_storage := (storage_of so)(key := val)\<rparr>"
      using R(2) [of cr "sdb_codes s"] obj_view_fields(5) by (metis obj_view_setters(3))
    with False show ?thesis
      unfolding so_SetState_def r using assms R
      by (auto intro!: extends_write simp: entry_ok_def on_acct_def)
  qed
qed

lemma extends_SetCode:
  assumes "sdb_ok s" "live s a so"
  shows "extends cr s (so_SetCode cr a so h code s)"
proof -
  obtain prev so1 where r: "so_Code cr (sdb_codes s) so = (prev, so1)" by force
  note R = code_read [OF r]
  show ?thesis
    unfolding so_SetCode_def r using assms R(1,3) R(2)
    by (auto intro!: extends_write simp: entry_ok_def on_acct_def R(4))
qed

lemma extends_Suicide:
  assumes "sdb_ok s"
  shows "extends cr s (snd (Suicide a s))"
proof (cases "getStateObject s a")
  case (Pair x s1)
  have e1: "extends cr s s1" by (rule extends_get [OF assms Pair])
  show ?thesis
  proof (cases x)
    case None
    with Pair e1 show ?thesis by (simp add: Suicide_def)
  next
    case (Some so)
    then have "live s1 a so" using get_live [OF assms] Pair by simp
    then have "extends cr s1 (setStateObject a (setBalance 0 (markSuicided so))
        (append_entry (suicideChange a (so_suicided so) (acc_Balance (so_data so))) s1))"
      using extends_ok [OF e1]
      by (intro extends_write) (auto simp: entry_ok_def markSuicided_def on_acct_def)
    with e1 Pair Some show ?thesis by (auto simp: Suicide_def intro: extends_trans)
  qed
qed

lemma extends_CreateAccount:
  assumes "sdb_ok s"
  shows "extends cr s (CreateAccount cr a s)"
proof -
  obtain so prev s1 where c: "createObject cr s a = (so, prev, s1)" by (metis prod_cases3)
  note F = fresh_object [OF c]
  show ?thesis
  proof (cases prev)
    case None
    with c extends_create [OF assms] show ?thesis by (simp add: CreateAccount_def)
  next
    case (Some p)
    obtain s0 where g: "getStateObject s a = (Some p, s0)"
      using c Some by (auto simp: createObject_def Let_def split: prod.splits)
    let ?so = "setBalance (acc_Balance (so_data p)) so"
    have "quiet (Some (obj_view cr codes p)) (Some (obj_view cr codes ?so))" for codes
      using F by (simp add: quiet_def balance_in_def suicided_in_def obj_view_def setBalance_def)
    then have "extends cr s0 (setStateObject a ?so (append_entry (resetObjectChange a p) s0))"
      using extends_ok [OF extends_get [OF assms g]] get_live [OF assms g] F
      by (intro extends_write [where so = p]) (auto simp: entry_ok_def live_def)
    moreover have "CreateAccount cr a s = setStateObject a ?so (append_entry (resetObjectChange a p) s0)"
      using c g Some by (auto simp: CreateAccount_def createObject_def Let_def setStateObject_def)
    ultimately show ?thesis using extends_trans [OF extends_get [OF assms g]] by simp
  qed
qed

lemma extends_journal:
  assumes "sdb_ok s" "sdb_trie s' = sdb_trie s" "sdb_codes s' = sdb_codes s"
    "sdb_stateObjects s' = sdb_stateObjects s" "entries s' = entries s @ [e]" "entry_ok s e" "dirties_ok s'"
    "undo cr (sdb_codes s) e (view_of cr s') = Some (view_of cr s)"
  shows "extends cr s s'"
  using assms by (intro extends_one) (auto simp: same_base_def sdb_ok_def objects_ok_def)

lemma acct_frame:
  "sdb_trie s' = sdb_trie s \<Longrightarrow> sdb_codes s' = sdb_codes s \<Longrightarrow> sdb_stateObjects s' = sdb_stateObjects s \<Longrightarrow>
     acct cr s' = acct cr s"
  by (intro ext) (simp add: acct_def split: option.split)

lemma dirties_ok_frame:
  assumes "dirties_ok s" "dirtied e = None" "sdb_journal s' = sdb_journal (append_entry e s)"
    "sdb_stateObjects s' = sdb_stateObjects s"
  shows "dirties_ok s'"
  using assms unfolding dirties_ok_def dirties_for_def assms(3,4)
  by (auto simp: dirties_append_entry)

lemma extends_AddRefund:
  assumes "sdb_ok s"
  shows "extends cr s (AddRefund gas s)"
proof (rule extends_journal [OF assms, where e = "refundChange (sdb_refund s)"])
  show "dirties_ok (AddRefund gas s)"
    by (rule dirties_ok_frame [where s = s and e = "refundChange (sdb_refund s)"])
      (use assms in \<open>simp_all add: AddRefund_def sdb_ok_def\<close>)
qed (auto simp: AddRefund_def entry_ok_def view_of_def GetLogs_def [abs_def] intro!: acct_frame)

lemma extends_SubRefund:
  assumes "sdb_ok s" "SubRefund gas s = Some s'"
  shows "extends cr s s'"
proof (rule extends_journal [OF assms(1), where e = "refundChange (sdb_refund s)"])
  have s': "s' = (append_entry (refundChange (sdb_refund s)) s)\<lparr>sdb_refund := sdb_refund s - gas\<rparr>"
    using assms(2) by (simp add: SubRefund_def Let_def split: if_splits)
  show "dirties_ok s'"
    by (rule dirties_ok_frame [where s = s and e = "refundChange (sdb_refund s)"])
      (use assms(1) in \<open>simp_all add: s' sdb_ok_def\<close>)
  show "undo cr (sdb_codes s) (refundChange (sdb_refund s)) (view_of cr s') = Some (view_of cr s)"
    by (auto simp: s' view_of_def GetLogs_def [abs_def] intro!: acct_frame)
qed (use assms(2) in \<open>auto simp: SubRefund_def entry_ok_def Let_def split: if_splits\<close>)

lemma extends_AddPreimage:
  assumes "sdb_ok s"
  shows "extends cr s (AddPreimage h pre s)"
proof (cases "mget (sdb_preimages s) h")
  case None
  show ?thesis
  proof (rule extends_journal [OF assms, where e = "addPreimageChange h"])
    show "dirties_ok (AddPreimage h pre s)"
      by (rule dirties_ok_frame [where s = s and e = "addPreimageChange h"])
        (use assms None in \<open>simp_all add: AddPreimage_def sdb_ok_def\<close>)
  qed (use None in \<open>auto simp: AddPreimage_def entry_ok_def view_of_def GetLogs_def [abs_def] fun_upd_idem
      intro!: acct_frame\<close>)
qed (simp add: AddPreimage_def extends_refl assms)

lemma extends_AddLog:
  assumes "sdb_ok s"
  shows "extends cr s (AddLog log s)"
proof (rule extends_journal [OF assms, where e = "addLogChange (sdb_thash s)"])
  define l where "l = log\<lparr>lg_TxHash := sdb_thash s, lg_BlockHash := sdb_bhash s, lg_TxIndex := sdb_txIndex s,
    lg_Index := sdb_logSize s\<rparr>"
  have "GetLogs (AddLog log s) = (GetLogs s)(sdb_thash s := GetLogs s (sdb_thash s) @ [l])"
    by (auto simp: AddLog_def GetLogs_def fun_eq_iff Let_def l_def)
  moreover have "acct cr (AddLog log s) = acct cr s" by (rule acct_frame) (simp_all add: AddLog_def Let_def)
  ultimately show "undo cr (sdb_codes s) (addLogChange (sdb_thash s)) (view_of cr (AddLog log s)) = Some (view_of cr s)"
    by (simp add: view_of_def) (simp add: AddLog_def Let_def)
  show "dirties_ok (AddLog log s)"
    by (rule dirties_ok_frame [where s = s and e = "addLogChange (sdb_thash s)"])
      (use assms in \<open>simp_all add: AddLog_def Let_def sdb_ok_def\<close>)
qed (simp_all add: AddLog_def Let_def entry_ok_def)

lemma touch_simps [simp]:
  "entries (touch a s) = entries s @ [touchChange a]" "sdb_trie (touch a s) = sdb_trie s"
  "sdb_codes (touch a s) = sdb_codes s" "sdb_stateObjects (touch a s) = sdb_stateObjects s"
  "view_of cr (touch a s) = view_of cr s"
proof -
  have "view_of cr (s\<lparr>sdb_journal := j\<rparr>) = view_of cr s" for s :: StateDB and j
    by (simp add: view_of_def GetLogs_def [abs_def]) (rule acct_frame; simp)
  then show "view_of cr (touch a s) = view_of cr s" by (simp add: touch_def Let_def)
qed (simp_all add: touch_def Let_def journal_dirty_def)

lemma dirties_for_mark:
  assumes "dirties_for es s" "live s a so"
  shows "dirties_for es (s\<lparr>sdb_journal := journal_dirty a (sdb_journal s)\<rparr>)"
proof -
  have "int (dirty_count b es) \<le> (case mget (j_dirties (journal_dirty a (sdb_journal s))) b of None \<Rightarrow> 0 | Some n \<Rightarrow> n)" for b
    using assms(1) by (auto simp: dirties_for_def journal_dirty_def intro: order_trans)
  with assms show ?thesis by (auto simp: dirties_for_def live_def journal_dirty_def split: if_splits)
qed

lemma dirties_ok_touch:
  assumes "dirties_ok s" "live s a so"
  shows "dirties_ok (touch a s)"
proof -
  let ?s = "append_entry (touchChange a) s"
  have "dirties_for (entries s @ [touchChange a]) ?s"
    using assms by (intro dirties_for_upd [where s = s and a = a]) (auto simp: dirties_ok_def live_def)
  moreover have "live ?s a so" using assms(2) by (simp add: live_def)
  ultimately show ?thesis using dirties_for_mark by (auto simp: dirties_ok_def touch_def Let_def) (simp add: journal_dirty_def)
qed

lemma extends_touch:
  assumes "sdb_ok s" "live s a so"
  shows "extends cr s (touch a s)"
  using assms dirties_ok_touch [of s a so]
  by (intro extends_journal [where e = "touchChange a"]) (simp_all add: entry_ok_def sdb_ok_def)

lemma extends_AddBalance:
  assumes "sdb_ok s" "live s a so"
  shows "extends cr s (so_AddBalance cr a so amount s)"
  using assms by (simp add: so_AddBalance_def extends_SetBalance extends_refl extends_touch)

lemma extends_SubBalance:
  assumes "sdb_ok s" "live s a so"
  shows "extends cr s (so_SubBalance a so amount s)"
  using assms by (simp add: so_SubBalance_def extends_SetBalance extends_refl)

section \<open>Reverting implements undoing\<close>

definition frame_of :: "StateDB \<Rightarrow> StateDB \<Rightarrow> bool" where
  "frame_of s s' \<longleftrightarrow> same_base s s' \<and> objects_ok s' \<and> (\<forall>es. dirties_for es s \<longrightarrow> dirties_for es s') \<and> sdb_journal s' = sdb_journal s
     \<and> sdb_validRevisions s' = sdb_validRevisions s \<and> sdb_nextRevisionId s' = sdb_nextRevisionId s"

lemma frame_get: "objects_ok s \<Longrightarrow> getStateObject s a = (x, s') \<Longrightarrow> frame_of s s'"
  using getStateObject_cases(2-6) [of s a x s'] dirties_for_get [of _ s a x s'] by (simp add: frame_of_def)

lemma frame_same:
  "objects_ok s \<Longrightarrow> sdb_trie s' = sdb_trie s \<Longrightarrow> sdb_codes s' = sdb_codes s \<Longrightarrow>
     sdb_stateObjects s' = sdb_stateObjects s \<Longrightarrow> sdb_journal s' = sdb_journal s \<Longrightarrow>
     sdb_validRevisions s' = sdb_validRevisions s \<Longrightarrow> sdb_nextRevisionId s' = sdb_nextRevisionId s \<Longrightarrow> frame_of s s'"
  by (simp add: frame_of_def same_base_def objects_ok_def dirties_for_def)

lemma frame_set: "frame_of s s' \<Longrightarrow> \<not> so_deleted so \<Longrightarrow> frame_of s (setStateObject a so s')"
  by (simp add: frame_of_def same_base_def objects_ok_set dirties_for_set)

lemma on_object_view:
  assumes "objects_ok s" "\<And>so. so_deleted (f so) = so_deleted so"
    "\<And>so. obj_view cr (sdb_codes s) (f so) = g (obj_view cr (sdb_codes s) so)"
  shows "map_option (view_of cr) (on_object a f s) = on_acct a g (view_of cr s)"
proof -
  obtain x s1 where g: "getStateObject s a = (x, s1)" by force
  note G = getStateObject_cases [OF g assms(1)]
  show ?thesis
  proof (cases x)
    case None
    with G(7) show ?thesis by (simp add: on_object_def g on_acct_def)
  next
    case (Some so)
    with G(8) [of so cr] G(1) [of cr] G(3) show ?thesis
      by (simp add: on_object_def g on_acct_def assms(2,3) same_base_def)
  qed
qed

lemma view_delete:
  "sdb_trie s a = None \<Longrightarrow>
     view_of cr (s\<lparr>sdb_stateObjects := mdel a (sdb_stateObjects s), sdb_stateObjectsDirty := d\<rparr>)
       = put_acct a None (view_of cr s)"
  by (auto simp: view_of_def put_acct_def acct_def fun_eq_iff GetLogs_def split: option.split)

lemma revert_log_view:
  assumes "GetLogs s h \<noteq> []"
  shows "GetLogs (s\<lparr>sdb_logs := (if length (GetLogs s h) = 1 then mdel h (sdb_logs s)
      else mput h (butlast (GetLogs s h)) (sdb_logs s)), sdb_logSize := n\<rparr>)
    = (GetLogs s)(h := butlast (GetLogs s h))"
proof -
  have "length (GetLogs s h) = 1 \<Longrightarrow> butlast (GetLogs s h) = []" by (cases "GetLogs s h") auto
  then show ?thesis by (auto simp: GetLogs_def fun_eq_iff)
qed

lemma revert_entry_view:
  assumes "objects_ok s" "entry_ok s e" "undo cr (sdb_codes s) e (view_of cr s) \<noteq> None"
  shows "map_option (view_of cr) (revert_entry e s) = undo cr (sdb_codes s) e (view_of cr s)"
proof (cases e)
  case (createObjectChange a)
  with assms(2,3) show ?thesis by (auto simp: view_delete entry_ok_def split: if_splits)
next
  case (resetObjectChange a prev)
  with assms(2,3) show ?thesis by (auto simp: entry_ok_def split: if_splits)
next
  case (suicideChange a prev bal)
  obtain x s1 where g: "getStateObject s a = (x, s1)" by force
  note G = getStateObject_cases [OF g assms(1)]
  show ?thesis
  proof (cases x)
    case None
    with suicideChange G(7) assms(3) show ?thesis by (simp add: g on_acct_def)
  next
    case (Some so)
    with suicideChange G(8) [of so cr] G(1) [of cr] G(3) show ?thesis by (simp add: g same_base_def on_acct_def)
  qed
next
  case (addLogChange h)
  have "acct cr (s\<lparr>sdb_logs := x, sdb_logSize := n\<rparr>) = acct cr s" for x n by (rule acct_frame) simp_all
  with addLogChange show ?thesis
    by (cases "GetLogs s h = []") (simp_all add: Let_def view_of_def revert_log_view del: One_nat_def)
next
  case (addPreimageChange h)
  have "acct cr (s\<lparr>sdb_preimages := x\<rparr>) = acct cr s" "GetLogs (s\<lparr>sdb_preimages := x\<rparr>) = GetLogs s" for x
    by (rule acct_frame) (simp_all add: GetLogs_def [abs_def])
  moreover have "mget (mdel h m) = (mget m)(h := None)" for m :: "(hash, bytes) gomap" by (simp add: fun_eq_iff)
  ultimately show ?thesis using addPreimageChange by (simp add: view_of_def)
next
  case (refundChange prev)
  have "acct cr (s\<lparr>sdb_refund := x\<rparr>) = acct cr s" "GetLogs (s\<lparr>sdb_refund := x\<rparr>) = GetLogs s" for x
    by (rule acct_frame) (simp_all add: GetLogs_def [abs_def])
  with refundChange show ?thesis by (simp add: view_of_def)
next
  case (codeChange a prevcode prevhash)
  show ?thesis unfolding codeChange revert_entry.simps undo.simps
    by (rule on_object_view [OF assms(1)]) simp_all
next
  case (storageChange a key prev)
  show ?thesis unfolding storageChange revert_entry.simps undo.simps
    by (rule on_object_view [OF assms(1)]) simp_all
next
  case (balanceChange a prev)
  show ?thesis unfolding balanceChange revert_entry.simps undo.simps
    by (rule on_object_view [OF assms(1)]) simp_all
next
  case (nonceChange a prev)
  show ?thesis unfolding nonceChange revert_entry.simps undo.simps
    by (rule on_object_view [OF assms(1)]) simp_all
qed (use assms in \<open>simp_all add: entry_ok_def\<close>)

lemma on_object_frame:
  assumes "objects_ok s" "\<And>so. so_deleted (f so) = so_deleted so" "on_object a f s = Some s'"
  shows "frame_of s s'"
proof -
  obtain x s1 where g: "getStateObject s a = (x, s1)" by force
  have "frame_of s s1" by (rule frame_get [OF assms(1) g])
  with assms(2,3) getStateObject_cases(8) [OF g assms(1)] show ?thesis
    by (auto simp: on_object_def g split: option.splits intro!: frame_set)
qed

lemma revert_entry_frame:
  assumes "objects_ok s" "entry_ok s e" "revert_entry e s = Some s'"
  shows "frame_of s s'"
proof (cases e)
  case (suicideChange a prev bal)
  obtain x s1 where g: "getStateObject s a = (x, s1)" by force
  have "frame_of s s1" by (rule frame_get [OF assms(1) g])
  with suicideChange assms(3) g getStateObject_cases(8) [OF g assms(1)] show ?thesis
    by (auto split: option.splits intro!: frame_set)
next
  case (createObjectChange a)
  then have "s' = s\<lparr>sdb_stateObjects := mdel a (sdb_stateObjects s),
      sdb_stateObjectsDirty := removeAll a (sdb_stateObjectsDirty s)\<rparr>" using assms(3) by simp
  with assms(1) show ?thesis
    by (simp add: frame_of_def same_base_def objects_ok_def dirties_for_def)
next
  case (addLogChange h)
  with assms(3) show ?thesis by (intro frame_same [OF assms(1)]) (auto simp: Let_def split: if_splits)
next
  case (resetObjectChange a prev)
  with assms show ?thesis
    by (auto simp: frame_of_def same_base_def entry_ok_def intro!: objects_ok_set dirties_for_set)
next
  case (balanceChange a prev)
  with assms show ?thesis by (intro on_object_frame [of s "setBalance prev"]) simp_all
next
  case (nonceChange a prev)
  with assms show ?thesis by (intro on_object_frame [of s "setNonce prev"]) simp_all
next
  case (storageChange a key prev)
  with assms show ?thesis by (intro on_object_frame [of s "setState key prev"]) simp_all
next
  case (codeChange a code h)
  with assms show ?thesis by (intro on_object_frame [of s "setCode h code"]) simp_all
next
  case (refundChange prev)
  with assms(3) show ?thesis by (intro frame_same [OF assms(1)]) auto
next
  case (addPreimageChange h)
  with assms(3) show ?thesis by (intro frame_same [OF assms(1)]) auto
next
  case (touchChange a)
  with assms(3) show ?thesis by (intro frame_same [OF assms(1)]) auto
qed

lemma undirty_entries [simp]: "j_entries (undirty e j) = j_entries j"
  by (simp add: undirty_def Let_def split: option.split)

lemma dirties_for_undirty:
  assumes "dirties_for (es @ [e]) s"
  shows "dirties_for es (s\<lparr>sdb_journal := undirty e (sdb_journal s)\<rparr>)"
proof (cases "dirtied e")
  case None
  with assms show ?thesis by (simp add: dirties_for_def undirty_def)
next
  case (Some a)
  let ?d = "j_dirties (sdb_journal s)" and ?d' = "j_dirties (undirty e (sdb_journal s))"
  have cnt: "int (dirty_count b es) + (if b = a then 1 else 0) \<le> (case mget ?d b of None \<Rightarrow> 0 | Some n \<Rightarrow> n)" for b
    using assms Some unfolding dirties_for_def by (auto dest: spec [of _ b])
  obtain n where n: "mget ?d a = Some n" using cnt [of a] by (cases "mget ?d a") auto
  have d': "mget ?d' b = (if b = a then (if n = 1 then None else Some (n - 1)) else mget ?d b)" for b
    using Some n by (simp add: undirty_def Let_def)
  have "int (dirty_count b es) \<le> (case mget ?d' b of None \<Rightarrow> 0 | Some n \<Rightarrow> n)" for b
    using cnt [of b] n by (cases "b = a") (auto simp: d')
  moreover have "\<not> so_deleted so" if "mget ?d' b \<noteq> None" "mget (sdb_stateObjects s) b = Some so" for b so
  proof -
    have "mget ?d b \<noteq> None" using that(1) n by (auto simp: d' split: if_splits)
    with assms that(2) show ?thesis unfolding dirties_for_def by blast
  qed
  ultimately show ?thesis unfolding dirties_for_def by simp
qed

lemma view_journal [simp]: "view_of cr (s\<lparr>sdb_journal := j\<rparr>) = view_of cr s"
  by (simp add: view_of_def GetLogs_def [abs_def]) (rule acct_frame; simp)

lemma view_revisions [simp]: "view_of cr (s\<lparr>sdb_validRevisions := r\<rparr>) = view_of cr s"
  by (simp add: view_of_def GetLogs_def [abs_def]) (rule acct_frame; simp)

lemma view_nextRevision [simp]: "view_of cr (s\<lparr>sdb_nextRevisionId := r\<rparr>) = view_of cr s"
  by (simp add: view_of_def GetLogs_def [abs_def]) (rule acct_frame; simp)

lemma objects_ok_journal [simp]:
  "objects_ok (s\<lparr>sdb_journal := j\<rparr>) = objects_ok s" "objects_ok (s\<lparr>sdb_validRevisions := r\<rparr>) = objects_ok s"
  "objects_ok (s\<lparr>sdb_nextRevisionId := n\<rparr>) = objects_ok s"
  by (simp_all add: objects_ok_def)

lemma entry_ok_base: "same_base s s' \<Longrightarrow> entry_ok s' e = entry_ok s e"
  by (auto simp: entry_ok_def same_base_def split: journalEntry.split)

definition loop_frame :: "StateDB \<Rightarrow> StateDB \<Rightarrow> bool" where
  "loop_frame s s' \<longleftrightarrow> same_base s s' \<and> objects_ok s' \<and> entries s' = entries s
     \<and> sdb_validRevisions s' = sdb_validRevisions s \<and> sdb_nextRevisionId s' = sdb_nextRevisionId s"

lemma revert_loop_view:
  assumes "objects_ok s" "\<forall>e \<in> set es. entry_ok s e" "undo_all cr (sdb_codes s) es (view_of cr s) = Some v"
    "dirties_for (base @ rev es) s"
  shows "\<exists>s'. revert_loop es s = Some s' \<and> view_of cr s' = v \<and> loop_frame s s' \<and> dirties_for base s'"
  using assms
proof (induction es arbitrary: s)
  case Nil
  then show ?case by (simp add: loop_frame_def same_base_def)
next
  case (Cons e es)
  have ok: "entry_ok s e" using Cons.prems(2) by simp
  obtain v1 where v1: "undo cr (sdb_codes s) e (view_of cr s) = Some v1" "undo_all cr (sdb_codes s) es v1 = Some v"
    using Cons.prems(3) by (auto simp: bind_eq_Some_conv)
  with revert_entry_view [OF Cons.prems(1) ok, of cr]
  obtain s1 where s1: "revert_entry e s = Some s1" "view_of cr s1 = v1" by auto
  have f: "frame_of s s1" by (rule revert_entry_frame [OF Cons.prems(1) ok s1(1)])
  let ?s2 = "s1\<lparr>sdb_journal := undirty e (sdb_journal s1)\<rparr>"
  have b: "same_base s ?s2" "objects_ok ?s2" using f by (auto simp: frame_of_def same_base_def)
  have "dirties_for ((base @ rev es) @ [e]) s1" using Cons.prems(4) f by (simp add: frame_of_def)
  then have d: "dirties_for (base @ rev es) ?s2" by (rule dirties_for_undirty)
  have "\<exists>s'. revert_loop es ?s2 = Some s' \<and> view_of cr s' = v \<and> loop_frame ?s2 s' \<and> dirties_for base s'"
  proof (rule Cons.IH [OF b(2) _ _ d])
    show "\<forall>e \<in> set es. entry_ok ?s2 e" using Cons.prems(2) by (simp add: entry_ok_base [OF b(1)])
    show "undo_all cr (sdb_codes ?s2) es (view_of cr ?s2) = Some v"
      using v1(2) s1(2) b(1) by (simp add: same_base_def)
  qed
  with s1(1) f show ?case by (auto simp: loop_frame_def frame_of_def same_base_def)
qed

lemma journal_revert_view:
  assumes "sdb_ok s" "undo_all cr (sdb_codes s) (rev (drop n (entries s))) (view_of cr s) = Some v"
  shows "\<exists>s'. journal_revert n s = Some s' \<and> view_of cr s' = v \<and> same_base s s' \<and> sdb_ok s'
    \<and> entries s' = take n (entries s) \<and> sdb_validRevisions s' = sdb_validRevisions s
    \<and> sdb_nextRevisionId s' = sdb_nextRevisionId s"
proof -
  have "\<forall>e \<in> set (rev (drop n (entries s))). entry_ok s e"
    using assms(1) by (auto simp: sdb_ok_def dest: in_set_dropD)
  moreover have "dirties_for (take n (entries s) @ rev (rev (drop n (entries s)))) s"
    using assms(1) by (simp add: sdb_ok_def dirties_ok_def)
  ultimately obtain s' where s': "revert_loop (rev (drop n (entries s))) s = Some s'" "view_of cr s' = v"
      "loop_frame s s'" "dirties_for (take n (entries s)) s'"
    using revert_loop_view [OF _ _ assms(2)] assms(1) unfolding sdb_ok_def by blast
  let ?t = "s'\<lparr>sdb_journal := (sdb_journal s')\<lparr>j_entries := take n (entries s')\<rparr>\<rparr>"
  have b: "same_base s ?t" "entries s' = entries s" "objects_ok s'" using s'(3) by (simp_all add: loop_frame_def same_base_def)
  have "dirties_ok ?t" using s'(4) b(2) by (simp add: dirties_ok_def dirties_for_def)
  moreover have "\<forall>e \<in> set (entries ?t). entry_ok ?t e"
    unfolding entry_ok_base [OF b(1)] using assms(1) b(2) by (auto simp: sdb_ok_def dest: in_set_takeD)
  ultimately have "sdb_ok ?t" using b(3) by (simp add: sdb_ok_def)
  with s' b show ?thesis by (auto simp: journal_revert_def loop_frame_def)
qed

section \<open>Snapshots\<close>

text \<open>The stack of snapshots: identifiers increase and stay below the next one, and so do the journal positions.\<close>

definition revs_ok :: "StateDB \<Rightarrow> bool" where
  "revs_ok s \<longleftrightarrow> sorted_wrt (\<lambda>a b. rev_id a < rev_id b \<and> rev_journalIndex a \<le> rev_journalIndex b) (sdb_validRevisions s)
     \<and> (\<forall>r \<in> set (sdb_validRevisions s). rev_id r < sdb_nextRevisionId s \<and> rev_journalIndex r \<le> length (entries s))"

lemma revs_sorted:
  "revs_ok s \<Longrightarrow> i < j \<Longrightarrow> j < length (sdb_validRevisions s) \<Longrightarrow>
     rev_id (sdb_validRevisions s ! i) < rev_id (sdb_validRevisions s ! j)
     \<and> rev_journalIndex (sdb_validRevisions s ! i) \<le> rev_journalIndex (sdb_validRevisions s ! j)"
  by (auto simp: revs_ok_def sorted_wrt_iff_nth_less)

lemma find_revision:
  assumes "revs_ok s" "i < length (sdb_validRevisions s)"
  shows "sort_search (length (sdb_validRevisions s))
      (\<lambda>k. rev_id (sdb_validRevisions s ! i) \<le> rev_id (sdb_validRevisions s ! k)) = i"
proof (rule sort_search_first)
  show "\<forall>k l. k \<le> l \<longrightarrow> l < length (sdb_validRevisions s) \<longrightarrow>
      rev_id (sdb_validRevisions s ! i) \<le> rev_id (sdb_validRevisions s ! k) \<longrightarrow>
      rev_id (sdb_validRevisions s ! i) \<le> rev_id (sdb_validRevisions s ! l)"
    using revs_sorted [OF assms(1)] by (metis le_eq_less_or_eq less_imp_le order_trans)
  show "\<forall>k<i. \<not> rev_id (sdb_validRevisions s ! i) \<le> rev_id (sdb_validRevisions s ! k)"
    using revs_sorted [OF assms(1) _ assms(2)] by (auto simp: not_le)
qed (use assms in auto)

lemma RevertToSnapshot_at:
  assumes "revs_ok s" "i < length (sdb_validRevisions s)" "rev_id (sdb_validRevisions s ! i) = r"
  shows "RevertToSnapshot r s = map_option (\<lambda>t. t\<lparr>sdb_validRevisions := take i (sdb_validRevisions s)\<rparr>)
      (journal_revert (rev_journalIndex (sdb_validRevisions s ! i)) s)"
  using find_revision [OF assms(1,2)] assms(2,3) by (simp add: RevertToSnapshot_def Let_def)

section \<open>Sequences of operations\<close>

datatype sdb_op =
    OpAddBalance address int | OpSubBalance address int | OpSetBalance address int | OpSetNonce address u64
  | OpSetCode address bytes | OpSetState address hash hash | OpSuicide address | OpCreateAccount address
  | OpAddLog Log | OpAddRefund u64 | OpSubRefund u64 | OpAddPreimage hash bytes
  | OpGetState address hash | OpGetCommittedState address hash | OpGetCode address
  | OpSnapshot | OpRevert nat

fun exec_op :: "crypto \<Rightarrow> StateDB \<Rightarrow> sdb_op \<Rightarrow> StateDB option" where
  "exec_op cr s (OpAddBalance a x) = Some (AddBalance cr a x s)"
| "exec_op cr s (OpSubBalance a x) = Some (SubBalance cr a x s)"
| "exec_op cr s (OpSetBalance a x) = Some (SetBalance cr a x s)"
| "exec_op cr s (OpSetNonce a n) = Some (SetNonce cr a n s)"
| "exec_op cr s (OpSetCode a c) = Some (SetCode cr a c s)"
| "exec_op cr s (OpSetState a k v) = Some (SetState cr a k v s)"
| "exec_op cr s (OpSuicide a) = Some (snd (Suicide a s))"
| "exec_op cr s (OpCreateAccount a) = Some (CreateAccount cr a s)"
| "exec_op cr s (OpAddLog l) = Some (AddLog l s)"
| "exec_op cr s (OpAddRefund g) = Some (AddRefund g s)"
| "exec_op cr s (OpSubRefund g) = SubRefund g s"
| "exec_op cr s (OpAddPreimage h p) = Some (AddPreimage h p s)"
| "exec_op cr s (OpGetState a k) = Some (snd (GetState_upd s a k))"
| "exec_op cr s (OpGetCommittedState a k) = Some (snd (GetCommittedState_upd s a k))"
| "exec_op cr s (OpGetCode a) = Some (snd (GetCode_upd cr s a))"
| "exec_op cr s OpSnapshot = Some (snd (Snapshot s))"
| "exec_op cr s (OpRevert r) = RevertToSnapshot r s"

fun exec_ops :: "crypto \<Rightarrow> StateDB \<Rightarrow> sdb_op list \<Rightarrow> StateDB option" where
  "exec_ops cr s [] = Some s"
| "exec_ops cr s (op # ops) = Option.bind (exec_op cr s op) (\<lambda>s. exec_ops cr s ops)"

lemma extends_via_object:
  assumes "sdb_ok s" and "\<And>s so. sdb_ok s \<Longrightarrow> live s a so \<Longrightarrow> extends cr s (f so s)"
  shows "extends cr s (let (so, s) = GetOrNewStateObject cr s a in f so s)"
proof (cases "GetOrNewStateObject cr s a")
  case (Pair so s1)
  note E = extends_GetOrNew [OF assms(1) Pair]
  then have "extends cr s1 (f so s1)" using assms(2) extends_ok by blast
  with E Pair show ?thesis by (auto intro: extends_trans)
qed

lemma extends_read:
  assumes "sdb_ok s" "\<And>so. so_deleted (snd (f so)) = so_deleted so"
    "\<And>so. obj_view cr (sdb_codes s) (snd (f so)) = obj_view cr (sdb_codes s) so"
  shows "extends cr s (snd (case getStateObject s a of
      (None, s) \<Rightarrow> (x, s) | (Some so, s) \<Rightarrow> let (v, so) = f so in (v, setStateObject a so s)))"
proof (cases "getStateObject s a")
  case (Pair y s1)
  have e: "extends cr s s1" by (rule extends_get [OF assms(1) Pair])
  show ?thesis
  proof (cases y)
    case None
    with e Pair show ?thesis by simp
  next
    case (Some so)
    have "sdb_codes s1 = sdb_codes s" using e by (simp add: extends_def same_base_def)
    with Some Pair have "extends cr s1 (setStateObject a (snd (f so)) s1)"
      using extends_reload [OF extends_ok [OF e] get_live [OF assms(1)]] assms(2,3) by metis
    with e Pair Some show ?thesis by (auto simp: case_prod_beta Let_def intro: extends_trans)
  qed
qed

lemma GetState_extends: "sdb_ok s \<Longrightarrow> extends cr s (snd (GetState_upd s a k))"
  unfolding GetState_upd_def using state_read [OF prod.collapse [symmetric]] by (intro extends_read) auto

lemma GetCommittedState_extends: "sdb_ok s \<Longrightarrow> extends cr s (snd (GetCommittedState_upd s a k))"
  unfolding GetCommittedState_upd_def using committed_read [OF prod.collapse [symmetric]] by (intro extends_read) auto

lemma GetCode_extends:
  assumes "sdb_ok s"
  shows "extends cr s (snd (GetCode_upd cr s a))"
proof (cases "getStateObject s a")
  case (Pair y s1)
  have e: "extends cr s s1" by (rule extends_get [OF assms Pair])
  show ?thesis
  proof (cases y)
    case None
    with e Pair show ?thesis by (simp add: GetCode_upd_def)
  next
    case (Some so)
    obtain c so' where r: "so_Code cr (sdb_codes s1) so = (c, so')" by force
    have "extends cr s1 (setStateObject a so' s1)"
      using extends_reload [OF extends_ok [OF e] get_live [OF assms]] Pair Some code_read(2,3) [OF r] by metis
    with e Pair Some r show ?thesis by (auto simp: GetCode_upd_def intro: extends_trans)
  qed
qed

text \<open>The snapshots a state holds are changed by \<^verbatim>\<open>Snapshot\<close> and \<^verbatim>\<open>RevertToSnapshot\<close> only.\<close>

definition revs :: "StateDB \<Rightarrow> revision list \<times> nat" where
  "revs s = (sdb_validRevisions s, sdb_nextRevisionId s)"

lemma revs_simps [simp]:
  "revs (append_entry e s) = revs s" "revs (setStateObject a so s) = revs s" "revs (touch a s) = revs s"
  by (auto simp: revs_def touch_def Let_def)

lemma revs_get: "getStateObject s a = (x, s') \<Longrightarrow> revs s' = revs s"
  by (auto simp: revs_def getStateObject_def Let_def split: option.splits if_splits)

lemma revs_create: "createObject cr s a = (so, prev, s') \<Longrightarrow> revs s' = revs s"
  by (auto simp: createObject_def Let_def dest: revs_get split: prod.splits option.splits)

lemma revs_GetOrNew [simp]: "revs (snd (GetOrNewStateObject cr s a)) = revs s"
proof (cases "getStateObject s a")
  case (Pair y s1)
  obtain so prev s2 where c: "createObject cr s1 a = (so, prev, s2)" by (metis prod_cases3)
  have "revs s1 = revs s" "revs s2 = revs s1" by (rule revs_get [OF Pair], rule revs_create [OF c])
  with Pair c show ?thesis by (auto simp: GetOrNewStateObject_def split: option.split)
qed

lemma revs_objects [simp]:
  "revs (so_SetBalance a so x s) = revs s" "revs (so_SetNonce a so n s) = revs s"
  "revs (so_SetCode cr a so h c s) = revs s" "revs (so_SetState a so k v s) = revs s"
  "revs (so_AddBalance cr a so x s) = revs s" "revs (so_SubBalance a so x s) = revs s"
  by (simp_all add: so_SetBalance_def so_SetNonce_def so_SetCode_def so_SetState_def so_AddBalance_def
      so_SubBalance_def case_prod_beta Let_def)

lemma revs_ops:
  "revs (AddBalance cr a x s) = revs s" "revs (SubBalance cr a x s) = revs s" "revs (SetBalance cr a x s) = revs s"
  "revs (SetNonce cr a n s) = revs s" "revs (SetCode cr a c s) = revs s" "revs (SetState cr a k v s) = revs s"
  "revs (AddLog l s) = revs s" "revs (AddRefund g s) = revs s" "revs (AddPreimage h p s) = revs s"
  by (simp_all add: AddBalance_def SubBalance_def SetBalance_def SetNonce_def SetCode_def SetState_def
      case_prod_beta Let_def) (simp_all add: AddLog_def AddRefund_def AddPreimage_def revs_def Let_def)

lemma revs_reads:
  "revs (snd (GetState_upd s a k)) = revs s" "revs (snd (GetCommittedState_upd s a k)) = revs s"
  "revs (snd (GetCode_upd cr s a)) = revs s" "revs (snd (Suicide a s)) = revs s" "revs (CreateAccount cr a s) = revs s"
  by (auto simp: GetState_upd_def GetCommittedState_upd_def GetCode_upd_def Suicide_def CreateAccount_def
      Let_def dest: revs_get revs_create split: prod.split option.split)

lemma extends_ops:
  assumes "sdb_ok s"
  shows "extends cr s (AddBalance cr a x s)" "extends cr s (SubBalance cr a x s)"
    "extends cr s (SetBalance cr a x s)" "extends cr s (SetNonce cr a n s)"
    "extends cr s (SetCode cr a c s)" "extends cr s (SetState cr a k v s)"
  unfolding AddBalance_def SubBalance_def SetBalance_def SetNonce_def SetCode_def SetState_def
  by (rule extends_via_object [OF assms], rule extends_AddBalance extends_SubBalance extends_SetBalance
      extends_SetNonce extends_SetCode extends_SetState; assumption)+

lemma exec_op_extends:
  assumes "sdb_ok s" "exec_op cr s op = Some s'" "op \<noteq> OpSnapshot" "\<nexists>r. op = OpRevert r"
  shows "extends cr s s' \<and> revs s' = revs s"
proof (cases op)
  case (OpSubRefund g)
  with assms show ?thesis
    by (auto simp: extends_SubRefund) (auto simp: SubRefund_def revs_def Let_def split: if_splits)
qed (use assms in \<open>auto simp: extends_ops extends_Suicide extends_CreateAccount extends_AddLog extends_AddRefund
      extends_AddPreimage GetState_extends GetCommittedState_extends GetCode_extends revs_reads revs_ops\<close>)

section \<open>Nested snapshots\<close>

text \<open>
  \<open>nested cr s0 s\<close>: \<open>s\<close> is reached from \<open>s0\<close> inside a transaction without reverting to a
  snapshot of \<open>s0\<close>.
\<close>

definition nested :: "crypto \<Rightarrow> StateDB \<Rightarrow> StateDB \<Rightarrow> bool" where
  "nested cr s0 s \<longleftrightarrow> extends cr s0 s \<and> revs_ok s \<and>
     (\<exists>extra. sdb_validRevisions s = sdb_validRevisions s0 @ extra
        \<and> (\<forall>r \<in> set extra. length (entries s0) \<le> rev_journalIndex r))"

lemma extends_entries: "extends cr s s' \<Longrightarrow> length (entries s) \<le> length (entries s')"
  by (auto simp: extends_def)

lemma nested_refl: "sdb_ok s \<Longrightarrow> revs_ok s \<Longrightarrow> nested cr s s"
  by (auto simp: nested_def extends_refl)

lemma nested_plain:
  assumes "nested cr s0 s" "extends cr s s'" "revs s' = revs s"
  shows "nested cr s0 s'"
  using assms extends_trans [of cr s0 s s'] extends_entries [OF assms(2)]
  by (fastforce simp: nested_def revs_ok_def revs_def)

lemma Snapshot_frame:
  assumes "Snapshot s = (rid, s')"
  shows "view_of cr s' = view_of cr s" "entries s' = entries s" "same_base s s'" "sdb_ok s' = sdb_ok s"
    "rid = sdb_nextRevisionId s" "sdb_nextRevisionId s' = Suc rid"
    "sdb_validRevisions s' = sdb_validRevisions s @ [\<lparr>rev_id = rid, rev_journalIndex = length (entries s)\<rparr>]"
proof -
  have s': "s' = s\<lparr>sdb_nextRevisionId := Suc rid, sdb_validRevisions :=
      sdb_validRevisions s @ [\<lparr>rev_id = rid, rev_journalIndex = length (entries s)\<rparr>]\<rparr>"
    and rid: "rid = sdb_nextRevisionId s"
    using assms by (auto simp: Snapshot_def Let_def)
  show b: "same_base s s'" by (simp add: s' same_base_def)
  show "sdb_ok s' = sdb_ok s"
    unfolding sdb_ok_def entry_ok_base [OF b] by (simp add: s' dirties_ok_def dirties_for_def)
  show "view_of cr s' = view_of cr s" "entries s' = entries s" "rid = sdb_nextRevisionId s"
    "sdb_nextRevisionId s' = Suc rid"
    "sdb_validRevisions s' = sdb_validRevisions s @ [\<lparr>rev_id = rid, rev_journalIndex = length (entries s)\<rparr>]"
    by (simp_all add: s' rid)
qed

lemma Snapshot_revs_ok: "revs_ok s \<Longrightarrow> Snapshot s = (rid, s') \<Longrightarrow> revs_ok s'"
  using Snapshot_frame(2,5-7) [of s rid s'] by (auto simp: revs_ok_def sorted_wrt_append less_Suc_eq)

lemma nested_Snapshot:
  assumes "nested cr s0 s" "Snapshot s = (rid, s')"
  shows "nested cr s0 s'"
proof -
  note S = Snapshot_frame [OF assms(2)]
  have "extends cr s0 s'"
    using assms(1) S(1-4) by (auto simp: nested_def extends_def same_base_def)
  moreover have "length (entries s0) \<le> length (entries s)"
    using assms(1) extends_entries by (auto simp: nested_def)
  ultimately show ?thesis
    using assms(1) Snapshot_revs_ok [OF _ assms(2)] S(7) by (auto simp: nested_def)
qed

lemma RevertToSnapshot_found:
  assumes "RevertToSnapshot r s = Some s'"
  obtains i where "i < length (sdb_validRevisions s)" "rev_id (sdb_validRevisions s ! i) = r"
proof -
  define i where "i = sort_search (length (sdb_validRevisions s)) (\<lambda>i. r \<le> rev_id (sdb_validRevisions s ! i))"
  have "i \<noteq> length (sdb_validRevisions s)" "rev_id (sdb_validRevisions s ! i) = r"
    using assms by (auto simp: RevertToSnapshot_def Let_def i_def split: if_splits)
  moreover have "i \<le> length (sdb_validRevisions s)"
    unfolding i_def sort_search_def by (rule search_loop_le) simp
  ultimately show thesis using that [of i] by simp
qed

text \<open>Reverting to a snapshot taken after \<open>s0\<close> stays inside, and the view is the one the journal stands for.\<close>

lemma nested_revert_at:
  assumes "nested cr s0 s" "length (sdb_validRevisions s0) \<le> i" "i < length (sdb_validRevisions s)"
    "rev_id (sdb_validRevisions s ! i) = r"
  obtains s' where "RevertToSnapshot r s = Some s'" "nested cr s0 s'"
proof -
  obtain es extra where es: "entries s = entries s0 @ es"
      "undo_all cr (sdb_codes s0) (rev es) (view_of cr s) = Some (view_of cr s0)"
    and x: "sdb_validRevisions s = sdb_validRevisions s0 @ extra" "\<forall>r \<in> set extra. length (entries s0) \<le> rev_journalIndex r"
    and b: "same_base s0 s" "sdb_ok s" "revs_ok s"
    using assms(1) unfolding nested_def extends_def by blast
  define n where "n = rev_journalIndex (sdb_validRevisions s ! i)"
  have "sdb_validRevisions s ! i \<in> set extra" using assms(2,3) x(1) by (simp add: nth_append)
  then have n: "length (entries s0) \<le> n" using x(2) by (simp add: n_def)
  define m where "m = n - length (entries s0)"
  have drop: "drop n (entries s) = drop m es" and take: "take n (entries s) = entries s0 @ take m es"
    using n by (simp_all add: es(1) m_def)
  have "undo_all cr (sdb_codes s0) (rev (drop m es) @ rev (take m es)) (view_of cr s) = Some (view_of cr s0)"
    using es(2) by (metis append_take_drop_id rev_append)
  then obtain v where v: "undo_all cr (sdb_codes s0) (rev (drop m es)) (view_of cr s) = Some v"
      "undo_all cr (sdb_codes s0) (rev (take m es)) v = Some (view_of cr s0)"
    by (auto simp: undo_all_append bind_eq_Some_conv)
  have "undo_all cr (sdb_codes s) (rev (drop n (entries s))) (view_of cr s) = Some v"
    using v(1) b(1) by (simp add: drop same_base_def)
  from journal_revert_view [OF b(2) this] obtain t where t: "journal_revert n s = Some t" "view_of cr t = v"
      "same_base s t" "sdb_ok t" "entries t = take n (entries s)" "sdb_nextRevisionId t = sdb_nextRevisionId s"
    by blast
  let ?t = "t\<lparr>sdb_validRevisions := take i (sdb_validRevisions s)\<rparr>"
  have r: "RevertToSnapshot r s = Some ?t"
    using RevertToSnapshot_at [OF b(3) assms(3,4)] t(1) by (simp add: n_def)
  have tb: "same_base t ?t" by (simp add: same_base_def)
  have "sdb_ok ?t"
    using t(4) unfolding sdb_ok_def entry_ok_base [OF tb] by (simp add: dirties_ok_def dirties_for_def)
  then have "extends cr s0 ?t"
    using t(2,3,5) b(1) v(2) take by (auto simp: extends_def same_base_def)
  moreover have "revs_ok ?t"
    unfolding revs_ok_def
  proof (intro conjI ballI)
    show "sorted_wrt (\<lambda>a b. rev_id a < rev_id b \<and> rev_journalIndex a \<le> rev_journalIndex b) (sdb_validRevisions ?t)"
      using b(3) by (simp add: revs_ok_def sorted_wrt_take)
    fix q assume q: "q \<in> set (sdb_validRevisions ?t)"
    then obtain k where k: "k < i" "k < length (sdb_validRevisions s)" "q = sdb_validRevisions s ! k"
      by (auto simp: in_set_conv_nth)
    show "rev_id q < sdb_nextRevisionId ?t"
      using b(3) k(2,3) t(6) by (auto simp: revs_ok_def)
    have "rev_journalIndex q \<le> n" using revs_sorted [OF b(3) k(1) assms(3)] k(3) by (simp add: n_def)
    moreover have "n \<le> length (entries s)" using b(3) assms(3) by (auto simp: revs_ok_def n_def)
    ultimately show "rev_journalIndex q \<le> length (entries ?t)" using t(5) by simp
  qed
  moreover have "sdb_validRevisions ?t = sdb_validRevisions s0 @ take (i - length (sdb_validRevisions s0)) extra"
    using assms(2) by (simp add: x(1))
  moreover have "\<forall>r \<in> set (take (i - length (sdb_validRevisions s0)) extra). length (entries s0) \<le> rev_journalIndex r"
    using x(2) by (auto dest: in_set_takeD)
  ultimately have "nested cr s0 ?t" unfolding nested_def by blast
  with r show thesis by (rule that)
qed

lemma nested_step:
  assumes "nested cr s0 s" "exec_op cr s op = Some s'"
    "\<And>r. op = OpRevert r \<Longrightarrow> r \<notin> rev_id ` set (sdb_validRevisions s0)"
  shows "nested cr s0 s'"
proof -
  have ok: "sdb_ok s" using assms(1) by (auto simp: nested_def extends_def)
  consider (snap) "op = OpSnapshot" | (rev) r where "op = OpRevert r" | (plain) "op \<noteq> OpSnapshot" "\<nexists>r. op = OpRevert r"
    by blast
  then show ?thesis
  proof cases
    case snap
    with assms(1,2) nested_Snapshot [of cr s0 s "fst (Snapshot s)" s'] show ?thesis by auto
  next
    case (rev r)
    then have R: "RevertToSnapshot r s = Some s'" using assms(2) by simp
    obtain i where i: "i < length (sdb_validRevisions s)" "rev_id (sdb_validRevisions s ! i) = r"
      using RevertToSnapshot_found [OF R] .
    obtain extra where x: "sdb_validRevisions s = sdb_validRevisions s0 @ extra"
      using assms(1) unfolding nested_def by blast
    have "length (sdb_validRevisions s0) \<le> i"
    proof (rule ccontr)
      assume "\<not> ?thesis"
      then have "sdb_validRevisions s ! i \<in> set (sdb_validRevisions s0)" using x by (simp add: nth_append)
      with i(2) assms(3) [OF rev] show False by blast
    qed
    from nested_revert_at [OF assms(1) this i] R show ?thesis by (metis option.inject)
  next
    case plain
    with exec_op_extends [OF ok assms(2)] assms(1) show ?thesis by (blast intro: nested_plain)
  qed
qed

lemma nested_run:
  assumes "nested cr s0 s" "exec_ops cr s ops = Some s'"
    "\<forall>r. OpRevert r \<in> set ops \<longrightarrow> r \<notin> rev_id ` set (sdb_validRevisions s0)"
  shows "nested cr s0 s'"
  using assms
proof (induction ops arbitrary: s)
  case (Cons op ops)
  then obtain s1 where s1: "exec_op cr s op = Some s1" "exec_ops cr s1 ops = Some s'"
    by (auto simp: bind_eq_Some_conv)
  have "nested cr s0 s1"
    by (rule nested_step [OF Cons.prems(1) s1(1)]) (use Cons.prems(3) in simp)
  then show ?case by (rule Cons.IH [OF _ s1(2)]) (use Cons.prems(3) in simp)
qed simp

section \<open>Finalising keeps states well-formed\<close>

definition deletable :: "crypto \<Rightarrow> bool \<Rightarrow> stateObject \<Rightarrow> bool" where
  "deletable cr d so \<longleftrightarrow> so_suicided so \<or> d \<and> so_empty cr so"

lemma finalise_object_objects:
  "mget (sdb_stateObjects (finalise_object cr d a s)) b =
     (if b = a then map_option (\<lambda>so. if deletable cr d so then so\<lparr>so_deleted := True\<rparr> else updateRoot so)
        (mget (sdb_stateObjects s) a)
      else mget (sdb_stateObjects s) b)"
  by (cases "mget (sdb_stateObjects s) a")
    (simp_all add: finalise_object_def add_dirty_def deleteStateObject_def updateStateObject_def deletable_def Let_def)

lemma fold_updateTrie:
  "so_deleted (snd (fold updateTrie_step kvs (tr, so))) = so_deleted so
   \<and> so_suicided (snd (fold updateTrie_step kvs (tr, so))) = so_suicided so
   \<and> so_data (snd (fold updateTrie_step kvs (tr, so))) = so_data so
   \<and> so_code (snd (fold updateTrie_step kvs (tr, so))) = so_code so"
  by (induction kvs arbitrary: tr so) (auto simp: updateTrie_step_def Let_def split: prod.splits if_splits)

lemma updateRoot_fields:
  "so_deleted (updateRoot so) = so_deleted so" "so_suicided (updateRoot so) = so_suicided so"
  "acc_Nonce (so_data (updateRoot so)) = acc_Nonce (so_data so)"
  "acc_Balance (so_data (updateRoot so)) = acc_Balance (so_data so)"
  "acc_CodeHash (so_data (updateRoot so)) = acc_CodeHash (so_data so)"
  "so_code (updateRoot so) = so_code so"
  using fold_updateTrie [of "so_dirtyStorage so" "fst (getTrie so)" "snd (getTrie so)"]
  by (simp_all add: updateRoot_def updateTrie_def case_prod_beta Let_def getTrie_eq(2))

lemma finalise_object_trie:
  "sdb_trie (finalise_object cr d a s) b =
     (if b = a then (case mget (sdb_stateObjects s) a of
         None \<Rightarrow> sdb_trie s a
       | Some so \<Rightarrow> if deletable cr d so then None else Some (so_data (updateRoot so)))
      else sdb_trie s b)"
  by (cases "mget (sdb_stateObjects s) a")
    (simp_all add: finalise_object_def add_dirty_def deleteStateObject_def updateStateObject_def deletable_def Let_def)

lemma fold_finalise_ok:
  assumes "objects_ok s"
    "\<forall>a \<in> set as. \<forall>so. mget (sdb_stateObjects s) a = Some so \<longrightarrow> so_deleted so \<longrightarrow> deletable cr d so"
  shows "objects_ok (fold (finalise_object cr d) as s)"
  using assms
proof (induction as arbitrary: s)
  case (Cons a as)
  let ?s = "finalise_object cr d a s"
  have "objects_ok ?s"
    unfolding objects_ok_def
  proof (intro allI impI)
    fix b so assume o: "mget (sdb_stateObjects ?s) b = Some so" "so_deleted so"
    show "sdb_trie ?s b = None"
    proof (cases "b = a")
      case True
      with o obtain z where z: "mget (sdb_stateObjects s) a = Some z"
        "so = (if deletable cr d z then z\<lparr>so_deleted := True\<rparr> else updateRoot z)"
        by (auto simp: finalise_object_objects)
      show ?thesis
      proof (cases "deletable cr d z")
        case d: True
        with True z show ?thesis by (simp add: finalise_object_trie)
      next
        case False
        with z(2) o(2) have "so_deleted z" by (simp add: updateRoot_fields)
        with Cons.prems(2) z(1) False show ?thesis by simp
      qed
    next
      case False
      with o Cons.prems(1) show ?thesis by (simp add: finalise_object_objects finalise_object_trie objects_ok_def)
    qed
  qed
  moreover have "\<forall>b \<in> set as. \<forall>so. mget (sdb_stateObjects ?s) b = Some so \<longrightarrow> so_deleted so \<longrightarrow> deletable cr d so"
  proof (intro ballI allI impI)
    fix b so assume b: "b \<in> set as" and o: "mget (sdb_stateObjects ?s) b = Some so" "so_deleted so"
    show "deletable cr d so"
    proof (cases "b = a")
      case True
      with o obtain z where z: "mget (sdb_stateObjects s) a = Some z"
        "so = (if deletable cr d z then z\<lparr>so_deleted := True\<rparr> else updateRoot z)"
        by (auto simp: finalise_object_objects)
      show ?thesis
      proof (cases "deletable cr d z")
        case d: True
        with z(2) show ?thesis by (simp add: deletable_def so_empty_def)
      next
        case False
        with z(2) o(2) have "so_deleted z" by (simp add: updateRoot_fields)
        with Cons.prems(2) z(1) False show ?thesis by simp
      qed
    next
      case False
      with b o Cons.prems(2) show ?thesis by (simp add: finalise_object_objects)
    qed
  qed
  ultimately show ?case using Cons.IH by simp
qed simp

lemma Finalise_ok: "sdb_ok s \<Longrightarrow> sdb_ok (Finalise cr d s) \<and> revs_ok (Finalise cr d s)
    \<and> entries (Finalise cr d s) = [] \<and> sdb_validRevisions (Finalise cr d s) = []"
proof -
  assume ok: "sdb_ok s"
  let ?t = "fold (finalise_object cr d) (map fst (j_dirties (sdb_journal s))) s"
  have "objects_ok ?t"
  proof (rule fold_finalise_ok)
    show "objects_ok s" using ok by (simp add: sdb_ok_def)
    have "\<not> so_deleted so"
      if "a \<in> set (map fst (j_dirties (sdb_journal s)))" "mget (sdb_stateObjects s) a = Some so" for a so
    proof -
      have "mget (j_dirties (sdb_journal s)) a \<noteq> None" using that(1) by (auto simp: map_of_eq_None_iff)
      with ok that(2) show ?thesis unfolding sdb_ok_def dirties_ok_def dirties_for_def by blast
    qed
    then show "\<forall>a \<in> set (map fst (j_dirties (sdb_journal s))). \<forall>so. mget (sdb_stateObjects s) a = Some so \<longrightarrow>
        so_deleted so \<longrightarrow> deletable cr d so" by blast
  qed
  then show ?thesis
    by (auto simp: Finalise_def clearJournalAndRefund_def sdb_ok_def objects_ok_def dirties_ok_def dirties_for_def
        newJournal_def revs_ok_def)
qed

section \<open>Reachable states\<close>

inductive state_reach :: "crypto \<Rightarrow> StateDB \<Rightarrow> bool" for cr :: crypto where
  reach_new: "state_reach cr (NewStateDB codes tr)"
| reach_op: "state_reach cr s \<Longrightarrow> exec_op cr s op = Some s' \<Longrightarrow> state_reach cr s'"
| reach_finalise: "state_reach cr s \<Longrightarrow> state_reach cr (Finalise cr d s)"
| reach_prepare: "state_reach cr s \<Longrightarrow> state_reach cr (Prepare th bh ti s)"

definition journaled :: "crypto \<Rightarrow> StateDB \<Rightarrow> bool" where
  "journaled cr s \<longleftrightarrow> (\<exists>s0. nested cr s0 s \<and> entries s0 = [] \<and> sdb_validRevisions s0 = [])"

lemma journaled_start: "sdb_ok s \<Longrightarrow> revs_ok s \<Longrightarrow> entries s = [] \<Longrightarrow> sdb_validRevisions s = [] \<Longrightarrow> journaled cr s"
  using nested_refl by (auto simp: journaled_def)

lemma Prepare_extends: "sdb_ok s \<Longrightarrow> extends cr s (Prepare th bh ti s) \<and> revs (Prepare th bh ti s) = revs s"
proof
  assume "sdb_ok s"
  moreover have "acct cr (Prepare th bh ti s) = acct cr s" by (rule acct_frame) (simp_all add: Prepare_def)
  ultimately show "extends cr s (Prepare th bh ti s)"
    by (intro extends_none) (auto simp: Prepare_def same_base_def sdb_ok_def objects_ok_def dirties_ok_def
        dirties_for_def view_of_def GetLogs_def [abs_def])
qed (simp add: Prepare_def revs_def)

lemma reach_journaled: "state_reach cr s \<Longrightarrow> journaled cr s"
proof (induction rule: state_reach.induct)
  case (reach_new codes tr)
  show ?case
    by (rule journaled_start) (auto simp: NewStateDB_def sdb_ok_def objects_ok_def dirties_ok_def dirties_for_def
        newJournal_def revs_ok_def)
next
  case (reach_op s op s')
  then obtain s0 where n: "nested cr s0 s" and e: "entries s0 = []" "sdb_validRevisions s0 = []"
    by (auto simp: journaled_def)
  have "nested cr s0 s'" by (rule nested_step [OF n reach_op.hyps(2)]) (simp add: e)
  with e show ?case by (auto simp: journaled_def)
next
  case (reach_finalise s d)
  then have "sdb_ok s" by (auto simp: journaled_def nested_def extends_def)
  then show ?case using Finalise_ok by (intro journaled_start) blast+
next
  case (reach_prepare s th bh ti)
  then obtain s0 where n: "nested cr s0 s" and e: "entries s0 = []" "sdb_validRevisions s0 = []"
    by (auto simp: journaled_def)
  have "sdb_ok s" using n by (simp add: nested_def extends_def)
  then have "nested cr s0 (Prepare th bh ti s)" using nested_plain [OF n] Prepare_extends by blast
  with e show ?case by (auto simp: journaled_def)
qed

lemma reach_ok:
  assumes "state_reach cr s"
  shows "sdb_ok s" "revs_ok s"
  using reach_journaled [OF assms] by (auto simp: journaled_def nested_def extends_def)

text \<open>
  C6. Snapshots are exact.  In any state reached from a fresh one by any operations, transactions
  and earlier snapshots: take a snapshot, run any operations (further snapshots and reverts to
  those included), and revert to it; the revert succeeds, and every account's existence,
  nonce, balance, code, storage and suicide mark, the refund counter, the logs and the
  preimages are what they were.
\<close>

theorem snapshot_exact:
  assumes "state_reach cr s" and "Snapshot s = (rid, s1)"
    and "exec_ops cr s1 ops = Some s2" and "\<forall>r. OpRevert r \<in> set ops \<longrightarrow> rid < r"
  shows "\<exists>s3. RevertToSnapshot rid s2 = Some s3 \<and> view_of cr s3 = view_of cr s"
proof -
  note S = Snapshot_frame [OF assms(2)]
  have ok: "sdb_ok s1" "revs_ok s1"
    using reach_ok [OF assms(1)] S(4) Snapshot_revs_ok [OF _ assms(2)] by auto
  have "r \<notin> rev_id ` set (sdb_validRevisions s1)" if "rid < r" for r
    using ok(2) that S(6) by (auto simp: revs_ok_def)
  then have n: "nested cr s1 s2"
    using nested_run [OF nested_refl [OF ok] assms(3)] assms(4) by blast
  then obtain es extra where es: "entries s2 = entries s1 @ es"
      "undo_all cr (sdb_codes s1) (rev es) (view_of cr s2) = Some (view_of cr s1)"
    and x: "sdb_validRevisions s2 = sdb_validRevisions s1 @ extra"
    and b: "same_base s1 s2" "sdb_ok s2" "revs_ok s2"
    unfolding nested_def extends_def by blast
  let ?i = "length (sdb_validRevisions s)"
  have i: "?i < length (sdb_validRevisions s2)"
    "sdb_validRevisions s2 ! ?i = \<lparr>rev_id = rid, rev_journalIndex = length (entries s)\<rparr>"
    by (simp_all add: x S(7))
  have "undo_all cr (sdb_codes s2) (rev (drop (length (entries s)) (entries s2))) (view_of cr s2) = Some (view_of cr s)"
    using es b(1) S(1,2) by (simp add: same_base_def)
  from journal_revert_view [OF b(2) this] RevertToSnapshot_at [OF b(3) i(1), of rid] i(2)
  show ?thesis by auto
qed

theorem snapshot_exact_witness:
  "\<exists>s1 s2 s3. Snapshot (NewStateDB (\<lambda>_. None) (\<lambda>_. None)) = (0, s1)
     \<and> exec_ops demo_crypto s1 [OpSetBalance 1 5, OpSnapshot, OpSetState 1 2 3, OpRevert 1, OpSuicide 1] = Some s2
     \<and> RevertToSnapshot 0 s2 = Some s3
     \<and> view_of demo_crypto s3 = view_of demo_crypto (NewStateDB (\<lambda>_. None) (\<lambda>_. None))"
proof -
  let ?s = "NewStateDB (\<lambda>_. None) (\<lambda>_. None)"
  let ?ops = "[OpSetBalance 1 5, OpSnapshot, OpSetState 1 2 3, OpRevert 1, OpSuicide 1]"
  obtain s1 where s1: "Snapshot ?s = (0, s1)" by (simp add: Snapshot_def NewStateDB_def)
  have "\<not> Option.is_none (exec_ops demo_crypto (snd (Snapshot ?s)) ?ops)" by code_simp
  then obtain s2 where s2: "exec_ops demo_crypto s1 ?ops = Some s2" using s1 by (auto simp: Option.is_none_def)
  show ?thesis
    using snapshot_exact [OF reach_new s1 s2] s1 s2 by auto
qed

end
