(* ===== verification/Balance_Tracking.thy ===== *)
theory Balance_Tracking
  imports State_Journal
begin

text \<open>
  Which accounts the finalisation of a transaction reports as changed.  The miner tracker is told the
  addresses of the balance and suicide entries left in the journal; shown here: every
  account whose balance differs from the one before the transaction is among them, whatever was
  reverted in between, and objects that were destroyed are reported too.
\<close>

section \<open>Entries that change a balance\<close>

fun changes :: "journalEntry \<Rightarrow> address option" where
  "changes (balanceChange a prev) = Some a"
| "changes (suicideChange a prev bal) = Some a"
| "changes _ = None"

lemma changes_dirtied: "changes e = Some a \<Longrightarrow> dirtied e = Some a"
  by (cases e) auto

lemma quiet_refl [simp]: "quiet x x"
  by (simp add: quiet_def)

lemma quiet_trans: "quiet x y \<Longrightarrow> quiet y z \<Longrightarrow> quiet x z"
  by (simp add: quiet_def)

lemma on_acct_quiet:
  assumes "on_acct b f v = Some v'" "\<And>av. av_balance (f av) = av_balance av \<and> av_suicided (f av) = av_suicided av"
  shows "quiet (w_acct v' a) (w_acct v a)"
proof -
  obtain av where av: "w_acct v b = Some av" "v' = put_acct b (Some (f av)) v"
    using assms(1) by (auto simp: on_acct_def)
  show ?thesis
  proof (cases "a = b")
    case True
    with av assms(2) [of av] show ?thesis by (simp add: quiet_def balance_in_def suicided_in_def)
  qed (simp add: av)
qed

lemma undo_quiet: "undo cr codes e v = Some v' \<Longrightarrow> changes e \<noteq> Some a \<Longrightarrow> quiet (w_acct v' a) (w_acct v a)"
proof (cases e)
  case (createObjectChange b)
  then show "undo cr codes e v = Some v' \<Longrightarrow> ?thesis" by (auto split: if_splits)
next
  case (resetObjectChange b prev)
  then show "undo cr codes e v = Some v' \<Longrightarrow> ?thesis" by (auto split: if_splits)
next
  case (nonceChange b prev)
  then show "undo cr codes e v = Some v' \<Longrightarrow> ?thesis" by (auto intro: on_acct_quiet)
next
  case (storageChange b key prev)
  then show "undo cr codes e v = Some v' \<Longrightarrow> ?thesis" by (auto intro: on_acct_quiet)
next
  case (codeChange b prevcode prevhash)
  then show "undo cr codes e v = Some v' \<Longrightarrow> ?thesis" by (auto intro: on_acct_quiet)
qed (auto simp: on_acct_def split: if_splits)

lemma undo_all_quiet:
  "undo_all cr codes es v = Some v' \<Longrightarrow> \<forall>e \<in> set es. changes e \<noteq> Some a \<Longrightarrow> quiet (w_acct v' a) (w_acct v a)"
proof (induction es arbitrary: v)
  case (Cons e es)
  then obtain v1 where "undo cr codes e v = Some v1" "undo_all cr codes es v1 = Some v'"
    by (auto simp: bind_eq_Some_conv)
  with Cons undo_quiet [of cr codes e v v1 a] show ?case by (auto intro: quiet_trans)
qed simp

lemma undo_absent: "undo cr codes e v = Some v' \<Longrightarrow> w_acct v a = None \<Longrightarrow> w_acct v' a = None \<and> changes e \<noteq> Some a"
  by (cases e) (auto simp: on_acct_def split: if_splits)

lemma undo_all_absent:
  "undo_all cr codes es v = Some v' \<Longrightarrow> w_acct v a = None \<Longrightarrow> \<forall>e \<in> set es. changes e \<noteq> Some a"
proof (induction es arbitrary: v)
  case (Cons e es)
  then obtain v1 where "undo cr codes e v = Some v1" "undo_all cr codes es v1 = Some v'"
    by (auto simp: bind_eq_Some_conv)
  with Cons undo_absent [of cr codes e v v1 a] show ?case by auto
qed simp

section \<open>Changed accounts have live objects\<close>

abbreviation has_object :: "StateDB \<Rightarrow> address \<Rightarrow> bool" where
  "has_object s a \<equiv> mget (sdb_stateObjects s) a \<noteq> None"

definition present :: "StateDB \<Rightarrow> bool" where
  "present s \<longleftrightarrow> (\<forall>e \<in> set (entries s). \<forall>a. changes e = Some a \<longrightarrow> has_object s a)"

text \<open>\<open>grows s s'\<close>: objects are kept, and the entries added are about present objects.\<close>

definition grows :: "StateDB \<Rightarrow> StateDB \<Rightarrow> bool" where
  "grows s s' \<longleftrightarrow> (\<forall>a. has_object s a \<longrightarrow> has_object s' a) \<and>
     (\<forall>e \<in> set (entries s'). e \<in> set (entries s) \<or> (\<forall>a. changes e = Some a \<longrightarrow> has_object s' a))"

lemma grows_refl [simp]: "grows s s"
  by (simp add: grows_def)

lemma grows_trans: "grows s t \<Longrightarrow> grows t u \<Longrightarrow> grows s u"
  unfolding grows_def by meson

lemma grows_present: "grows s s' \<Longrightarrow> present s \<Longrightarrow> present s'"
  unfolding grows_def present_def by meson

lemma grows_set [simp]: "grows s (setStateObject a so s)"
  by (simp add: grows_def)

lemma grows_write: "changes e \<in> {None, Some a} \<Longrightarrow> grows s (setStateObject a so (append_entry e s))"
  by (auto simp: grows_def)

lemma grows_frame:
  "sdb_stateObjects s' = sdb_stateObjects s \<Longrightarrow> entries s' = entries s @ es \<Longrightarrow> \<forall>e \<in> set es. changes e = None \<Longrightarrow> grows s s'"
  by (auto simp: grows_def)

lemma grows_get: "getStateObject s a = (x, s') \<Longrightarrow> grows s s'"
  by (auto simp: getStateObject_def Let_def split: option.splits if_splits)

lemma grows_create:
  assumes "createObject cr s a = (so, prev, s')"
  shows "grows s s'"
proof (cases "getStateObject s a")
  case (Pair y s1)
  have "grows s s1" by (rule grows_get [OF Pair])
  moreover have "\<exists>e. changes e = None \<and> s' = setStateObject a so (append_entry e s1)"
    using assms Pair by (cases y) (auto simp: createObject_def Let_def intro: exI [of _ "createObjectChange a"]
        exI [of _ "resetObjectChange a z" for z])
  ultimately show ?thesis using grows_write grows_trans by blast
qed

lemma grows_GetOrNew:
  assumes "GetOrNewStateObject cr s a = (so, s')"
  shows "grows s s'"
proof (cases "getStateObject s a")
  case (Pair y s1)
  have g: "grows s s1" by (rule grows_get [OF Pair])
  obtain so1 prev s2 where c: "createObject cr s1 a = (so1, prev, s2)" by (metis prod_cases3)
  have "s' = s1 \<or> s' = s2"
    using assms Pair c by (cases y) (auto simp: GetOrNewStateObject_def Let_def split: if_splits)
  with g grows_trans [OF g grows_create [OF c]] show ?thesis by blast
qed

lemma grows_objects:
  "grows s (so_SetBalance a so x s)" "grows s (so_SetNonce a so n s)" "grows s (so_SetCode cr a so h c s)"
  "grows s (so_SetState a so k v s)" "grows s (so_AddBalance cr a so x s)" "grows s (so_SubBalance a so x s)"
  by (auto simp: so_SetBalance_def so_SetNonce_def so_SetCode_def so_SetState_def so_AddBalance_def
      so_SubBalance_def Let_def split: prod.splits intro!: grows_write)
    (rule grows_frame [where es = "[touchChange a]"]; simp)

lemma grows_via_object:
  assumes "\<And>so s. grows s (f so s)"
  shows "grows s (let (so, s) = GetOrNewStateObject cr s a in f so s)"
  using assms by (auto split: prod.splits intro: grows_trans [OF grows_GetOrNew])

lemma grows_ops:
  "grows s (AddBalance cr a x s)" "grows s (SubBalance cr a x s)" "grows s (SetBalance cr a x s)"
  "grows s (SetNonce cr a n s)" "grows s (SetCode cr a c s)" "grows s (SetState cr a k v s)"
  unfolding AddBalance_def SubBalance_def SetBalance_def SetNonce_def SetCode_def SetState_def
  by (rule grows_via_object, rule grows_objects)+

lemma grows_others:
  "grows s (AddLog l s)" "grows s (AddRefund g s)" "grows s (AddPreimage h p s)" "grows s (Prepare th bh ti s)"
  "SubRefund g s = Some s' \<Longrightarrow> grows s s'"
  by (auto simp: AddLog_def AddRefund_def AddPreimage_def Prepare_def SubRefund_def Let_def split: if_splits
      intro!: grows_frame)

lemma grows_after_get:
  assumes "\<And>so s. grows s (snd (f so s))"
  shows "grows s (snd (case getStateObject s a of (None, s) \<Rightarrow> (x, s) | (Some so, s) \<Rightarrow> f so s))"
proof (cases "getStateObject s a")
  case (Pair y s1)
  have "grows s s1" by (rule grows_get [OF Pair])
  with Pair assms show ?thesis by (cases y) (auto intro: grows_trans)
qed

lemma grows_reads:
  "grows s (snd (GetState_upd s a k))" "grows s (snd (GetCommittedState_upd s a k))" "grows s (snd (GetCode_upd cr s a))"
  "grows s (snd (Suicide a s))"
  unfolding GetState_upd_def GetCommittedState_upd_def GetCode_upd_def Suicide_def
  by (rule grows_after_get, simp add: Let_def grows_write split: prod.split)+

lemma grows_CreateAccount: "grows s (CreateAccount cr a s)"
proof -
  obtain so prev s1 where c: "createObject cr s a = (so, prev, s1)" by (metis prod_cases3)
  show ?thesis using grows_create [OF c] grows_trans [OF grows_create [OF c] grows_set]
    by (auto simp: CreateAccount_def c split: option.split)
qed

lemma exec_op_grows:
  assumes "exec_op cr s op = Some s'" "\<nexists>r. op = OpRevert r"
  shows "grows s s'"
proof (cases op)
  case OpSnapshot
  with assms show ?thesis by (auto simp: Snapshot_def Let_def intro!: grows_frame)
qed (use assms in \<open>auto simp: grows_ops grows_others grows_reads grows_CreateAccount\<close>)

lemma created_after:
  assumes "undo_all cr codes (rev (es @ createObjectChange a # es')) v = Some v'" "e \<in> set es"
  shows "changes e \<noteq> Some a"
proof -
  obtain v1 v2 where "undo cr codes (createObjectChange a) v1 = Some v2" "undo_all cr codes (rev es) v2 = Some v'"
    using assms(1) by (auto simp: undo_all_append bind_eq_Some_conv)
  moreover from this(1) have "w_acct v2 a = None" by (auto split: if_splits)
  ultimately show ?thesis using undo_all_absent assms(2) by (metis set_rev)
qed

lemma on_object_keeps: "on_object b f s = Some s' \<Longrightarrow> has_object s a \<Longrightarrow> has_object s' a"
  using grows_get [of s b "fst (getStateObject s b)" "snd (getStateObject s b)"]
  by (auto simp: on_object_def grows_def split: prod.splits option.splits)

lemma revert_entry_keeps:
  assumes "revert_entry e s = Some s'" "has_object s a" "e \<noteq> createObjectChange a"
  shows "has_object s' a"
proof (cases e)
  case (suicideChange b prev bal)
  with assms grows_get [of s b "fst (getStateObject s b)" "snd (getStateObject s b)"] show ?thesis
    by (auto simp: grows_def split: prod.splits option.splits)
qed (use assms in \<open>auto simp: Let_def dest: on_object_keeps split: if_splits\<close>)

lemma revert_loop_keeps:
  "revert_loop es s = Some s' \<Longrightarrow> has_object s a \<Longrightarrow> createObjectChange a \<notin> set es \<Longrightarrow> has_object s' a"
proof (induction es arbitrary: s)
  case (Cons e es)
  then obtain s1 where s1: "revert_entry e s = Some s1"
      "revert_loop es (s1\<lparr>sdb_journal := undirty e (sdb_journal s1)\<rparr>) = Some s'"
    by (auto split: option.splits)
  have "has_object s1 a" using revert_entry_keeps [OF s1(1)] Cons.prems by auto
  with s1(2) Cons.prems show ?case by (intro Cons.IH [OF s1(2)]) auto
qed simp

lemma revert_loop_entries:
  "revert_loop es s = Some s' \<Longrightarrow> objects_ok s \<Longrightarrow> \<forall>e \<in> set es. entry_ok s e \<Longrightarrow> entries s' = entries s"
proof (induction es arbitrary: s)
  case (Cons e es)
  then obtain s1 where s1: "revert_entry e s = Some s1"
      "revert_loop es (s1\<lparr>sdb_journal := undirty e (sdb_journal s1)\<rparr>) = Some s'"
    by (auto split: option.splits)
  have "frame_of s s1" using revert_entry_frame [OF Cons.prems(2) _ s1(1)] Cons.prems(3) by auto
  then have f: "same_base s (s1\<lparr>sdb_journal := j\<rparr>)" "objects_ok s1" "entries s1 = entries s" for j
    by (auto simp: frame_of_def same_base_def)
  show ?case using Cons.IH [OF s1(2)] f Cons.prems(3) entry_ok_base [OF f(1)] by simp
qed simp

lemma present_revert:
  assumes "nested cr s0 s" "entries s0 = []" "present s" "RevertToSnapshot r s = Some s'"
  shows "present s'"
proof -
  have ok: "sdb_ok s" and u: "undo_all cr (sdb_codes s0) (rev (entries s)) (view_of cr s) = Some (view_of cr s0)"
    using assms(1,2) by (auto simp: nested_def extends_def)
  obtain n t where t: "revert_loop (rev (drop n (entries s))) s = Some t"
      "entries s' = take n (entries t)" "sdb_stateObjects s' = sdb_stateObjects t"
    using assms(4) by (auto simp: RevertToSnapshot_def journal_revert_def Let_def split: if_splits)
  have et: "entries t = entries s"
    using revert_loop_entries [OF t(1)] ok by (auto simp: sdb_ok_def dest: in_set_dropD)
  show ?thesis
    unfolding present_def
  proof (intro ballI allI impI)
    fix e a assume e: "e \<in> set (entries s')" "changes e = Some a"
    then have take: "e \<in> set (take n (entries s))" using t(2) et by simp
    then have "has_object s a" using assms(3) e(2) in_set_takeD by (fastforce simp: present_def)
    moreover have "createObjectChange a \<notin> set (rev (drop n (entries s)))"
    proof
      assume "createObjectChange a \<in> set (rev (drop n (entries s)))"
      then obtain p q where d: "drop n (entries s) = p @ createObjectChange a # q"
        by (auto simp: in_set_conv_decomp)
      then have "entries s = (take n (entries s) @ p) @ createObjectChange a # q"
        by (metis append.assoc append_take_drop_id)
      with u created_after [of cr "sdb_codes s0" "take n (entries s) @ p" a q] take e(2) show False
        by (metis Un_iff set_append)
    qed
    ultimately show "has_object s' a" using revert_loop_keeps [OF t(1)] t(3) by simp
  qed
qed

section \<open>What finalising leaves\<close>

abbreviation balance_of :: "crypto \<Rightarrow> StateDB \<Rightarrow> address \<Rightarrow> int" where
  "balance_of cr s a \<equiv> balance_in (w_acct (view_of cr s) a)"

lemma GetBalance_view: "objects_ok s \<Longrightarrow> GetBalance s a = balance_of cr s a"
  by (auto simp: GetBalance_def getStateObject_def view_of_def acct_def balance_in_def obj_view_def newObject_def Let_def
      split: option.split)

text \<open>Between transactions no object is marked as suicided.\<close>

definition calm :: "crypto \<Rightarrow> StateDB \<Rightarrow> bool" where
  "calm cr s \<longleftrightarrow> (\<forall>a. \<not> suicided_in (w_acct (view_of cr s) a))"

definition boundary :: "crypto \<Rightarrow> StateDB \<Rightarrow> bool" where
  "boundary cr s \<longleftrightarrow> sdb_ok s \<and> revs_ok s \<and> entries s = [] \<and> sdb_validRevisions s = [] \<and> calm cr s"

lemma boundary_new: "boundary cr (NewStateDB codes tr)"
  by (auto simp: boundary_def calm_def NewStateDB_def sdb_ok_def objects_ok_def dirties_ok_def dirties_for_def
      newJournal_def revs_ok_def suicided_in_def view_of_def acct_def obj_view_def newObject_def split: option.split)

text \<open>The object that a list of finalised addresses leaves in place of another.\<close>

definition flushed_as :: "crypto \<Rightarrow> bool \<Rightarrow> bool \<Rightarrow> stateObject \<Rightarrow> stateObject \<Rightarrow> bool" where
  "flushed_as cr d hit so so' \<longleftrightarrow>
     acc_Balance (so_data so') = acc_Balance (so_data so) \<and> acc_Nonce (so_data so') = acc_Nonce (so_data so) \<and>
     acc_CodeHash (so_data so') = acc_CodeHash (so_data so) \<and> so_suicided so' = so_suicided so \<and>
     so_deleted so' = (so_deleted so \<or> hit \<and> deletable cr d so)"

lemma flushed_as_trans:
  "flushed_as cr d h so so1 \<Longrightarrow> flushed_as cr d h' so1 so2 \<Longrightarrow> flushed_as cr d (h \<or> h') so so2"
  by (auto simp: flushed_as_def deletable_def so_empty_def)

lemma finalise_object_flush:
  "rel_option (flushed_as cr d (b = a)) (mget (sdb_stateObjects s) b) (mget (sdb_stateObjects (finalise_object cr d a s)) b)"
  by (cases "mget (sdb_stateObjects s) b") (auto simp: finalise_object_objects flushed_as_def updateRoot_fields)

lemma fold_finalise_flush:
  "rel_option (flushed_as cr d (b \<in> set as)) (mget (sdb_stateObjects s) b)
     (mget (sdb_stateObjects (fold (finalise_object cr d) as s)) b)"
proof (induction as arbitrary: s)
  case Nil
  show ?case by (cases "mget (sdb_stateObjects s) b") (auto simp: flushed_as_def)
next
  case (Cons a as)
  have trans: "rel_option (flushed_as cr d (h \<or> h')) x z"
    if "rel_option (flushed_as cr d h) x y" "rel_option (flushed_as cr d h') y z" for h h' x y z
    using that by (cases x; cases y; cases z) (simp_all, rule flushed_as_trans)
  show ?case using trans [OF finalise_object_flush [of cr d b a s] Cons [of "finalise_object cr d a s"]] by simp
qed

lemma fold_finalise_frame:
  "mget (sdb_stateObjects s) b = None \<Longrightarrow> sdb_trie (fold (finalise_object cr d) as s) b = sdb_trie s b"
proof (induction as arbitrary: s)
  case (Cons a as)
  then have "mget (sdb_stateObjects (finalise_object cr d a s)) b = None"
    by (auto simp: finalise_object_objects)
  with Cons show ?case by (auto simp: finalise_object_trie)
qed simp

abbreviation flush :: "crypto \<Rightarrow> bool \<Rightarrow> StateDB \<Rightarrow> StateDB" where
  "flush cr d s \<equiv> fold (finalise_object cr d) (map fst (j_dirties (sdb_journal s))) s"

lemma Finalise_flush: "Finalise cr d s = clearJournalAndRefund (flush cr d s)"
  by (simp add: Finalise_def)

lemma flush_journal: "sdb_journal (fold (finalise_object cr d) as s) = sdb_journal s"
proof (induction as arbitrary: s)
  case (Cons a as)
  have "sdb_journal (finalise_object cr d a s) = sdb_journal s"
    by (cases "mget (sdb_stateObjects s) a") (simp_all add: finalise_object_def add_dirty_def deleteStateObject_def
        updateStateObject_def Let_def)
  with Cons show ?case by simp
qed simp

lemma tracked_changes:
  "a \<in> set (tracked_dirties s) \<longleftrightarrow> has_object s a \<and> (\<exists>e \<in> set (entries s). changes e = Some a)"
proof -
  let ?f = "\<lambda>e. case changes e of None \<Rightarrow> [] | Some b \<Rightarrow> if mget (sdb_stateObjects s) b = None then [] else [b]"
  have "tracked_dirties s = concat (map ?f (entries s))"
    unfolding tracked_dirties_def by (intro arg_cong [where f = concat] map_cong refl) (simp split: journalEntry.split)
  moreover have "a \<in> set (?f e) \<longleftrightarrow> changes e = Some a \<and> has_object s a" for e
    by (cases "changes e") auto
  ultimately show ?thesis by auto
qed

text \<open>An account after finalising: as before, or gone because it was suicided or empty.\<close>

lemma Finalise_account:
  assumes "sdb_ok s"
  shows "quiet (acct cr s a) (acct cr (Finalise cr d s) a)
    \<or> suicided_in (acct cr s a) \<and> \<not> suicided_in (acct cr (Finalise cr d s) a)"
proof -
  let ?t = "flush cr d s"
  have "acct cr (Finalise cr d s) = acct cr ?t"
    unfolding Finalise_flush by (rule acct_frame) (simp_all add: clearJournalAndRefund_def)
  moreover have "quiet (acct cr s a) (acct cr ?t a) \<or> suicided_in (acct cr s a) \<and> \<not> suicided_in (acct cr ?t a)"
  proof (cases "mget (sdb_stateObjects s) a")
    case None
    have "mget (sdb_stateObjects ?t) a = None"
      using fold_finalise_flush [of cr d a "map fst (j_dirties (sdb_journal s))" s] None by simp
    then show ?thesis using None fold_finalise_frame [OF None, of cr d]
      by (cases "sdb_trie s a") (auto simp: acct_def quiet_def balance_in_def suicided_in_def obj_view_def newObject_def)
  next
    case (Some so)
    then obtain so' where so': "mget (sdb_stateObjects ?t) a = Some so'"
        "flushed_as cr d (a \<in> set (map fst (j_dirties (sdb_journal s)))) so so'"
      using fold_finalise_flush [of cr d a "map fst (j_dirties (sdb_journal s))" s] by (auto simp: option_rel_Some1)
    then show ?thesis using Some
      by (auto simp: acct_def quiet_def balance_in_def suicided_in_def obj_view_def flushed_as_def deletable_def so_empty_def)
  qed
  ultimately show ?thesis by simp
qed

lemma unchanged_quiet:
  assumes "nested cr s0 s" "entries s0 = []" "\<forall>e \<in> set (entries s). changes e \<noteq> Some a"
  shows "quiet (w_acct (view_of cr s0) a) (w_acct (view_of cr s) a)"
  using assms undo_all_quiet [of cr "sdb_codes s0" "rev (entries s)" "view_of cr s" "view_of cr s0" a]
  by (auto simp: nested_def extends_def)

lemma Finalise_calm:
  assumes "boundary cr s0" "nested cr s0 s"
  shows "calm cr (Finalise cr d s)"
  unfolding calm_def
proof (intro allI notI)
  fix a
  let ?t = "flush cr d s" and ?as = "map fst (j_dirties (sdb_journal s))"
  assume "suicided_in (w_acct (view_of cr (Finalise cr d s)) a)"
  moreover have "acct cr (Finalise cr d s) = acct cr ?t"
    unfolding Finalise_flush by (rule acct_frame) (simp_all add: clearJournalAndRefund_def)
  ultimately have sui: "suicided_in (acct cr ?t a)" by (simp add: view_of_def)
  then obtain so' where so': "mget (sdb_stateObjects ?t) a = Some so'" "\<not> so_deleted so'" "so_suicided so'"
    by (auto simp: suicided_in_def acct_def obj_view_def newObject_def split: option.splits if_splits)
  then obtain so where so: "mget (sdb_stateObjects s) a = Some so" "flushed_as cr d (a \<in> set ?as) so so'"
    using fold_finalise_flush [of cr d a ?as s] by (auto simp: option_rel_Some2)
  have "a \<notin> set ?as" using so so' by (auto simp: flushed_as_def deletable_def)
  then have nd: "mget (j_dirties (sdb_journal s)) a = None" by (simp add: map_of_eq_None_iff)
  have ok: "dirties_ok s" using assms(2) by (auto simp: nested_def extends_def sdb_ok_def)
  then have "dirty_count a (entries s) = 0" unfolding dirties_ok_def dirties_for_def using nd by (metis (no_types, lifting) of_nat_le_0_iff option.simps(4))
  then have "\<forall>e \<in> set (entries s). changes e \<noteq> Some a"
    using changes_dirtied by (auto simp: dirty_count_def filter_empty_conv)
  then have "quiet (w_acct (view_of cr s0) a) (w_acct (view_of cr s) a)"
    using assms by (intro unchanged_quiet) (auto simp: boundary_def)
  moreover have "suicided_in (w_acct (view_of cr s) a)"
    using so so' by (auto simp: view_of_def acct_def suicided_in_def obj_view_def flushed_as_def)
  ultimately show False using assms(1) by (auto simp: quiet_def boundary_def calm_def)
qed

lemma Finalise_boundary:
  assumes "boundary cr s0" "nested cr s0 s"
  shows "boundary cr (Finalise cr d s)"
  using Finalise_calm [OF assms] Finalise_ok [of s cr d] assms(2)
  by (auto simp: boundary_def nested_def extends_def)

lemma Finalise_reports:
  assumes "boundary cr s0" "nested cr s0 s" "present s"
    and "balance_of cr (Finalise cr d s) a \<noteq> balance_of cr s0 a"
  shows "a \<in> set (tracked_dirties (flush cr d s))"
proof -
  have "\<exists>e \<in> set (entries s). changes e = Some a"
  proof (rule ccontr)
    assume "\<not> ?thesis"
    then have q: "quiet (w_acct (view_of cr s0) a) (w_acct (view_of cr s) a)"
      using assms(1,2) by (intro unchanged_quiet) (auto simp: boundary_def)
    have "\<not> suicided_in (w_acct (view_of cr s0) a)" using assms(1) by (simp add: boundary_def calm_def)
    with q have "\<not> suicided_in (w_acct (view_of cr s) a)" by (auto simp: quiet_def)
    with Finalise_account [of s cr a d] have "quiet (w_acct (view_of cr s) a) (w_acct (view_of cr (Finalise cr d s)) a)"
      using assms(2) by (auto simp: view_of_def nested_def extends_def)
    with q assms(4) show False by (auto simp: quiet_def)
  qed
  moreover from this have "has_object s a" using assms(3) by (auto simp: present_def)
  then have "has_object (flush cr d s) a"
    using fold_finalise_flush [of cr d a "map fst (j_dirties (sdb_journal s))" s] by (auto simp: option_rel_Some1)
  ultimately show ?thesis by (simp add: tracked_changes flush_journal)
qed

end
