(* ===== verification/Consensus_Types.thy ===== *)
theory Consensus_Types
  imports Crypto
begin

text \<open>
  The data of the consensus protocol: the chain parameters (\<^verbatim>\<open>src/params/config.go\<close>), the
  certificate, header and block (\<^verbatim>\<open>src/core/types/certificate.go\<close>, \<^verbatim>\<open>block.go\<close>) and the
  messages (\<^verbatim>\<open>src/consensus/algorand/core/types.go\<close>), with the order on proposal credentials
  that elects a round's leader.
\<close>

section \<open>Chain parameters\<close>

record AlgorandConfig =
  TimeoutTwoLambda :: u64
  TotalWeight :: int
  IntervalSize :: u32

definition GetIntervalSn :: "AlgorandConfig \<Rightarrow> u64 \<Rightarrow> u64" where
  "GetIntervalSn c height = height div ucast (IntervalSize c)"

definition GetInterval :: "AlgorandConfig \<Rightarrow> u64 \<Rightarrow> u64 \<times> u64" where
  "GetInterval c sn = (sn * ucast (IntervalSize c), (sn + 1) * ucast (IntervalSize c))"

text \<open>\<^verbatim>\<open>time.Millisecond\<close> is a million nanoseconds; a \<^verbatim>\<open>Duration\<close> has 64 bits.\<close>

definition TimeoutTwoLambdaDuration :: "AlgorandConfig \<Rightarrow> u64" where
  "TimeoutTwoLambdaDuration c = 1000000 * TimeoutTwoLambda c"

record CommitteeConfig =
  NumProposer :: u64
  SoftCommitteeThreshold :: u64
  CertCommitteeThreshold :: u64
  NextCommitteeThreshold :: u64
  SoftCommitteeSize :: u64
  CertCommitteeSize :: u64
  NextCommitteeSize :: u64

definition CommitteeConfigv1 :: CommitteeConfig where
  "CommitteeConfigv1 =
    \<lparr>NumProposer = 20,
     SoftCommitteeThreshold = 2267, CertCommitteeThreshold = 1112, NextCommitteeThreshold = 3838,
     SoftCommitteeSize = 2990, CertCommitteeSize = 1500, NextCommitteeSize = 5000\<rparr>"

section \<open>Rounds, steps and vote types\<close>

definition BadRound :: u32 where "BadRound = 0"
definition BadStep :: u32 where "BadStep = 0"
definition MaxStep :: u32 where "MaxStep = 4294967295"

definition RoundStep1Proposal :: u32 where "RoundStep1Proposal = 1"
definition RoundStep2Filtering :: u32 where "RoundStep2Filtering = 2"
definition RoundStep3Certifying :: u32 where "RoundStep3Certifying = 3"
definition RoundStep4FirstFinishing :: u32 where "RoundStep4FirstFinishing = 4"

definition VoteTypeSoft :: u32 where "VoteTypeSoft = 1"
definition VoteTypeCert :: u32 where "VoteTypeCert = 2"
definition VoteTypeNext :: u32 where "VoteTypeNext = 3"

lemmas round_step_defs = BadRound_def BadStep_def MaxStep_def RoundStep1Proposal_def
  RoundStep2Filtering_def RoundStep3Certifying_def RoundStep4FirstFinishing_def
lemmas vote_type_defs = VoteTypeSoft_def VoteTypeCert_def VoteTypeNext_def

definition VoteTypeOfStep :: "u32 \<Rightarrow> u32" where
  "VoteTypeOfStep step =
     (if step = RoundStep2Filtering then VoteTypeSoft
      else if step = RoundStep3Certifying then VoteTypeCert
      else if RoundStep4FirstFinishing \<le> step then VoteTypeNext
      else BadStep)"

text \<open>The first component is the threshold, the second the expected committee size.\<close>

definition GetCommitteeNumber :: "u64 \<Rightarrow> u32 \<Rightarrow> u64 \<times> u64" where
  "GetCommitteeNumber height step =
     (if step = RoundStep1Proposal then (1, NumProposer CommitteeConfigv1)
      else if step = RoundStep2Filtering then
        (SoftCommitteeThreshold CommitteeConfigv1, SoftCommitteeSize CommitteeConfigv1)
      else if step = RoundStep3Certifying then
        (CertCommitteeThreshold CommitteeConfigv1, CertCommitteeSize CommitteeConfigv1)
      else (NextCommitteeThreshold CommitteeConfigv1, NextCommitteeSize CommitteeConfigv1))"

section \<open>The order on proposal credentials\<close>

text \<open>
  The loop counts \<^verbatim>\<open>i\<close> from 2 to \<open>j\<close>; it is a fold over those numbers.  (For \<open>j\<close> the
  largest 64-bit number the Go loop would not end; sortition returns at most the size of a
  committee.)
\<close>

definition minRandHash_step :: "crypto \<Rightarrow> vrf_output \<Rightarrow> hash \<Rightarrow> nat \<Rightarrow> hash" where
  "minRandHash_step cr hash best i =
     (let hash512 = Sum512_256 cr (word_bytes 32 hash @ put_be 8 i)
      in if bytes_compare (word_bytes 32 hash512) (word_bytes 32 best) < 0 then hash512 else best)"

definition minRandHash :: "crypto \<Rightarrow> vrf_output \<Rightarrow> u64 \<Rightarrow> hash" where
  "minRandHash cr hash j =
     foldl (minRandHash_step cr hash) (Sum512_256 cr (word_bytes 32 hash)) [2..<Suc (unat j)]"

text \<open>\<open>None\<close> is the panic on a proof that has no hash.\<close>

definition LessThanByProofInt ::
  "crypto \<Rightarrow> vrf_proof \<Rightarrow> vrf_proof \<Rightarrow> u64 \<Rightarrow> u64 \<Rightarrow> int option" where
  "LessThanByProofInt cr proofA proofB jA jB =
     (if jA = 0 then Some 1
      else if jB = 0 then Some (-1)
      else case (VrfProofToHash256 cr proofA, VrfProofToHash256 cr proofB) of
        (Some hashA, Some hashB) \<Rightarrow>
          Some (bytes_compare (word_bytes 32 (minRandHash cr hashA jA))
                              (word_bytes 32 (minRandHash cr hashB jB)))
      | _ \<Rightarrow> None)"

definition LessThanByProof ::
  "crypto \<Rightarrow> vrf_proof \<Rightarrow> vrf_proof \<Rightarrow> u64 \<Rightarrow> u64 \<Rightarrow> bool option" where
  "LessThanByProof cr proofA proofB jA jB =
     map_option (\<lambda>r. r < 0) (LessThanByProofInt cr proofA proofB jA jB)"

section \<open>Certificates, headers and blocks\<close>

record CredentialStorage =
  cs_Address :: address
  cs_Proof :: vrf_proof

record ProposalStorage =
  ps_ESignValue :: ForwardSecureSignature
  ps_Round :: u32
  ps_Credential :: CredentialStorage
  ps_SeedProof :: vrf_proof

record CertVoteStorage =
  cvs_ESignValue :: ForwardSecureSignature
  cvs_Credential :: CredentialStorage

record Certificate =
  ct_Height :: u64
  ct_Round :: u32
  ct_Value :: hash
  ct_Proposal :: ProposalStorage
  ct_CertVoteSet :: "CertVoteStorage list"
  ct_TrieProof :: "bytes list"

definition emptyCertificate :: Certificate where
  "emptyCertificate =
    \<lparr>ct_Height = 0, ct_Round = 0, ct_Value = 0,
     ct_Proposal = \<lparr>ps_ESignValue = zero_signature, ps_Round = 0,
       ps_Credential = \<lparr>cs_Address = 0, cs_Proof = 0\<rparr>, ps_SeedProof = 0\<rparr>,
     ct_CertVoteSet = [], ct_TrieProof = []\<rparr>"

definition Certificate_Proposer :: "Certificate \<Rightarrow> address" where
  "Certificate_Proposer c = cs_Address (ps_Credential (ct_Proposal c))"

definition Certificate_SetProposer :: "address \<Rightarrow> Certificate \<Rightarrow> Certificate" where
  "Certificate_SetProposer addr c =
     c\<lparr>ct_Proposal := (ct_Proposal c)\<lparr>ps_Credential :=
        (ps_Credential (ct_Proposal c))\<lparr>cs_Address := addr\<rparr>\<rparr>\<rparr>"

definition Certificate_Proof :: "Certificate \<Rightarrow> vrf_proof" where
  "Certificate_Proof c = cs_Proof (ps_Credential (ct_Proposal c))"

definition Certificate_SeedProof :: "Certificate \<Rightarrow> vrf_proof" where
  "Certificate_SeedProof c = ps_SeedProof (ct_Proposal c)"

definition Certificate_SetSeedProof :: "vrf_proof \<Rightarrow> Certificate \<Rightarrow> Certificate" where
  "Certificate_SetSeedProof proof c = c\<lparr>ct_Proposal := (ct_Proposal c)\<lparr>ps_SeedProof := proof\<rparr>\<rparr>"

definition Certificate_SignBytes :: "Certificate \<Rightarrow> bytes" where
  "Certificate_SignBytes c = word_bytes 32 (ct_Value c)"

text \<open>\<^verbatim>\<open>sort.Sort(CertVoteStorageSlice)\<close>: by address, in the order of \<^verbatim>\<open>bytes.Compare\<close>.\<close>

definition CertVoteStorage_Less :: "CertVoteStorage \<Rightarrow> CertVoteStorage \<Rightarrow> bool" where
  "CertVoteStorage_Less a b \<longleftrightarrow>
     bytes_compare (word_bytes 20 (cs_Address (cvs_Credential a)))
                   (word_bytes 20 (cs_Address (cvs_Credential b))) < 0"

record Transaction =
  tx_AccountNonce :: u64
  tx_Price :: int
  tx_GasLimit :: u64
  tx_Recipient :: "address option"
  tx_Amount :: int
  tx_Payload :: bytes
  tx_V :: int
  tx_R :: int
  tx_S :: int

record Header =
  h_ParentHash :: hash
  h_UncleHash :: hash
  h_Coinbase :: address
  h_Root :: hash
  h_TxHash :: hash
  h_ReceiptHash :: hash
  h_Bloom :: "2048 word"
  h_Difficulty :: int
  h_Number :: int
  h_GasLimit :: u64
  h_GasUsed :: u64
  h_Time :: u64
  h_Extra :: bytes
  h_MixDigest :: hash
  h_Nonce :: u64
  h_TotalBalanceOfMiners :: int
  h_Certificate :: Certificate

record Block =
  b_header :: Header
  b_uncles :: "Header list"
  b_transactions :: "Transaction list"

definition rlpHash :: "crypto \<Rightarrow> rlp_item list \<Rightarrow> hash" where
  "rlpHash cr xs = Keccak256 cr (EncodeToBytes cr (RList xs))"

abbreviation RHash :: "hash \<Rightarrow> rlp_item" where "RHash h \<equiv> RBytes (word_bytes 32 h)"
abbreviation RU64 :: "u64 \<Rightarrow> rlp_item" where "RU64 n \<equiv> RUint (unat n)"
abbreviation RU32 :: "u32 \<Rightarrow> rlp_item" where "RU32 n \<equiv> RUint (unat n)"
abbreviation RBig :: "int \<Rightarrow> rlp_item" where "RBig n \<equiv> RUint (nat n)"
abbreviation RAddress :: "address \<Rightarrow> rlp_item" where "RAddress a \<equiv> RBytes (word_bytes 20 a)"

definition Header_Hash :: "crypto \<Rightarrow> Header \<Rightarrow> hash" where
  "Header_Hash cr h = rlpHash cr
     [RHash (h_ParentHash h), RHash (h_UncleHash h), RAddress (h_Coinbase h), RHash (h_Root h),
      RHash (h_TxHash h), RHash (h_ReceiptHash h), RBytes (word_bytes 256 (h_Bloom h)),
      RBig (h_Difficulty h), RBig (h_Number h), RU64 (h_GasLimit h), RU64 (h_GasUsed h),
      RU64 (h_Time h), RBytes (h_Extra h), RHash (h_MixDigest h),
      RBytes (word_bytes 8 (h_Nonce h)), RBig (h_TotalBalanceOfMiners h)]"

definition AlgorandEmptyValue :: "crypto \<Rightarrow> hash \<Rightarrow> int \<Rightarrow> hash" where
  "AlgorandEmptyValue cr parentHash number = rlpHash cr [RHash parentHash, RBig number]"

definition SetVersion :: "u64 \<Rightarrow> Header \<Rightarrow> Header" where
  "SetVersion version h = h\<lparr>h_Nonce := version\<rparr>"

definition Version :: "Header \<Rightarrow> u64" where "Version h = h_Nonce h"
definition Seed :: "Header \<Rightarrow> vrf_output" where "Seed h = h_MixDigest h"
definition SetSeed :: "vrf_output \<Rightarrow> Header \<Rightarrow> Header" where "SetSeed s h = h\<lparr>h_MixDigest := s\<rparr>"
definition Proposer :: "Header \<Rightarrow> address" where "Proposer h = Certificate_Proposer (h_Certificate h)"
definition Header_Proof :: "Header \<Rightarrow> vrf_proof" where "Header_Proof h = Certificate_Proof (h_Certificate h)"

definition NumberU64 :: "Header \<Rightarrow> u64" where "NumberU64 h = of_int (h_Number h)"
definition Block_Hash :: "crypto \<Rightarrow> Block \<Rightarrow> hash" where "Block_Hash cr b = Header_Hash cr (b_header b)"
definition Block_Number :: "Block \<Rightarrow> u64" where "Block_Number b = NumberU64 (b_header b)"
definition Block_Certificate :: "Block \<Rightarrow> Certificate" where
  "Block_Certificate b = h_Certificate (b_header b)"
definition Block_SeedProof :: "Block \<Rightarrow> vrf_proof" where
  "Block_SeedProof b = Certificate_SeedProof (Block_Certificate b)"

definition WithSeal :: "Block \<Rightarrow> Header \<Rightarrow> Block" where
  "WithSeal b header = b\<lparr>b_header := header\<rparr>"

section \<open>Messages\<close>

record HandshakeData =
  hs_Version :: u32
  hs_Height :: u64
  hs_Round :: u32

record StatusData =
  sd_Height :: u64
  sd_Round :: u32

record Credential =
  cr_Address :: address
  cr_Height :: u64
  cr_Round :: u32
  cr_Step :: u32
  cr_Proof :: vrf_proof
  cr_Weight :: u64

definition NewCredentialFromCredentialStorage ::
  "CredentialStorage \<Rightarrow> u64 \<Rightarrow> u32 \<Rightarrow> u32 \<Rightarrow> u64 \<Rightarrow> Credential" where
  "NewCredentialFromCredentialStorage storage height round step weight =
    \<lparr>cr_Address = cs_Address storage, cr_Height = height, cr_Round = round, cr_Step = step,
     cr_Proof = cs_Proof storage, cr_Weight = weight\<rparr>"

definition Credential_LessThan :: "crypto \<Rightarrow> Credential \<Rightarrow> Credential \<Rightarrow> bool option" where
  "Credential_LessThan cr c other =
     LessThanByProof cr (cr_Proof c) (cr_Proof other) (cr_Weight c) (cr_Weight other)"

record ProposalLeaderData =
  pl_Value :: hash
  pl_ESignValue :: ForwardSecureSignature
  pl_Credential :: Credential

record ProposalBlockData =
  pb_Block :: Block
  pb_ESignValue :: ForwardSecureSignature
  pb_Credential :: Credential

record HasVoteData =
  hv_Address :: address
  hv_Height :: u64
  hv_Round :: u32
  hv_Step :: u32

record VoteData =
  v_Value :: hash
  v_ESignValue :: ForwardSecureSignature
  v_Credential :: Credential

record HasProposalData =
  hp_Height :: u64
  hp_Round :: u32
  hp_Proof :: vrf_proof
  hp_Value :: hash
  hp_Weight :: u64

abbreviation v_Address :: "VoteData \<Rightarrow> address" where "v_Address v \<equiv> cr_Address (v_Credential v)"
abbreviation v_Height :: "VoteData \<Rightarrow> u64" where "v_Height v \<equiv> cr_Height (v_Credential v)"
abbreviation v_Round :: "VoteData \<Rightarrow> u32" where "v_Round v \<equiv> cr_Round (v_Credential v)"
abbreviation v_Step :: "VoteData \<Rightarrow> u32" where "v_Step v \<equiv> cr_Step (v_Credential v)"
abbreviation v_Weight :: "VoteData \<Rightarrow> u64" where "v_Weight v \<equiv> cr_Weight (v_Credential v)"
abbreviation pl_Height :: "ProposalLeaderData \<Rightarrow> u64" where "pl_Height p \<equiv> cr_Height (pl_Credential p)"
abbreviation pl_Round :: "ProposalLeaderData \<Rightarrow> u32" where "pl_Round p \<equiv> cr_Round (pl_Credential p)"
abbreviation pb_Height :: "ProposalBlockData \<Rightarrow> u64" where "pb_Height p \<equiv> cr_Height (pb_Credential p)"
abbreviation pb_Round :: "ProposalBlockData \<Rightarrow> u32" where "pb_Round p \<equiv> cr_Round (pb_Credential p)"

definition NewProposalLeaderDataFromStorage ::
  "hash \<Rightarrow> u64 \<Rightarrow> ProposalStorage \<Rightarrow> ProposalLeaderData" where
  "NewProposalLeaderDataFromStorage value height storage =
    \<lparr>pl_Value = value, pl_ESignValue = ps_ESignValue storage,
     pl_Credential = NewCredentialFromCredentialStorage (ps_Credential storage) height
       (ps_Round storage) RoundStep1Proposal 0\<rparr>"

definition ProposalLeaderData_SignBytes :: "ProposalLeaderData \<Rightarrow> bytes" where
  "ProposalLeaderData_SignBytes data = word_bytes 32 (pl_Value data)"

definition ProposalLeaderData_LessThan ::
  "crypto \<Rightarrow> ProposalLeaderData \<Rightarrow> ProposalLeaderData \<Rightarrow> bool option" where
  "ProposalLeaderData_LessThan cr data other =
     Credential_LessThan cr (pl_Credential data) (pl_Credential other)"

definition ProposalLeaderData_ToHasProposalData :: "ProposalLeaderData \<Rightarrow> HasProposalData" where
  "ProposalLeaderData_ToHasProposalData data =
    \<lparr>hp_Height = pl_Height data, hp_Round = pl_Round data, hp_Proof = cr_Proof (pl_Credential data),
     hp_Value = pl_Value data, hp_Weight = cr_Weight (pl_Credential data)\<rparr>"

definition ProposalLeaderData_Valid :: "ProposalLeaderData \<Rightarrow> u64 \<Rightarrow> bool" where
  "ProposalLeaderData_Valid data height \<longleftrightarrow>
     pl_Height data = height \<and> pl_Round data \<noteq> BadRound \<and>
     cr_Step (pl_Credential data) = RoundStep1Proposal"

definition NewProposalBlockDataFromProposalStorage ::
  "ProposalStorage \<Rightarrow> Block \<Rightarrow> u64 \<Rightarrow> ProposalBlockData" where
  "NewProposalBlockDataFromProposalStorage leader block weight =
     (let headerNoCert = (b_header block)\<lparr>h_Certificate :=
            Certificate_SetProposer (cs_Address (ps_Credential leader))
              (Certificate_SetSeedProof (ps_SeedProof leader) emptyCertificate)\<rparr>
      in \<lparr>pb_Block = WithSeal block headerNoCert, pb_ESignValue = ps_ESignValue leader,
          pb_Credential = NewCredentialFromCredentialStorage (ps_Credential leader)
            (Block_Number block) (ps_Round leader) RoundStep1Proposal weight\<rparr>)"

definition NewProposalLeaderData :: "crypto \<Rightarrow> ProposalBlockData \<Rightarrow> ProposalLeaderData" where
  "NewProposalLeaderData cr data =
    \<lparr>pl_Value = Block_Hash cr (pb_Block data), pl_ESignValue = pb_ESignValue data,
     pl_Credential = pb_Credential data\<rparr>"

definition ProposalBlockData_ToHasProposalData :: "crypto \<Rightarrow> ProposalBlockData \<Rightarrow> HasProposalData" where
  "ProposalBlockData_ToHasProposalData cr data =
    \<lparr>hp_Height = pb_Height data, hp_Round = pb_Round data, hp_Proof = cr_Proof (pb_Credential data),
     hp_Value = Block_Hash cr (pb_Block data), hp_Weight = cr_Weight (pb_Credential data)\<rparr>"

definition ToProposalStorage :: "ProposalBlockData \<Rightarrow> ProposalStorage" where
  "ToProposalStorage data =
    \<lparr>ps_ESignValue = pb_ESignValue data, ps_Round = pb_Round data,
     ps_Credential = \<lparr>cs_Address = cr_Address (pb_Credential data),
                      cs_Proof = cr_Proof (pb_Credential data)\<rparr>,
     ps_SeedProof = Block_SeedProof (pb_Block data)\<rparr>"

definition ProposalBlockData_SignBytes :: "crypto \<Rightarrow> ProposalBlockData \<Rightarrow> bytes" where
  "ProposalBlockData_SignBytes cr data = word_bytes 32 (Block_Hash cr (pb_Block data))"

definition ProposalBlockData_Valid :: "ProposalBlockData \<Rightarrow> u64 \<Rightarrow> bool" where
  "ProposalBlockData_Valid data height \<longleftrightarrow>
     pb_Height data = height \<and> pb_Round data \<noteq> BadRound \<and>
     cr_Step (pb_Credential data) = RoundStep1Proposal"

definition ToHasVote :: "VoteData \<Rightarrow> HasVoteData" where
  "ToHasVote data =
    \<lparr>hv_Address = v_Address data, hv_Height = v_Height data, hv_Round = v_Round data,
     hv_Step = v_Step data\<rparr>"

definition NewVoteDataFromCertVoteStorage ::
  "CertVoteStorage \<Rightarrow> u64 \<Rightarrow> u32 \<Rightarrow> hash \<Rightarrow> VoteData" where
  "NewVoteDataFromCertVoteStorage storage height round value =
    \<lparr>v_Value = value, v_ESignValue = cvs_ESignValue storage,
     v_Credential = NewCredentialFromCredentialStorage (cvs_Credential storage) height round
       RoundStep3Certifying 0\<rparr>"

definition VoteData_SignBytes :: "VoteData \<Rightarrow> bytes" where
  "VoteData_SignBytes data = word_bytes 32 (v_Value data)"

definition VoteData_Valid :: "VoteData \<Rightarrow> u64 \<Rightarrow> hash \<Rightarrow> bool" where
  "VoteData_Valid data height emptyValue =
     (if v_Height data \<noteq> height \<or> v_Round data = BadRound \<or> v_Step data = BadStep
         \<or> v_Step data = RoundStep1Proposal \<or> MaxStep < v_Step data then False
      else if v_Step data = RoundStep2Filtering \<or> v_Step data = RoundStep3Certifying then
        v_Value data \<noteq> emptyValue
      else True)"

section \<open>Lemmas\<close>

lemma VoteTypeOfStep_cases:
  "VoteTypeOfStep step = VoteTypeSoft \<longleftrightarrow> step = RoundStep2Filtering"
  "VoteTypeOfStep step = VoteTypeCert \<longleftrightarrow> step = RoundStep3Certifying"
  "VoteTypeOfStep step = VoteTypeNext \<longleftrightarrow> RoundStep4FirstFinishing \<le> step"
  by (auto simp: VoteTypeOfStep_def vote_type_defs round_step_defs)

lemma vote_types_distinct [simp]:
  "VoteTypeSoft \<noteq> VoteTypeCert" "VoteTypeCert \<noteq> VoteTypeSoft"
  "VoteTypeSoft \<noteq> VoteTypeNext" "VoteTypeNext \<noteq> VoteTypeSoft"
  "VoteTypeCert \<noteq> VoteTypeNext" "VoteTypeNext \<noteq> VoteTypeCert"
  "VoteTypeSoft \<noteq> BadStep" "VoteTypeCert \<noteq> BadStep" "VoteTypeNext \<noteq> BadStep"
  by (simp_all add: vote_type_defs BadStep_def)

lemma steps_distinct [simp]:
  "RoundStep2Filtering \<noteq> RoundStep3Certifying" "RoundStep3Certifying \<noteq> RoundStep2Filtering"
  "RoundStep1Proposal \<noteq> RoundStep2Filtering" "RoundStep1Proposal \<noteq> RoundStep3Certifying"
  "\<not> RoundStep4FirstFinishing \<le> RoundStep2Filtering"
  "\<not> RoundStep4FirstFinishing \<le> RoundStep3Certifying"
  by (simp_all add: round_step_defs)

lemma VoteTypeOfStep_simps [simp]:
  "VoteTypeOfStep RoundStep2Filtering = VoteTypeSoft"
  "VoteTypeOfStep RoundStep3Certifying = VoteTypeCert"
  "RoundStep4FirstFinishing \<le> step \<Longrightarrow> VoteTypeOfStep step = VoteTypeNext"
  by (auto simp: VoteTypeOfStep_def)

text \<open>Every vote that passes \<^verbatim>\<open>Valid\<close> belongs to one of the three vote types.\<close>

lemma VoteData_Valid_step:
  assumes "VoteData_Valid v height emptyValue"
  shows "VoteTypeOfStep (v_Step v) \<noteq> BadStep" "v_Round v \<noteq> BadRound" "v_Height v = height"
proof -
  have "RoundStep4FirstFinishing \<le> v_Step v" if "v_Step v \<noteq> 0" "v_Step v \<noteq> 1" "v_Step v \<noteq> 2" "v_Step v \<noteq> 3"
    using that unfolding RoundStep4FirstFinishing_def by unat_arith
  then show "VoteTypeOfStep (v_Step v) \<noteq> BadStep"
    using assms
    by (auto simp: VoteData_Valid_def VoteTypeOfStep_def round_step_defs vote_type_defs split: if_splits)
qed (use assms in \<open>auto simp: VoteData_Valid_def split: if_splits\<close>)

subsection \<open>The rank of a credential\<close>

lemma minRandHash_step_min:
  "minRandHash_step cr hash best i = min (Sum512_256 cr (word_bytes 32 hash @ put_be 8 i)) best"
  by (auto simp: minRandHash_step_def Let_def min_def bytes_compare_word)

lemma minRandHash_fold:
  "foldl (minRandHash_step cr hash) b is =
     Min (insert b ((\<lambda>i. Sum512_256 cr (word_bytes 32 hash @ put_be 8 i)) ` set is))"
proof (induction "is" arbitrary: b)
  case Nil
  then show ?case by simp
next
  case (Cons i "is")
  let ?f = "\<lambda>i. Sum512_256 cr (word_bytes 32 hash @ put_be 8 i)"
  have "Min (insert (min (?f i) b) (?f ` set is)) = Min (insert b (?f ` set (i # is)))"
    by (cases "set is = {}") (auto simp: min.assoc min.left_commute min.commute)
  with Cons show ?case by (simp add: minRandHash_step_min)
qed

text \<open>
  The rank of a proof with weight \<open>j\<close>: its smallest hash; a credential without weight ranks
  after every other.
\<close>

definition proof_rank :: "crypto \<Rightarrow> vrf_proof \<Rightarrow> u64 \<Rightarrow> nat" where
  "proof_rank cr proof j =
     (if j = 0 then 2 ^ 256
      else case VrfProofToHash256 cr proof of None \<Rightarrow> 2 ^ 256 | Some h \<Rightarrow> unat (minRandHash cr h j))"

definition proof_ok :: "crypto \<Rightarrow> vrf_proof \<Rightarrow> u64 \<Rightarrow> bool" where
  "proof_ok cr proof j \<longleftrightarrow> j = 0 \<or> VrfProofToHash256 cr proof \<noteq> None"

lemma unat_hash_lt: "unat (h :: hash) < 2 ^ 256"
  using unsigned_less [of h] by simp

lemma proof_rank_le: "proof_rank cr p j \<le> 2 ^ 256"
  using less_imp_le [OF unat_hash_lt] by (simp add: proof_rank_def split: option.split)

lemma LessThanByProof_rank:
  assumes "proof_ok cr pA jA" "proof_ok cr pB jB"
  shows "LessThanByProof cr pA pB jA jB = Some (proof_rank cr pA jA < proof_rank cr pB jB)"
proof (cases "jA = 0 \<or> jB = 0")
  case True
  show ?thesis
  proof (cases "jA = 0")
    case True
    then have "\<not> proof_rank cr pA jA < proof_rank cr pB jB"
      using proof_rank_le [of cr pB jB] by (simp add: proof_rank_def)
    with True show ?thesis by (simp add: LessThanByProof_def LessThanByProofInt_def)
  next
    case False
    with \<open>jA = 0 \<or> jB = 0\<close> have "proof_rank cr pA jA < proof_rank cr pB jB"
      using assms unat_hash_lt by (auto simp: proof_rank_def proof_ok_def)
    with False \<open>jA = 0 \<or> jB = 0\<close> show ?thesis
      by (simp add: LessThanByProof_def LessThanByProofInt_def)
  qed
next
  case False
  then show ?thesis
    using assms
    by (auto simp: LessThanByProof_def LessThanByProofInt_def proof_rank_def proof_ok_def
        bytes_compare_word word_less_nat_alt)
qed

subsection \<open>Choosing a leader\<close>

text \<open>
  The node (\<^verbatim>\<open>OnProposalLeaderReceived\<close>) and its view of each peer
  (\<^verbatim>\<open>setHasProposalValueNoLock\<close>) both keep, per round, the best proposal seen so far.
  \<open>elect\<close> is that step over an arbitrary comparison; \<open>None\<close> is the panic of the comparison.
\<close>

definition elect :: "('c \<Rightarrow> 'c \<Rightarrow> bool option) \<Rightarrow> 'c option \<Rightarrow> 'c \<Rightarrow> 'c option option" where
  "elect lt cur new =
     (case cur of
        None \<Rightarrow> Some (Some new)
      | Some leader \<Rightarrow> map_option (\<lambda>b. Some (if b then new else leader)) (lt new leader))"

definition least_seen :: "('c \<Rightarrow> nat) \<Rightarrow> 'c set \<Rightarrow> 'c option \<Rightarrow> bool" where
  "least_seen rank S cur \<longleftrightarrow>
     (case cur of None \<Rightarrow> S = {} | Some l \<Rightarrow> l \<in> S \<and> (\<forall>x \<in> S. rank l \<le> rank x))"

locale leader_choice =
  fixes lt :: "'c \<Rightarrow> 'c \<Rightarrow> bool option"
    and ok :: "'c \<Rightarrow> bool"
    and rank :: "'c \<Rightarrow> nat"
  assumes lt_rank: "ok a \<Longrightarrow> ok b \<Longrightarrow> lt a b = Some (rank a < rank b)"
begin

lemma lt_irrefl: "ok a \<Longrightarrow> lt a a = Some False"
  by (simp add: lt_rank)

lemma lt_trans: "ok a \<Longrightarrow> ok b \<Longrightarrow> ok c \<Longrightarrow> lt a b = Some True \<Longrightarrow> lt b c = Some True \<Longrightarrow> lt a c = Some True"
  by (simp add: lt_rank)

lemma lt_asym: "ok a \<Longrightarrow> ok b \<Longrightarrow> lt a b = Some True \<Longrightarrow> lt b a = Some False"
  by (simp add: lt_rank)

lemma elect_least:
  assumes "least_seen rank S cur" "\<forall>x \<in> S. ok x" "ok new"
  shows "\<exists>cur'. elect lt cur new = Some (Some cur') \<and> least_seen rank (insert new S) (Some cur')"
proof (cases cur)
  case None
  then show ?thesis using assms by (simp add: elect_def least_seen_def)
next
  case (Some l)
  then have "l \<in> S" "\<forall>x \<in> S. rank l \<le> rank x" using assms(1) by (auto simp: least_seen_def)
  moreover have "lt new l = Some (rank new < rank l)"
    using assms(2,3) \<open>l \<in> S\<close> by (simp add: lt_rank)
  ultimately show ?thesis
    using Some by (fastforce simp: elect_def least_seen_def)
qed

text \<open>A whole sequence of valid proposals elects one of them with the smallest rank, and never panics.\<close>

lemma elect_all_least:
  assumes "\<forall>x \<in> set xs. ok x" "least_seen rank S cur" "\<forall>x \<in> S. ok x"
  shows "\<exists>cur'. foldl (\<lambda>acc x. Option.bind acc (\<lambda>c. elect lt c x)) (Some cur) xs = Some cur'
    \<and> least_seen rank (S \<union> set xs) cur'"
  using assms
proof (induction xs arbitrary: S cur)
  case Nil
  then show ?case by auto
next
  case (Cons x xs)
  obtain cur' where e: "elect lt cur x = Some (Some cur')"
    and l: "least_seen rank (insert x S) (Some cur')"
    using elect_least [OF Cons.prems(2,3)] Cons.prems(1) by auto
  have "\<exists>c. foldl (\<lambda>acc x. Option.bind acc (\<lambda>c. elect lt c x)) (Some (Some cur')) xs = Some c
    \<and> least_seen rank (insert x S \<union> set xs) c"
    using Cons.IH [OF _ l] Cons.prems by auto
  then show ?case by (simp add: e)
qed

end

abbreviation cred_ok :: "crypto \<Rightarrow> Credential \<Rightarrow> bool" where
  "cred_ok cr c \<equiv> proof_ok cr (cr_Proof c) (cr_Weight c)"

abbreviation cred_rank :: "crypto \<Rightarrow> Credential \<Rightarrow> nat" where
  "cred_rank cr c \<equiv> proof_rank cr (cr_Proof c) (cr_Weight c)"

interpretation cred_order: leader_choice "Credential_LessThan cr" "cred_ok cr" "cred_rank cr" for cr
  by unfold_locales (simp add: Credential_LessThan_def LessThanByProof_rank)

interpretation leader_order: leader_choice "ProposalLeaderData_LessThan cr"
  "\<lambda>d. cred_ok cr (pl_Credential d)" "\<lambda>d. cred_rank cr (pl_Credential d)" for cr
  by unfold_locales (simp add: ProposalLeaderData_LessThan_def cred_order.lt_rank)

text \<open>
  What a certificate stores is enough to rebuild the messages it was made from, up to the
  cached weight, which verification computes again.
\<close>

lemma certificate_storage_roundtrip:
  assumes "v_Step v = RoundStep3Certifying" "cr_Step (pb_Credential d) = RoundStep1Proposal"
  shows "NewVoteDataFromCertVoteStorage
      \<lparr>cvs_ESignValue = v_ESignValue v,
       cvs_Credential = \<lparr>cs_Address = v_Address v, cs_Proof = cr_Proof (v_Credential v)\<rparr>\<rparr>
      (v_Height v) (v_Round v) (v_Value v)
    = v\<lparr>v_Credential := (v_Credential v)\<lparr>cr_Weight := 0\<rparr>\<rparr>
    \<and> NewProposalLeaderDataFromStorage (Block_Hash cr (pb_Block d)) (pb_Height d) (ToProposalStorage d)
    = (NewProposalLeaderData cr d)\<lparr>pl_Credential := (pb_Credential d)\<lparr>cr_Weight := 0\<rparr>\<rparr>"
  using assms
  by (simp add: NewVoteDataFromCertVoteStorage_def NewProposalLeaderDataFromStorage_def
      NewCredentialFromCredentialStorage_def ToProposalStorage_def NewProposalLeaderData_def)


section \<open>Theorems\<close>


text \<open>
  C12.  Electing a leader: over any sequence of proposals whose proofs have a hash, keeping the
  one for which \<^verbatim>\<open>LessThan\<close> wins never panics and ends with a proposal of the sequence whose
  rank is least, whatever the order of arrival.
\<close>

theorem leader_is_least:
  assumes "\<forall>x \<in> set xs. cred_ok cr (pl_Credential x)" "xs \<noteq> []"
  shows "\<exists>l \<in> set xs.
      foldl (\<lambda>acc x. Option.bind acc (\<lambda>c. elect (ProposalLeaderData_LessThan cr) c x)) (Some None) xs
        = Some (Some l)
    \<and> (\<forall>x \<in> set xs. cred_rank cr (pl_Credential l) \<le> cred_rank cr (pl_Credential x))"
proof -
  obtain c where
    f: "foldl (\<lambda>acc x. Option.bind acc (\<lambda>c. elect (ProposalLeaderData_LessThan cr) c x)) (Some None) xs
      = Some c"
    and l: "least_seen (\<lambda>d. cred_rank cr (pl_Credential d)) (set xs) c"
    using leader_order.elect_all_least [OF assms(1), of "{}" None] by (auto simp: least_seen_def)
  from l assms(2) show ?thesis
    using f by (cases c) (auto simp: least_seen_def)
qed

theorem leader_is_least_witness:
  "\<exists>l. foldl (\<lambda>acc x. Option.bind acc (\<lambda>c. elect (ProposalLeaderData_LessThan demo_crypto) c x))
      (Some None)
      [\<lparr>pl_Value = 1, pl_ESignValue = zero_signature,
        pl_Credential = \<lparr>cr_Address = 1, cr_Height = 1, cr_Round = 1, cr_Step = 1, cr_Proof = 9, cr_Weight = 1\<rparr>\<rparr>,
       \<lparr>pl_Value = 2, pl_ESignValue = zero_signature,
        pl_Credential = \<lparr>cr_Address = 2, cr_Height = 1, cr_Round = 1, cr_Step = 1, cr_Proof = 4, cr_Weight = 1\<rparr>\<rparr>]
    = Some (Some l)"
proof -
  let ?p = "\<lparr>pl_Value = 1, pl_ESignValue = zero_signature,
        pl_Credential = \<lparr>cr_Address = 1, cr_Height = 1, cr_Round = 1, cr_Step = 1, cr_Proof = 9, cr_Weight = 1\<rparr>\<rparr>"
  let ?q = "\<lparr>pl_Value = 2, pl_ESignValue = zero_signature,
        pl_Credential = \<lparr>cr_Address = 2, cr_Height = 1, cr_Round = 1, cr_Step = 1, cr_Proof = 4, cr_Weight = 1\<rparr>\<rparr>"
  have "\<forall>x \<in> set [?p, ?q]. cred_ok demo_crypto (pl_Credential x)"
    by (simp add: proof_ok_def VrfProofToHash256_def demo_crypto_def)
  then show ?thesis using leader_is_least [of "[?p, ?q]" demo_crypto] by blast
qed


end
