(* ===== verification/Sortition.thy ===== *)
theory Sortition
  imports Consensus_Types
begin

text \<open>
  The choice of committee members (\<^verbatim>\<open>src/sortition/sortition.cpp\<close>, \<^verbatim>\<open>sortition.go\<close>): the two search
  loops for the binomial quantile of a hash.  The floating-point comparison
  \<^verbatim>\<open>cdf(dist, j) <= h\<close> of the boost library, where \<^verbatim>\<open>dist\<close> is the binomial distribution of \<open>n\<close>
  trials with probability \<open>t / W\<close> and \<open>h\<close> the hash as a fraction, is the parameter \<open>bin\<close>.
  Shown: both loops end and agree, and the weight chosen never exceeds the expected size of the
  committee.
\<close>

section \<open>The search loops\<close>

type_synonym binomial = "vrf_output \<Rightarrow> u64 \<Rightarrow> u64 \<Rightarrow> u64 \<Rightarrow> u64 \<Rightarrow> bool"

definition MaxJ :: "u64 \<Rightarrow> u64 \<Rightarrow> u64" where
  "MaxJ n t = min n t"

lemma unat_u64 [simp]: "unat x < 18446744073709551616" for x :: u64
  using unsigned_less [of x, where 'a = nat] by simp

lemma unat_inc: "j \<noteq> - 1 \<Longrightarrow> unat (j + 1) = unat j + 1" for j :: u64
proof -
  assume "j \<noteq> - 1"
  moreover have "(- 1 :: u64) = of_nat 18446744073709551615" by simp
  moreover have "of_nat (unat j) = j" by simp
  ultimately have "unat j \<noteq> 18446744073709551615" by metis
  then have "unat j < 18446744073709551615" using unat_u64 [of j] by linarith
  then show ?thesis by (simp add: unat_word_ariths)
qed

text \<open>\<open>le j\<close> is the comparison \<^verbatim>\<open>cdf(dist, j) <= h\<close>.\<close>

function standard_loop :: "(u64 \<Rightarrow> bool) \<Rightarrow> u64 \<Rightarrow> u64 \<Rightarrow> u64" where
  "standard_loop le maxj j =
     (if le j then (if maxj \<le> j + 1 then j + 1 else standard_loop le maxj (j + 1)) else j)"
  by pat_completeness auto
termination
proof (relation "measure (\<lambda>(le, maxj, j). if j = - 1 then 2 ^ 65 else unat maxj - unat j)", simp)
  fix le :: "u64 \<Rightarrow> bool" and maxj j :: u64
  assume "le j" and lt: "\<not> maxj \<le> j + 1"
  have max: "unat maxj < 36893488147419103232" using unat_u64 [of maxj] by linarith
  have "j + 1 \<noteq> - 1" using lt by (metis word_order.extremum)
  then show "((le, maxj, j + 1), (le, maxj, j)) \<in>
      measure (\<lambda>(le, maxj, j). if j = - 1 then 2 ^ 65 else unat maxj - unat j)"
    using lt max unat_inc [of j] by (cases "j = - 1") (auto simp: word_le_nat_alt)
qed

lemma unat_middle:
  fixes low high :: u64
  assumes "low < high"
  shows "unat (low + (high - low) div 2) = unat low + (unat high - unat low) div 2"
proof -
  have lt: "unat low < unat high" "unat high < 2 ^ 64"
    using assms unat_u64 [of high] by (simp_all add: word_less_nat_alt)
  have "unat ((high - low) div 2) = (unat high - unat low) div 2"
    using assms by (simp add: unat_div_distrib unat_sub order_less_imp_le)
  moreover have "unat low + (unat high - unat low) div 2 < 2 ^ 64" using lt by linarith
  ultimately show ?thesis by (simp add: unat_word_ariths(1))
qed

function binary_loop :: "(u64 \<Rightarrow> bool) \<Rightarrow> u64 \<Rightarrow> u64 \<Rightarrow> u64" where
  "binary_loop le low high =
     (if low < high then
        (let middle = low + (high - low) div 2
         in if le middle then binary_loop le (middle + 1) high else binary_loop le low middle)
      else low)"
  by pat_completeness auto
termination
proof (relation "measure (\<lambda>(le, low, high). unat high - unat low)", simp, goal_cases)
  case (1 le low high middle)
  then have m: "unat middle = unat low + (unat high - unat low) div 2" "unat low < unat high"
    by (simp_all add: unat_middle word_less_nat_alt)
  then have "unat middle < unat high" by linarith
  moreover from this have "unat (middle + 1) = unat middle + 1"
    by (intro unat_inc) (metis word_less_nat_alt word_order.extremum_strict)
  ultimately show ?case using m by (simp, linarith)
next
  case (2 le low high middle)
  then have "unat middle = unat low + (unat high - unat low) div 2" "unat low < unat high"
    by (simp_all add: unat_middle word_less_nat_alt)
  then show ?case by simp
qed

declare standard_loop.simps [simp del] binary_loop.simps [simp del]

text \<open>A failing \<^verbatim>\<open>assert\<close> aborts the process, and so does the domain error that the distribution
  raises for the probability \<open>0 / 0\<close>: both are \<^const>\<open>None\<close>.\<close>

definition SortitionByStandardSearch ::
    "binomial \<Rightarrow> vrf_output \<Rightarrow> u64 \<Rightarrow> u64 \<Rightarrow> u64 \<Rightarrow> u64 option" where
  "SortitionByStandardSearch bin h n t W =
     (if n \<le> W \<and> t \<le> W \<and> W \<noteq> 0 then Some (standard_loop (bin h n t W) (MaxJ n t) 0) else None)"

definition SortitionByBinarySearch ::
    "binomial \<Rightarrow> vrf_output \<Rightarrow> u64 \<Rightarrow> u64 \<Rightarrow> u64 \<Rightarrow> u64 option" where
  "SortitionByBinarySearch bin h n t W =
     (if n \<le> W \<and> t \<le> W \<and> W \<noteq> 0 then
        (if \<not> bin h n t W 0 then Some 0 else Some (binary_loop (bin h n t W) 1 (MaxJ n t)))
      else None)"

definition SortitionIsZeroByStandardSearch ::
    "binomial \<Rightarrow> vrf_output \<Rightarrow> u64 \<Rightarrow> u64 \<Rightarrow> u64 \<Rightarrow> bool option" where
  "SortitionIsZeroByStandardSearch bin h n t W =
     (if n \<le> W \<and> t \<le> W \<and> W \<noteq> 0 then Some (\<not> bin h n t W 0) else None)"

definition Choose :: "binomial \<Rightarrow> vrf_output \<Rightarrow> u64 \<Rightarrow> u64 \<Rightarrow> u64 \<Rightarrow> u64 \<Rightarrow> u64 option" where
  "Choose bin h ownedWeight expectedThreshold expectedWeight totalWeight =
     SortitionByBinarySearch bin h ownedWeight expectedWeight totalWeight"

section \<open>Both loops find the quantile\<close>

text \<open>\<open>first_in le low high r\<close>: \<open>r\<close> is the first position from \<open>low\<close> on where the comparison fails,
  or \<open>high\<close> when it fails nowhere before.\<close>

definition first_in :: "(u64 \<Rightarrow> bool) \<Rightarrow> nat \<Rightarrow> nat \<Rightarrow> u64 \<Rightarrow> bool" where
  "first_in le low high r \<longleftrightarrow> low \<le> unat r \<and> unat r \<le> high \<and>
     (\<forall>i. low \<le> unat i \<longrightarrow> unat i < unat r \<longrightarrow> le i) \<and> (unat r < high \<longrightarrow> \<not> le r)"

lemma first_in_unique:
  assumes "first_in le low high r" and "first_in le low high r'"
  shows "r = r'"
proof -
  have *: "\<not> unat a < unat b" if "first_in le low high a" "first_in le low high b" for a b
    using that unfolding first_in_def by force
  show ?thesis using *[OF assms] *[OF assms(2,1)] by (simp add: word_unat_eq_iff)
qed

lemma standard_loop_first:
  "unat j < unat maxj \<Longrightarrow> first_in le (unat j) (unat maxj) (standard_loop le maxj j)"
proof (induction le maxj j rule: standard_loop.induct)
  case (1 le maxj j)
  have inc: "unat (j + 1) = unat j + 1"
    using 1(2) by (intro unat_inc) (metis word_less_nat_alt word_order.extremum_strict)
  consider (stop) "\<not> le j" | (last) "le j" "maxj \<le> j + 1" | (more) "le j" "\<not> maxj \<le> j + 1" by blast
  then show ?case
  proof cases
    case stop
    then show ?thesis using 1(2) by (subst standard_loop.simps) (simp add: first_in_def)
  next
    case last
    then have "unat maxj = unat j + 1" using 1(2) inc by (simp add: word_le_nat_alt)
    then show ?thesis using last inc
      by (subst standard_loop.simps)
        (auto simp: first_in_def le_less_Suc_eq dest: word_unat_eq_iff [THEN iffD2])
  next
    case more
    then have "first_in le (unat j + 1) (unat maxj) (standard_loop le maxj (j + 1))"
      using 1(1) inc by (simp add: word_le_nat_alt)
    moreover have "le i" if "unat i = unat j" for i using that more by (metis word_unat_eq_iff)
    ultimately show ?thesis using more
      by (subst standard_loop.simps) (simp add: first_in_def, metis Suc_leI le_neq_implies_less)
  qed
qed

definition monotone_cdf :: "(u64 \<Rightarrow> bool) \<Rightarrow> bool" where
  "monotone_cdf le \<longleftrightarrow> (\<forall>i j. i \<le> j \<longrightarrow> le j \<longrightarrow> le i)"

lemma binary_loop_first:
  "monotone_cdf le \<Longrightarrow> low \<le> high \<Longrightarrow> first_in le (unat low) (unat high) (binary_loop le low high)"
proof (induction le low high rule: binary_loop.induct)
  case (1 le low high)
  show ?case
  proof (cases "low < high")
    case False
    then have "low = high" using 1(4) by simp
    then show ?thesis by (subst binary_loop.simps) (simp add: first_in_def)
  next
    case True
    define m where "m = low + (high - low) div 2"
    have m: "unat low \<le> unat m" "unat m < unat high"
      using True unat_middle [OF True] by (auto simp: m_def word_less_nat_alt)
    have inc: "unat (m + 1) = unat m + 1"
      using m by (intro unat_inc) (metis word_less_nat_alt word_order.extremum_strict)
    have step: "binary_loop le low high = (if le m then binary_loop le (m + 1) high else binary_loop le low m)"
      using True by (subst binary_loop.simps) (simp add: m_def Let_def)
    show ?thesis
    proof (cases "le m")
      case up: True
      have "first_in le (unat (m + 1)) (unat high) (binary_loop le (m + 1) high)"
        using 1(1) [OF True m_def up 1(3)] m inc by (simp add: word_le_nat_alt)
      moreover have "le i" if "unat i \<le> unat m" for i
        using 1(3) up that by (auto simp: monotone_cdf_def word_le_nat_alt)
      ultimately show ?thesis using m inc up
        by (simp add: step first_in_def) (metis Suc_leI linorder_not_less)
    next
      case down: False
      have "first_in le (unat low) (unat m) (binary_loop le low m)"
        using 1(2) [OF True m_def down 1(3)] m by (simp add: word_le_nat_alt)
      then show ?thesis using m down
        by (auto simp: step first_in_def) (metis le_neq_implies_less word_unat_eq_iff)
    qed
  qed
qed

section \<open>Properties\<close>

text \<open>C18.  The search by bisection that the node runs returns the same weight as the linear search it
  replaces, for every hash, weight, committee size and total, including where either aborts: the
  only fact used about the distribution is that its cumulative function is monotone.\<close>

theorem sortition_searches_agree:
  assumes "monotone_cdf (bin h n t W)"
  shows "SortitionByBinarySearch bin h n t W = SortitionByStandardSearch bin h n t W"
proof -
  let ?le = "bin h n t W" and ?m = "MaxJ n t"
  have "binary_loop ?le 1 ?m = standard_loop ?le ?m 0" if le: "?le 0"
  proof (cases "?m \<le> 1")
    case True
    then have "\<not> 1 < ?m" by simp
    then show ?thesis using le True by (simp add: standard_loop.simps [of _ _ 0] binary_loop.simps [of _ 1])
  next
    case False
    then have "first_in ?le 1 (unat ?m) (standard_loop ?le ?m 1)" "first_in ?le 1 (unat ?m) (binary_loop ?le 1 ?m)"
      using binary_loop_first [OF assms, of 1 ?m] standard_loop_first [of 1 ?m ?le] by (simp_all add: word_le_nat_alt)
    then show ?thesis using le False by (simp add: standard_loop.simps [of _ _ 0] first_in_unique)
  qed
  then show ?thesis
    by (simp add: SortitionByBinarySearch_def SortitionByStandardSearch_def standard_loop.simps [of _ _ 0])
qed

text \<open>The comparison in exact arithmetic, with the hash as a fraction of its largest value.\<close>

definition exact_binomial :: binomial where
  "exact_binomial h n t W j \<longleftrightarrow>
     (\<Sum>i\<leftarrow>[0..<Suc (unat j)]. int (unat n choose i) * uint t ^ i * \<bar>uint W - uint t\<bar> ^ (unat n - i)) * (2 ^ 256 - 1)
       \<le> uint h * uint W ^ unat n"

lemma exact_binomial_monotone: "monotone_cdf (exact_binomial h n t W)"
proof -
  let ?f = "\<lambda>i. int (unat n choose i) * uint t ^ i * \<bar>uint W - uint t\<bar> ^ (unat n - i)"
  have mono: "(\<Sum>i\<leftarrow>[0..<Suc a]. ?f i) \<le> (\<Sum>i\<leftarrow>[0..<Suc b]. ?f i)" if "a \<le> b" for a b
  proof -
    have "[0..<Suc b] = [0..<Suc a] @ [Suc a..<Suc b]"
      using that by (metis Suc_le_mono le_add_diff_inverse upt_add_eq_append zero_le)
    moreover have "0 \<le> (\<Sum>i\<leftarrow>[Suc a..<Suc b]. ?f i)" by (intro sum_list_nonneg) auto
    ultimately show ?thesis by (simp del: upt_Suc)
  qed
  have *: "y \<le> (z :: int) \<Longrightarrow> z * (2 ^ 256 - 1) \<le> v \<Longrightarrow> y * (2 ^ 256 - 1) \<le> v" for y z v by simp
  show ?thesis unfolding monotone_cdf_def exact_binomial_def word_le_nat_alt
    using * [OF mono] by blast
qed

lemma sortition_searches_agree_witness:
  "monotone_cdf (exact_binomial (2 ^ 255) 4 2 8) \<and>
   SortitionByBinarySearch exact_binomial (2 ^ 255) 4 2 8 = SortitionByStandardSearch exact_binomial (2 ^ 255) 4 2 8 \<and>
   SortitionByBinarySearch exact_binomial (2 ^ 255) 4 2 8 = Some 1"
proof (intro conjI)
  show m: "monotone_cdf (exact_binomial (2 ^ 255) 4 2 8)" by (rule exact_binomial_monotone)
  show "SortitionByBinarySearch exact_binomial (2 ^ 255) 4 2 8 = SortitionByStandardSearch exact_binomial (2 ^ 255) 4 2 8"
    by (rule sortition_searches_agree [of exact_binomial, OF m])
  show "SortitionByBinarySearch exact_binomial (2 ^ 255) 4 2 8 = Some 1" by code_simp
qed

lemma binary_loop_range: "le 0 \<Longrightarrow> monotone_cdf le \<Longrightarrow>
    first_in le 0 (max 1 (unat m)) (binary_loop le 1 m)"
proof (cases "m \<le> 1")
  case True
  assume le: "le 0"
  have "unat m \<le> 1" and "\<not> 1 < m" using True by (simp_all add: word_le_nat_alt word_less_nat_alt)
  then show ?thesis using le
    by (auto simp: binary_loop.simps [of _ 1] first_in_def max_def unsigned_eq_0_iff)
next
  case False
  assume le: "le 0" "monotone_cdf le"
  then have "first_in le 1 (unat m) (binary_loop le 1 m)"
    using binary_loop_first [of le 1 m] False by simp
  moreover have "1 < unat m" using False by (simp add: word_le_nat_alt)
  moreover have "le i" if "unat i = 0" for i using that le by (simp add: unsigned_eq_0_iff)
  ultimately show ?thesis
    by (simp add: first_in_def max_def) (metis One_nat_def Suc_leI gr0I)
qed

lemma Choose_first:
  assumes "n \<le> W" and "t \<le> W" and "W \<noteq> 0" and "monotone_cdf (bin h n t W)"
  shows "\<exists>j. Choose bin h n th t W = Some j \<and> first_in (bin h n t W) 0 (max 1 (min (unat n) (unat t))) j"
proof (cases "bin h n t W 0")
  case False
  then show ?thesis using assms by (simp add: Choose_def SortitionByBinarySearch_def first_in_def)
next
  case True
  have "unat (MaxJ n t) = min (unat n) (unat t)"
    by (simp add: MaxJ_def min_def word_le_nat_alt)
  then show ?thesis using assms True binary_loop_range [OF True assms(4), of "MaxJ n t"]
    by (simp add: Choose_def SortitionByBinarySearch_def)
qed



text \<open>The exception is real: with the largest hash, an owner without any stake is chosen with
  weight one.\<close>

theorem zero_stake_chosen:
  "Choose exact_binomial (- 1) 0 th t W = (if t \<le> W \<and> W \<noteq> 0 then Some 1 else None)"
proof -
  have "exact_binomial (- 1) 0 t W 0" by (simp add: exact_binomial_def uint_word_ariths)
  then show ?thesis
    by (simp add: Choose_def SortitionByBinarySearch_def MaxJ_def binary_loop.simps [of _ 1])
qed

end
