(* ===== verification/Common.thy ===== *)
theory Common
  imports Prelude
begin

text \<open>
  Conversions between byte strings, hashes, addresses and big integers (\<^verbatim>\<open>src/common/types.go\<close>,
  \<^verbatim>\<open>bytes.go\<close>) and checked and modular arithmetic (\<^verbatim>\<open>src/common/math/integer.go\<close>, \<^verbatim>\<open>big.go\<close>).
  Shown: the conversions agree with arithmetic on the numbers they encode, the overflow flags are
  exact, and exponentiation by squaring computes the power modulo \<open>2 ^ 256\<close>.
\<close>

unbundle bit_operations_syntax

section \<open>Byte strings\<close>

definition RightPadBytes :: "bytes \<Rightarrow> nat \<Rightarrow> bytes" where
  "RightPadBytes bs l = (if l \<le> length bs then bs else bs @ replicate (l - length bs) 0)"

definition LeftPadBytes :: "bytes \<Rightarrow> nat \<Rightarrow> bytes" where
  "LeftPadBytes bs l = (if l \<le> length bs then bs else replicate (l - length bs) 0 @ bs)"

text \<open>\<^verbatim>\<open>SetBytes\<close> of the arrays \<^verbatim>\<open>Hash\<close> and \<^verbatim>\<open>Address\<close> of \<open>n\<close> bytes, both zero before.\<close>

definition SetBytes :: "nat \<Rightarrow> bytes \<Rightarrow> bytes" where
  "SetBytes n b = (let b = (if n < length b then drop (length b - n) b else b)
                   in replicate (n - length b) 0 @ b)"

definition BytesToHash :: "bytes \<Rightarrow> hash" where
  "BytesToHash b = of_nat (get_be (SetBytes 32 b))"

definition BytesToAddress :: "bytes \<Rightarrow> address" where
  "BytesToAddress b = of_nat (get_be (SetBytes 20 b))"

text \<open>\<^verbatim>\<open>big.Int.Bytes\<close>: the absolute value in big-endian order, without leading zeros.\<close>

fun nat_bytes :: "nat \<Rightarrow> bytes" where
  "nat_bytes n = (if n = 0 then [] else nat_bytes (n div 256) @ [of_nat n])"

declare nat_bytes.simps [simp del]

definition Big_Bytes :: "int \<Rightarrow> bytes" where
  "Big_Bytes x = nat_bytes (nat \<bar>x\<bar>)"

definition Big_Uint64 :: "int \<Rightarrow> u64" where
  "Big_Uint64 x = of_int \<bar>x\<bar>"

definition BigToHash :: "int \<Rightarrow> hash" where
  "BigToHash b = BytesToHash (Big_Bytes b)"

definition BigToAddress :: "int \<Rightarrow> address" where
  "BigToAddress b = BytesToAddress (Big_Bytes b)"

definition Hash_Big :: "hash \<Rightarrow> int" where
  "Hash_Big h = int (get_be (put_be 32 (unat h)))"

definition Address_Big :: "address \<Rightarrow> int" where
  "Address_Big a = int (get_be (put_be 20 (unat a)))"

definition Address_Hash :: "address \<Rightarrow> hash" where
  "Address_Hash a = BytesToHash (put_be 20 (unat a))"

definition Uint64ToHash :: "u64 \<Rightarrow> hash" where
  "Uint64ToHash n = of_nat (get_be (replicate 24 0 @ put_be 8 (unat n)))"

section \<open>Machine arithmetic with overflow flags\<close>

definition MaxUint64 :: u64 where "MaxUint64 = 18446744073709551615"

definition SafeSub :: "u64 \<Rightarrow> u64 \<Rightarrow> u64 \<times> bool" where
  "SafeSub x y = (x - y, x < y)"

definition SafeAdd :: "u64 \<Rightarrow> u64 \<Rightarrow> u64 \<times> bool" where
  "SafeAdd x y = (x + y, y > MaxUint64 - x)"

definition SafeMul :: "u64 \<Rightarrow> u64 \<Rightarrow> u64 \<times> bool" where
  "SafeMul x y = (if x = 0 \<or> y = 0 then (0, False) else (x * y, y > MaxUint64 div x))"

section \<open>Big integers\<close>

definition tt255 :: int where "tt255 = 2 ^ 255"
definition tt256 :: int where "tt256 = 2 ^ 256"
definition tt256m1 :: int where "tt256m1 = tt256 - 1"

definition BigMax :: "int \<Rightarrow> int \<Rightarrow> int" where "BigMax x y = (if x < y then y else x)"
definition BigMin :: "int \<Rightarrow> int \<Rightarrow> int" where "BigMin x y = (if x > y then y else x)"

definition U256 :: "int \<Rightarrow> int" where "U256 x = x AND tt256m1"

definition S256 :: "int \<Rightarrow> int" where
  "S256 x = (if x < tt255 then x else x - tt256)"

text \<open>\<^verbatim>\<open>big.Int.Bits\<close>: the 64-bit limbs of the absolute value, least significant first.\<close>

fun nat_limbs :: "nat \<Rightarrow> u64 list" where
  "nat_limbs n = (if n = 0 then [] else of_nat n # nat_limbs (n div 2 ^ 64))"

declare nat_limbs.simps [simp del]

definition Big_Bits :: "int \<Rightarrow> u64 list" where
  "Big_Bits x = nat_limbs (nat \<bar>x\<bar>)"

definition bigEndianByteAt :: "int \<Rightarrow> nat \<Rightarrow> u8" where
  "bigEndianByteAt bigint n =
     (let words = Big_Bits bigint; i = n div 8
      in if i \<ge> length words then 0
         else let word = words ! i; shift = 8 * (n mod 8) in ucast (drop_bit shift word))"

definition Byte :: "int \<Rightarrow> nat \<Rightarrow> nat \<Rightarrow> u8" where
  "Byte bigint padlength n = (if n \<ge> padlength then 0 else bigEndianByteAt bigint (padlength - 1 - n))"

text \<open>The inner and outer loops of \<^verbatim>\<open>Exp\<close>; the state is \<open>(result, base)\<close>.\<close>

fun exp_bits :: "nat \<Rightarrow> u64 \<Rightarrow> int \<times> int \<Rightarrow> int \<times> int" where
  "exp_bits 0 word (result, base) = (result, base)"
| "exp_bits (Suc i) word (result, base) =
     (let result = (if word AND 1 = 1 then U256 (result * base) else result)
      in exp_bits i (drop_bit 1 word) (result, U256 (base * base)))"

fun exp_words :: "u64 list \<Rightarrow> int \<times> int \<Rightarrow> int \<times> int" where
  "exp_words [] st = st"
| "exp_words (word # words) st = exp_words words (exp_bits 64 word st)"

text \<open>The result, and the value that the object \<^verbatim>\<open>base\<close> points to afterwards.\<close>

definition Exp :: "int \<Rightarrow> int \<Rightarrow> int \<times> int" where
  "Exp base exponent = exp_words (Big_Bits exponent) (1, base)"

section \<open>Lemmas\<close>

lemma get_be_append: "get_be (xs @ ys) = get_be xs * 256 ^ length ys + get_be ys"
  by (induction ys rule: rev_induct) (simp_all add: append_assoc [symmetric] algebra_simps del: append_assoc)

lemma get_be_zeros [simp]: "get_be (replicate n 0) = 0"
  by (induction n) (simp_all add: get_be_def)

lemma get_be_SetBytes: "get_be (SetBytes n b) = get_be b mod 256 ^ n"
proof (cases "n < length b")
  case True
  let ?k = "length b - n"
  have "get_be b = get_be (take ?k b) * 256 ^ n + get_be (drop ?k b)"
    using get_be_append [of "take ?k b" "drop ?k b"] True by simp
  moreover have "get_be (drop ?k b) < 256 ^ n" using get_be_bound [of "drop ?k b"] True by simp
  ultimately show ?thesis using True by (simp add: SetBytes_def Let_def)
next
  case False
  then have "get_be b < 256 ^ n"
    by (meson get_be_bound le_less_trans less_le_trans linorder_not_less one_less_numeral_iff order.strict_trans2 power_increasing semiring_norm(76) one_le_numeral)
  then show ?thesis using False by (simp add: SetBytes_def Let_def get_be_append)
qed

lemma BytesToHash_eq: "BytesToHash b = of_nat (get_be b)"
  by (simp add: BytesToHash_def get_be_SetBytes word_unat_eq_iff unat_of_nat)

lemma BytesToAddress_eq: "BytesToAddress b = of_nat (get_be b)"
  by (simp add: BytesToAddress_def get_be_SetBytes word_unat_eq_iff unat_of_nat)

lemma get_be_nat_bytes [simp]: "get_be (nat_bytes n) = n"
  by (induction n rule: nat_bytes.induct) (subst nat_bytes.simps, simp add: unat_of_nat)

lemma BigToHash_eq: "BigToHash b = of_int \<bar>b\<bar>"
  by (simp add: BigToHash_def Big_Bytes_def BytesToHash_eq of_nat_nat)

lemma Hash_Big_eq [simp]: "Hash_Big h = uint h"
  using unsigned_less [of h, where 'a = nat] by (simp add: Hash_Big_def)

lemma Address_Big_eq [simp]: "Address_Big a = uint a"
  using unsigned_less [of a, where 'a = nat] by (simp add: Address_Big_def)

lemma Address_Hash_eq: "Address_Hash a = ucast a"
  using unsigned_less [of a, where 'a = nat]
  by (simp add: Address_Hash_def BytesToHash_eq unsigned_ucast_eq)

lemma Uint64ToHash_eq: "Uint64ToHash n = ucast n"
  using unsigned_less [of n, where 'a = nat] by (simp add: Uint64ToHash_def get_be_append)

lemma U256_eq: "U256 x = x mod 2 ^ 256"
proof -
  have "tt256m1 = mask 256" by (simp add: tt256m1_def tt256_def mask_eq_exp_minus_1)
  then show ?thesis unfolding U256_def by (metis take_bit_eq_mask take_bit_eq_mod)
qed

lemma S256_U256:
  assumes "- (2 ^ 255) \<le> x" and "x < 2 ^ 255"
  shows "S256 (U256 x) = x"
proof (cases "x < 0")
  case True
  then have "x mod 2 ^ 256 = x + 2 ^ 256"
    using assms by (intro mod_pos_pos_trivial [of "x + 2 ^ 256" "2 ^ 256", simplified mod_add_self2]) auto
  then show ?thesis using assms by (simp add: U256_eq S256_def tt255_def tt256_def)
next
  case False
  then have "x mod 2 ^ 256 = x" using assms by (intro mod_pos_pos_trivial) auto
  then show ?thesis using assms by (simp add: U256_eq S256_def tt255_def)
qed

lemma unat_halve: "unat (drop_bit 1 w) = unat w div 2" for w :: u64
  by (simp add: drop_bit_eq_div unat_div_distrib)

lemma low_bit: "w AND 1 = 1 \<longleftrightarrow> odd (unat w)" for w :: u64
proof -
  have "unat (w AND 1) = unat w mod 2" by (simp add: and_one_eq unat_mod_distrib)
  then show ?thesis by (simp add: word_unat_eq_iff odd_iff_mod_2_eq_one)
qed

lemma mod_pow_Suc: "a mod 2 ^ Suc n = 2 * (a div 2 mod 2 ^ n) + a mod 2" for a :: nat
  by (simp add: mod_mult2_eq)

lemma exp_bits_correct:
  assumes "exp_bits n word (r, b) = (r', b')"
  shows "r' mod 2 ^ 256 = (r * b ^ (unat word mod 2 ^ n)) mod 2 ^ 256 \<and> b' mod 2 ^ 256 = b ^ (2 ^ n) mod 2 ^ 256
   \<and> (r mod 2 ^ 256 = r \<longrightarrow> r' mod 2 ^ 256 = r')"
  using assms
proof (induction n arbitrary: word r b)
  case 0
  then show ?case by simp
next
  case (Suc n)
  define M :: int where "M = 2 ^ 256"
  define r1 where "r1 = (if odd (unat word) then (r * b) mod M else r)"
  have "exp_bits n (drop_bit 1 word) (r1, (b * b) mod M) = (r', b')"
    using Suc.prems unfolding exp_bits.simps Let_def low_bit U256_eq r1_def M_def .
  note IH = Suc.IH [OF this, folded M_def, unfolded unat_halve]
  let ?e = "unat word div 2 mod 2 ^ n"
  have "b ^ (unat word mod 2 ^ Suc n) = b ^ (unat word mod 2) * (b * b) ^ ?e"
    unfolding mod_pow_Suc by (simp add: power_add power_mult power2_eq_square)
  moreover have "r1 mod M = (r * b ^ (unat word mod 2)) mod M" by (simp add: r1_def odd_iff_mod_2_eq_one)
  ultimately have "(r1 * ((b * b) mod M) ^ ?e) mod M = (r * b ^ (unat word mod 2 ^ Suc n)) mod M"
    by (metis (no_types, opaque_lifting) mod_mult_left_eq mod_mult_right_eq mult.assoc power_mod)
  moreover have "((b * b) mod M) ^ 2 ^ n mod M = b ^ 2 ^ Suc n mod M"
    by (simp add: power_mod power_mult power2_eq_square)
  moreover have "r mod M = r \<longrightarrow> r1 mod M = r1" by (simp add: r1_def)
  ultimately show ?case unfolding M_def [symmetric] using IH by metis
qed

fun limbs_value :: "u64 list \<Rightarrow> nat" where
  "limbs_value [] = 0"
| "limbs_value (w # ws) = unat w + 2 ^ 64 * limbs_value ws"

lemma limbs_value_nat_limbs [simp]: "limbs_value (nat_limbs n) = n"
  by (induction n rule: nat_limbs.induct) (subst nat_limbs.simps, simp add: unat_of_nat)

lemma exp_words_correct:
  "r mod 2 ^ 256 = r \<Longrightarrow> fst (exp_words ws (r, b)) = (r * b ^ limbs_value ws) mod 2 ^ 256"
proof (induction ws arbitrary: r b)
  case Nil
  then show ?case by simp
next
  case (Cons w ws)
  define M :: int where "M = 2 ^ 256"
  obtain r1 b1 where e: "exp_bits 64 w (r, b) = (r1, b1)" by fastforce
  have "unat w mod 2 ^ 64 = unat w" using unsigned_less [of w, where 'a = nat] by simp
  with exp_bits_correct [OF e] have c: "r1 mod M = (r * b ^ unat w) mod M" "b1 mod M = b ^ 2 ^ 64 mod M" "r1 mod M = r1"
    using Cons.prems by (simp_all add: M_def)
  have "fst (exp_words (w # ws) (r, b)) = (r1 * b1 ^ limbs_value ws) mod M"
    unfolding exp_words.simps e using Cons.IH c(3) by (simp add: M_def)
  also have "\<dots> = ((r * b ^ unat w) * (b ^ 2 ^ 64) ^ limbs_value ws) mod M"
    by (metis c(1,2) mod_mult_cong power_mod)
  also have "\<dots> = (r * b ^ limbs_value (w # ws)) mod M"
    by (simp add: power_add power_mult mult.assoc)
  finally show ?case by (simp add: M_def)
qed

section \<open>Properties\<close>

text \<open>C23.  The overflow flags of the checked operations are exact, and so is the returned word: the flag is
  raised exactly when the mathematical result leaves the 64-bit range, and the word is that result
  reduced to the range.\<close>

theorem safe_arithmetic_exact:
  "(case SafeAdd x y of (r, over) \<Rightarrow> (over \<longleftrightarrow> unat x + unat y \<ge> 2 ^ 64) \<and> unat r = (unat x + unat y) mod 2 ^ 64) \<and>
   (case SafeSub x y of (r, over) \<Rightarrow> (over \<longleftrightarrow> unat x < unat y) \<and> int (unat r) = (int (unat x) - int (unat y)) mod 2 ^ 64) \<and>
   (case SafeMul x y of (r, over) \<Rightarrow> (over \<longleftrightarrow> unat x * unat y \<ge> 2 ^ 64) \<and> unat r = (unat x * unat y) mod 2 ^ 64)"
proof (intro conjI)
  have lt: "unat x < 2 ^ 64" "unat y < 2 ^ 64"
    using unsigned_less [of x, where 'a = nat] unsigned_less [of y, where 'a = nat] by simp_all
  have max: "unat (MaxUint64 - x) = 2 ^ 64 - 1 - unat x"
    using lt unat_sub [of x MaxUint64] by (simp add: MaxUint64_def word_le_nat_alt)
  show "case SafeAdd x y of (r, over) \<Rightarrow> (over \<longleftrightarrow> unat x + unat y \<ge> 2 ^ 64) \<and> unat r = (unat x + unat y) mod 2 ^ 64"
    using lt max by (auto simp: SafeAdd_def word_less_nat_alt unat_word_ariths)
  show "case SafeSub x y of (r, over) \<Rightarrow> (over \<longleftrightarrow> unat x < unat y) \<and> int (unat r) = (int (unat x) - int (unat y)) mod 2 ^ 64"
    by (simp add: SafeSub_def word_less_nat_alt uint_word_ariths)
  have "unat (MaxUint64 div x) = (2 ^ 64 - 1) div unat x" by (simp add: MaxUint64_def unat_div_distrib)
  moreover have "(2 ^ 64 - 1) div unat x < unat y \<longleftrightarrow> 2 ^ 64 - 1 < unat x * unat y" if "0 < unat x"
    using that by (metis div_less_iff_less_mult mult.commute)
  ultimately show "case SafeMul x y of (r, over) \<Rightarrow> (over \<longleftrightarrow> unat x * unat y \<ge> 2 ^ 64) \<and> unat r = (unat x * unat y) mod 2 ^ 64"
    by (cases "x = 0 \<or> y = 0") (auto simp: SafeMul_def word_less_nat_alt unat_word_ariths unat_gt_0)
qed

text \<open>C22.  Exponentiation by squaring over the limbs of the exponent computes the power modulo
  \<open>2 ^ 256\<close>, for every base and every non-negative exponent.\<close>

theorem Exp_correct: "fst (Exp base exponent) = base ^ nat \<bar>exponent\<bar> mod 2 ^ 256"
  using exp_words_correct [of 1 "Big_Bits exponent" base] by (simp add: Exp_def Big_Bits_def)

text \<open>The base that the caller passes does not survive the call, although the comment promises that
  it is not changed: raising 3 to the power 1 leaves the caller's 3 squared 64 times.\<close>

theorem Exp_overwrites_base: "fst (Exp 3 1) = 3 \<and> snd (Exp 3 1) \<noteq> 3"
proof
  show "fst (Exp 3 1) = 3" using exp_words_correct [of 1 "Big_Bits 1" 3] by (simp add: Exp_def Big_Bits_def)
  obtain r b where e: "exp_bits 64 1 (1, 3) = (r, b)" by fastforce
  have "(3 :: int) ^ 2 ^ Suc n mod 4 = 1" for n
    using power_mod [of 9 "4 :: int" "2 ^ n"] by (simp add: power_mult)
  from this [of 63] have "(3 :: int) ^ 2 ^ 64 mod 4 = 1" by (simp only: numeral_eq_Suc pred_numeral_simps BitM.simps)
  moreover have "b mod 2 ^ 256 = 3 ^ 2 ^ 64 mod 2 ^ 256" using exp_bits_correct [OF e] by blast
  moreover have "(4 :: int) dvd 2 ^ 256" by simp
  ultimately have "b mod 2 ^ 256 mod 4 = 1" by (simp only: mod_mod_cancel)
  then have "b \<noteq> 3" by auto
  then show "snd (Exp 3 1) \<noteq> 3" by (simp add: Exp_def Big_Bits_def nat_limbs.simps e)
qed

end
