(* ===== verification/Miner_State.thy ===== *)
theory Miner_State
  imports Balance_Tracking Consensus_Types Sortition Common "HOL-Library.Signed_Division"
begin

text \<open>
  The miners registered in the account state and their stake: the storage layout of the miner
  contract (\<^verbatim>\<open>src/core/state/minerdb.go\<close>) and of the delegation contract (\<^verbatim>\<open>delegation.go\<close>), the
  tracker of the miners' total balance (\<^verbatim>\<open>MinerTracker\<close> in \<^verbatim>\<open>statedb.go\<close>) and the sortition weights
  computed from both (\<^verbatim>\<open>src/core/weight.go\<close>).
\<close>

section \<open>The miner contract's storage\<close>

definition MinerAddress :: address where "MinerAddress = 0x1000000000000000000000000000000000000002"
definition DelegationAddress :: address where "DelegationAddress = 0x1000000000000000000000000000000000000004"

definition zeroHash :: hash where "zeroHash = Uint64ToHash 0"
definition oneHash :: hash where "oneHash = Uint64ToHash 1"

definition MakeMinerInfoKey :: "crypto \<Rightarrow> AlgorandConfig \<Rightarrow> u64 \<Rightarrow> address \<Rightarrow> hash" where
  "MakeMinerInfoKey cr config height miner =
     (let minerMapHash = zeroHash; minerHash = Address_Hash miner;
          snHash = Uint64ToHash (GetIntervalSn config height)
      in Keccak256 cr (word_bytes 32 minerHash @
           word_bytes 32 (Keccak256 cr (word_bytes 32 snHash @ word_bytes 32 minerMapHash))))"

definition MakeNewMinersKey :: "crypto \<Rightarrow> u64 \<Rightarrow> hash" where
  "MakeNewMinersKey cr height =
     Keccak256 cr (word_bytes 32 (Uint64ToHash height) @ word_bytes 32 oneHash)"

text \<open>The first slot of an entry: 20 bytes of coinbase, 4 of lifespan, 8 of start.\<close>

definition parseStartLifespanCoinbase :: "hash \<Rightarrow> u64 \<times> u32 \<times> address" where
  "parseStartLifespanCoinbase h =
     (let data = word_bytes 32 h
      in (of_nat (get_be (drop 24 data)), of_nat (get_be (take 4 (drop 20 data))), BytesToAddress (take 20 data)))"

definition MakeStartLifespanCoinbase :: "u64 \<Rightarrow> u32 \<Rightarrow> address \<Rightarrow> hash" where
  "MakeStartLifespanCoinbase start lifespan coinbase =
     of_nat (get_be (word_bytes 20 coinbase @ word_bytes 4 lifespan @ word_bytes 8 start))"

definition isMinerOf :: "u64 \<Rightarrow> u64 \<Rightarrow> bool" where
  "isMinerOf height begin' \<longleftrightarrow> begin' \<noteq> 0 \<and> height \<ge> begin'"

definition GetMiner ::
    "crypto \<Rightarrow> AlgorandConfig \<Rightarrow> StateDB \<Rightarrow> u64 \<Rightarrow> address \<Rightarrow> u64 \<times> u32 \<times> address \<times> hash \<times> hash" where
  "GetMiner cr config stateDb height miner =
     (let minerInfoKey = MakeMinerInfoKey cr config height miner;
          (start, lifespan, coinbase) = parseStartLifespanCoinbase (GetState stateDb MinerAddress minerInfoKey)
      in if start = 0 then (0, 0, 0, 0, 0)
         else let offset = Hash_Big minerInfoKey + 1;
                  vrfVerifier = GetState stateDb MinerAddress (BigToHash offset);
                  voteVerifier = GetState stateDb MinerAddress (BigToHash (offset + 1))
              in (start, lifespan, coinbase, vrfVerifier, voteVerifier))"

definition IsMinerOf :: "crypto \<Rightarrow> AlgorandConfig \<Rightarrow> StateDB \<Rightarrow> u64 \<Rightarrow> address \<Rightarrow> bool" where
  "IsMinerOf cr config stateDb height miner =
     (let minerInfoKey = MakeMinerInfoKey cr config height miner;
          (start, _, _) = parseStartLifespanCoinbase (GetState stateDb MinerAddress minerInfoKey)
      in isMinerOf height start)"

text \<open>The loop from \<open>pos\<close> to \<open>end = pos + newMinerNum\<close>, by the distance left.\<close>

definition NewAddedMiners :: "crypto \<Rightarrow> StateDB \<Rightarrow> u64 \<Rightarrow> address list" where
  "NewAddedMiners cr stateDb height =
     (let newMinersKey = MakeNewMinersKey cr height;
          newMinerNum = Hash_Big (GetState stateDb MinerAddress newMinersKey);
          num = Big_Uint64 newMinerNum
      in if num = 0 then []
         else let pos = Hash_Big (Keccak256 cr (word_bytes 32 newMinersKey))
              in map (\<lambda>i. BytesToAddress (word_bytes 32 (GetState stateDb MinerAddress (BigToHash (pos + int i)))))
                   [0..<nat newMinerNum])"

section \<open>The delegation contract's storage\<close>

definition idSlotKey :: "crypto \<Rightarrow> address \<Rightarrow> hash" where
  "idSlotKey cr id' = Keccak256 cr (word_bytes 32 (Address_Hash id') @ word_bytes 32 (0 :: hash))"

definition addrSlotKey :: "crypto \<Rightarrow> address \<Rightarrow> hash" where
  "addrSlotKey cr addr = Keccak256 cr (word_bytes 32 (Address_Hash addr) @ word_bytes 32 (1 :: hash))"

definition GetTotalReceived :: "crypto \<Rightarrow> StateDB \<Rightarrow> address \<Rightarrow> int" where
  "GetTotalReceived cr statedb id' = Hash_Big (GetState statedb DelegationAddress (idSlotKey cr id'))"

definition GetTotalFund :: "crypto \<Rightarrow> StateDB \<Rightarrow> address \<Rightarrow> int" where
  "GetTotalFund cr statedb addr = Hash_Big (GetState statedb DelegationAddress (addrSlotKey cr addr))"

definition GetBalanceWithFund :: "crypto \<Rightarrow> StateDB \<Rightarrow> address \<Rightarrow> int" where
  "GetBalanceWithFund cr statedb addr = GetBalance statedb addr + GetTotalFund cr statedb addr"

section \<open>The tracker of the miners' total balance\<close>

record MinerTracker =
  mt_config :: AlgorandConfig
  mt_initialState :: StateDB
  mt_height :: u64
  mt_totalBalanceOfMiners :: int
  mt_objectsDirty :: "address list"

definition NewMinerTracker :: "AlgorandConfig \<Rightarrow> StateDB \<Rightarrow> u64 \<Rightarrow> int \<Rightarrow> MinerTracker option" where
  "NewMinerTracker config initialState height totalBalance =
     map_option (\<lambda>copy. \<lparr>mt_config = config, mt_initialState = copy, mt_height = height,
                         mt_totalBalanceOfMiners = totalBalance, mt_objectsDirty = []\<rparr>) (CopyState initialState)"

definition SetDirty :: "address \<Rightarrow> MinerTracker \<Rightarrow> MinerTracker" where
  "SetDirty addr tracker = tracker\<lparr>mt_objectsDirty := List.insert addr (mt_objectsDirty tracker)\<rparr>"

text \<open>A nil tracker reports zero; a total of zero panics.\<close>

definition TotalBalance :: "crypto \<Rightarrow> MinerTracker option \<Rightarrow> StateDB \<Rightarrow> int option" where
  "TotalBalance cr tr finalState =
     (case tr of
        None \<Rightarrow> Some 0
      | Some tracker \<Rightarrow>
          (let config = mt_config tracker;
               nextHeight = mt_height tracker + 1;
               added = foldl (\<lambda>t miner. t + GetBalanceWithFund cr finalState miner) 0
                         (NewAddedMiners cr finalState nextHeight);
               totalBalance =
                 (if GetIntervalSn config nextHeight = GetIntervalSn config (mt_height tracker) then
                    foldl (\<lambda>t addr.
                        if \<not> IsMinerOf cr config (mt_initialState tracker) (mt_height tracker) addr then t
                        else t + GetBalanceWithFund cr finalState addr
                               - GetBalanceWithFund cr (mt_initialState tracker) addr)
                      (added + mt_totalBalanceOfMiners tracker) (mt_objectsDirty tracker)
                  else added)
           in if totalBalance = 0 then None else Some totalBalance))"

text \<open>
  A state with its tracker.  \<^verbatim>\<open>Finalise\<close> reads the journal's entries after the dirty objects were
  flushed and before the journal is cleared.
\<close>

type_synonym tracked = "MinerTracker option \<times> StateDB"

definition EnableMinerTracker :: "AlgorandConfig \<Rightarrow> u64 \<Rightarrow> int \<Rightarrow> tracked \<Rightarrow> tracked option" where
  "EnableMinerTracker config height totalBalance ts =
     map_option (\<lambda>tr. (Some tr, snd ts)) (NewMinerTracker config (snd ts) height totalBalance)"

definition Finalise_tracked :: "crypto \<Rightarrow> bool \<Rightarrow> tracked \<Rightarrow> tracked" where
  "Finalise_tracked cr deleteEmptyObjects ts =
     (let (tr, s) = ts;
          flushed = fold (finalise_object cr deleteEmptyObjects) (map fst (j_dirties (sdb_journal s))) s
      in (map_option (fold SetDirty (tracked_dirties flushed)) tr, clearJournalAndRefund flushed))"

definition TotalBalanceOfMiners :: "crypto \<Rightarrow> tracked \<Rightarrow> int option" where
  "TotalBalanceOfMiners cr ts = TotalBalance cr (fst ts) (snd ts)"

section \<open>Sortition weights\<close>

text \<open>A zero divisor panics in \<^verbatim>\<open>QuoRem\<close>, which truncates towards zero.\<close>

definition GetWeight ::
    "crypto \<Rightarrow> AlgorandConfig \<Rightarrow> address \<Rightarrow> StateDB \<Rightarrow> int \<Rightarrow> vrf_output \<Rightarrow> (u64 \<times> u64) option" where
  "GetWeight cr config miner stateDb totalBalanceOfMiners h =
     (if totalBalanceOfMiners = 0 then None
      else let ownBalance = GetBalanceWithFund cr stateDb miner;
               hashHalf = push_bit 248 0x80 :: vrf_output;
               product = TotalWeight config * ownBalance;
               ownWeight = Big_Uint64 (product sdiv totalBalanceOfMiners);
               reminder = product smod totalBalanceOfMiners;
               delta = (if Big_Uint64 reminder \<noteq> 0 then
                          (let r = bytes_compare (word_bytes 32 h) (word_bytes 32 hashHalf)
                           in if r < 0 then 0 else if r > 0 then 1
                              else if ownWeight mod 2 = 0 then 0 else 1)
                        else 0)
           in Some (ownWeight + delta, Big_Uint64 (TotalWeight config)))"

definition getSortitionWeight ::
    "crypto \<Rightarrow> binomial \<Rightarrow> AlgorandConfig \<Rightarrow> StateDB \<Rightarrow> u64 \<Rightarrow> vrf_proof \<Rightarrow> address \<Rightarrow> int \<Rightarrow> u64 option" where
  "getSortitionWeight cr bin config parentStateDb height proof miner totalBalanceOfMiners =
     (case VrfProofToHash256 cr proof of
        None \<Rightarrow> Some 0
      | Some h \<Rightarrow>
          (case GetWeight cr config miner parentStateDb totalBalanceOfMiners h of
             None \<Rightarrow> None
           | Some (ownWeight, totalWeight) \<Rightarrow>
               (let (threshold, size) = GetCommitteeNumber height RoundStep1Proposal
                in Choose bin h ownWeight threshold size totalWeight)))"

definition GetSortitionWeightByState ::
    "crypto \<Rightarrow> binomial \<Rightarrow> AlgorandConfig \<Rightarrow> StateDB \<Rightarrow> Header \<Rightarrow> Header \<Rightarrow> u64 option" where
  "GetSortitionWeightByState cr bin config parentStateDb parent header =
     getSortitionWeight cr bin config parentStateDb (NumberU64 header) (Header_Proof header) (Proposer header)
       (h_TotalBalanceOfMiners parent)"

text \<open>The chain's lookups of a header by number and of a state by root are arguments; a missing
  header is a nil dereference, a missing state gives weight zero.\<close>

definition GetSortitionWeight ::
    "crypto \<Rightarrow> binomial \<Rightarrow> AlgorandConfig \<Rightarrow> (u64 \<Rightarrow> Header option) \<Rightarrow> (hash \<Rightarrow> StateDB option)
      \<Rightarrow> u64 \<Rightarrow> vrf_proof \<Rightarrow> address \<Rightarrow> u64 option" where
  "GetSortitionWeight cr bin config GetHeaderByNumber StateAt height proof miner =
     (case GetHeaderByNumber (height - 1) of
        None \<Rightarrow> None
      | Some parentHeader \<Rightarrow>
          (case StateAt (h_Root parentHeader) of
             None \<Rightarrow> Some 0
           | Some stateDb \<Rightarrow>
               getSortitionWeight cr bin config stateDb height proof miner (h_TotalBalanceOfMiners parentHeader)))"

section \<open>Lemmas\<close>

lemma foldl_add_sum: "foldl (\<lambda>t a. t + f a) z xs = z + sum_list (map f xs)" for f :: "'a \<Rightarrow> int"
  by (induction xs arbitrary: z) (simp_all add: algebra_simps)

lemma foldl_diff_sum:
  "foldl (\<lambda>t a. if \<not> P a then t else t + f a - g a) z xs = z + (\<Sum>a\<leftarrow>filter P xs. f a - g a)"
  for f :: "'a \<Rightarrow> int"
  by (induction xs arbitrary: z) (simp_all add: algebra_simps)

lemma sdiv_pos: "0 \<le> a \<Longrightarrow> 0 < b \<Longrightarrow> a sdiv b = a div b \<and> a smod b = a mod b" for a b :: int
  by (simp add: signed_divide_int_def signed_modulo_int_def sgn_if minus_div_mult_eq_mod)

section \<open>Properties\<close>

lemma slot_parse:
  "parseStartLifespanCoinbase (MakeStartLifespanCoinbase start lifespan coinbase) = (start, lifespan, coinbase)"
proof -
  let ?data = "word_bytes 20 coinbase @ word_bytes 4 lifespan @ word_bytes 8 start"
  have "get_be ?data < 256 ^ 32" using get_be_bound [of ?data] by simp
  then have "word_bytes 32 (MakeStartLifespanCoinbase start lifespan coinbase) = ?data"
    by (simp add: MakeStartLifespanCoinbase_def unat_of_nat put_be_get_be del: get_be_put_be)
  then show ?thesis
    using unsigned_less [of start, where 'a = nat] unsigned_less [of lifespan, where 'a = nat]
      unsigned_less [of coinbase, where 'a = nat]
    by (simp add: parseStartLifespanCoinbase_def BytesToAddress_eq)
qed

text \<open>What a total and an own balance must satisfy: the own balance is part of a positive total, and
  the total weight fits a machine word.\<close>

definition stake_ok :: "AlgorandConfig \<Rightarrow> int \<Rightarrow> int \<Rightarrow> bool" where
  "stake_ok config own totalBalance \<longleftrightarrow>
     0 \<le> own \<and> own \<le> totalBalance \<and> 0 < totalBalance \<and> 0 < TotalWeight config \<and> TotalWeight config < 2 ^ 64"

lemma uint_of_range: "0 \<le> x \<Longrightarrow> x < 2 ^ 64 \<Longrightarrow> uint (Big_Uint64 x) = x"
  by (simp add: Big_Uint64_def uint_word_of_int_eq take_bit_int_eq_self_iff)

lemma GetWeight_value:
  assumes "stake_ok config (GetBalanceWithFund cr s miner) totalBalance"
  shows "\<exists>w. GetWeight cr config miner s totalBalance h = Some (w, Big_Uint64 (TotalWeight config)) \<and>
    uint w \<le> TotalWeight config \<and>
    \<bar>uint w * totalBalance - TotalWeight config * GetBalanceWithFund cr s miner\<bar> < totalBalance"
proof -
  define p where "p = TotalWeight config * GetBalanceWithFund cr s miner"
  define q where "q = p div totalBalance"
  define r where "r = p mod totalBalance"
  have ok: "0 \<le> p" "0 < totalBalance" "TotalWeight config < 2 ^ 64" "p \<le> TotalWeight config * totalBalance"
    using assms by (auto simp: stake_ok_def p_def mult_left_mono)
  have pq: "p = q * totalBalance + r" and r: "0 \<le> r" "r < totalBalance"
    using ok(2) by (simp_all add: q_def r_def)
  have "q * totalBalance \<le> TotalWeight config * totalBalance" using pq r ok(4) by linarith
  then have q: "0 \<le> q" "q \<le> TotalWeight config"
    using ok by (simp_all add: q_def pos_imp_zdiv_nonneg_iff)
  have qlt: "q < TotalWeight config" if "r \<noteq> 0"
  proof (rule ccontr)
    assume "\<not> q < TotalWeight config"
    then have "q = TotalWeight config" using q(2) by simp
    then show False using pq r ok(4) that by simp
  qed
  have uq: "uint (Big_Uint64 q) = q" using q ok(3) by (intro uint_of_range) auto
  have inc: "uint (Big_Uint64 q + 1) = q + 1" if "r \<noteq> 0"
    using qlt [OF that] ok(3) q(1) uq by (simp add: uint_word_ariths)
  have r0: "Big_Uint64 r = 0" if "r = 0" using that by (simp add: Big_Uint64_def)
  obtain d :: u64 where d: "d = 0 \<or> d = 1 \<and> r \<noteq> 0"
    and g: "GetWeight cr config miner s totalBalance h = Some (Big_Uint64 q + d, Big_Uint64 (TotalWeight config))"
  proof -
    let ?c = "bytes_compare (word_bytes 32 h) (word_bytes 32 (push_bit 248 0x80 :: vrf_output))"
    let ?d = "(if Big_Uint64 r \<noteq> 0 then (if ?c < 0 then 0 else if ?c > 0 then 1
        else if Big_Uint64 q mod 2 = 0 then 0 else 1) else 0) :: u64"
    have "?d = 0 \<or> ?d = 1 \<and> r \<noteq> 0" using r0 by auto
    moreover have "GetWeight cr config miner s totalBalance h = Some (Big_Uint64 q + ?d, Big_Uint64 (TotalWeight config))"
      unfolding GetWeight_def Let_def p_def [symmetric] using ok sdiv_pos [of p totalBalance] q_def r_def by auto
    ultimately show thesis by (rule that)
  qed
  have "uint (Big_Uint64 q + d) \<le> TotalWeight config \<and> \<bar>uint (Big_Uint64 q + d) * totalBalance - p\<bar> < totalBalance"
    using d inc qlt uq q pq r by (auto simp: algebra_simps)
  with g show ?thesis unfolding p_def by blast
qed

text \<open>C20.  A miner's weight is its share of the total weight, rounded up or down: it is within one
  unit of \<open>TotalWeight * own / total\<close> and never above the total weight, so that the assertion inside
  the sortition holds for every miner whose balance is part of the recorded total.\<close>

theorem GetWeight_fair:
  assumes "stake_ok config (GetBalanceWithFund cr s miner) totalBalance"
  shows "\<exists>w W. GetWeight cr config miner s totalBalance h = Some (w, W) \<and> uint W = TotalWeight config \<and> w \<le> W \<and>
    \<bar>uint w * totalBalance - TotalWeight config * GetBalanceWithFund cr s miner\<bar> < totalBalance"
  using GetWeight_value [OF assms, of h] uint_of_range [of "TotalWeight config"] assms
  by (auto simp: stake_ok_def word_le_def)

definition demo_config :: AlgorandConfig where
  "demo_config = \<lparr>TimeoutTwoLambda = 2000, TotalWeight = 100, IntervalSize = 1000\<rparr>"

definition demo_state :: StateDB where
  "demo_state = NewStateDB (\<lambda>_. None)
     (\<lambda>a. if a = 7 then Some ((emptyAccount demo_crypto)\<lparr>acc_Balance := 2\<rparr>) else None)"

lemma demo_balance: "GetBalanceWithFund cr demo_state 7 = 2"
  by (simp add: GetBalanceWithFund_def GetTotalFund_def GetBalance_def GetState_def GetState_upd_def
      getStateObject_def demo_state_def NewStateDB_def DelegationAddress_def newObject_def setStateObject_def Let_def)

lemma GetWeight_fair_witness:
  "stake_ok demo_config (GetBalanceWithFund demo_crypto demo_state 7) 3 \<and>
   GetWeight demo_crypto demo_config 7 demo_state 3 0 = Some (66, 100) \<and>
   (\<exists>w W. GetWeight demo_crypto demo_config 7 demo_state 3 0 = Some (w, W) \<and> w \<le> W)"
proof (intro conjI)
  show ok: "stake_ok demo_config (GetBalanceWithFund demo_crypto demo_state 7) 3"
    unfolding demo_balance by (simp add: stake_ok_def demo_config_def)
  show "\<exists>w W. GetWeight demo_crypto demo_config 7 demo_state 3 0 = Some (w, W) \<and> w \<le> W"
    using GetWeight_fair [OF ok, of 0] by blast
  show "GetWeight demo_crypto demo_config 7 demo_state 3 0 = Some (66, 100)"
    by (simp add: GetWeight_def demo_balance) (simp add: demo_config_def sdiv_pos Big_Uint64_def bytes_compare_get_be Let_def)
qed

text \<open>C21.  The weight of a proposer never aborts and never exceeds the number of proposers: for every
  proof, every miner whose balance is part of the total, and every monotone distribution.\<close>

theorem proposer_weight_bounded:
  assumes "stake_ok config (GetBalanceWithFund cr s miner) totalBalance"
    and "20 \<le> TotalWeight config" and "\<forall>h n t W. monotone_cdf (bin h n t W)"
  shows "\<exists>j. getSortitionWeight cr bin config s height proof miner totalBalance = Some j \<and> unat j \<le> 20"
proof (cases "VrfProofToHash256 cr proof")
  case None
  then show ?thesis by (simp add: getSortitionWeight_def)
next
  case (Some h)
  obtain w where w: "GetWeight cr config miner s totalBalance h = Some (w, Big_Uint64 (TotalWeight config))"
      "uint w \<le> TotalWeight config"
    using GetWeight_value [OF assms(1)] by blast
  define W where "W = Big_Uint64 (TotalWeight config)"
  have u: "uint W = TotalWeight config" using assms(1) uint_of_range unfolding W_def stake_ok_def by simp
  then have le: "w \<le> W" "(20 :: u64) \<le> W" "W \<noteq> 0" using w(2) assms(2) by (auto simp: word_le_def)
  obtain j where "Choose bin h w 1 20 W = Some j" "unat j \<le> max 1 (min (unat w) (unat (20 :: u64)))"
    using Choose_first [OF le, of bin h 1] assms(3) unfolding first_in_def by blast
  then show ?thesis
    using Some w(1) by (auto simp: getSortitionWeight_def W_def GetCommitteeNumber_def CommitteeConfigv1_def)
qed

lemma proposer_weight_bounded_witness:
  "\<exists>j. getSortitionWeight demo_crypto exact_binomial demo_config demo_state 1 0 7 3 = Some j \<and> unat j \<le> 20"
proof (rule proposer_weight_bounded)
  show "stake_ok demo_config (GetBalanceWithFund demo_crypto demo_state 7) 3"
    unfolding demo_balance by (simp add: stake_ok_def demo_config_def)
  show "20 \<le> TotalWeight demo_config" by (simp add: demo_config_def)
  show "\<forall>h n t W. monotone_cdf (exact_binomial h n t W)" by (simp add: exact_binomial_monotone)
qed

section \<open>The tracked total over a block\<close>

datatype block_op = BlockOp sdb_op | BlockPrepare hash hash u64 | BlockFinalise bool

fun exec_block :: "crypto \<Rightarrow> tracked \<Rightarrow> block_op list \<Rightarrow> tracked option" where
  "exec_block cr ts [] = Some ts"
| "exec_block cr ts (BlockOp op # ops) =
     (case exec_op cr (snd ts) op of None \<Rightarrow> None | Some s \<Rightarrow> exec_block cr (fst ts, s) ops)"
| "exec_block cr ts (BlockPrepare th bh ti # ops) = exec_block cr (fst ts, Prepare th bh ti (snd ts)) ops"
| "exec_block cr ts (BlockFinalise d # ops) = exec_block cr (Finalise_tracked cr d ts) ops"

text \<open>The tracker knows every account whose balance changed up to the last finished transaction.\<close>

definition tracking :: "crypto \<Rightarrow> MinerTracker \<Rightarrow> StateDB \<Rightarrow> tracked \<Rightarrow> bool" where
  "tracking cr t0 init ts \<longleftrightarrow>
     (\<exists>t s0. fst ts = Some t \<and> t\<lparr>mt_objectsDirty := []\<rparr> = t0 \<and> distinct (mt_objectsDirty t) \<and>
        boundary cr s0 \<and> nested cr s0 (snd ts) \<and> present (snd ts) \<and>
        (\<forall>a. balance_of cr s0 a \<noteq> balance_of cr init a \<longrightarrow> a \<in> set (mt_objectsDirty t)))"

lemma fold_SetDirty:
  "mt_objectsDirty (fold SetDirty as t) = fold List.insert as (mt_objectsDirty t)"
  "(fold SetDirty as t)\<lparr>mt_objectsDirty := []\<rparr> = t\<lparr>mt_objectsDirty := []\<rparr>"
  by (induction as arbitrary: t) (simp_all add: SetDirty_def)

lemma fold_insert: "set (fold List.insert as xs) = set as \<union> set xs" "distinct xs \<Longrightarrow> distinct (fold List.insert as xs)"
  by (induction as arbitrary: xs) auto

lemma tracking_Finalise:
  assumes "tracking cr t0 init ts"
  shows "tracking cr t0 init (Finalise_tracked cr d ts)"
proof -
  obtain t s0 s where t: "ts = (Some t, s)" "t\<lparr>mt_objectsDirty := []\<rparr> = t0" "distinct (mt_objectsDirty t)"
    and b: "boundary cr s0" "nested cr s0 s" "present s"
    and k: "\<forall>a. balance_of cr s0 a \<noteq> balance_of cr init a \<longrightarrow> a \<in> set (mt_objectsDirty t)"
    using assms by (cases ts) (auto simp: tracking_def)
  have f: "Finalise_tracked cr d ts = (Some (fold SetDirty (tracked_dirties (flush cr d s)) t), Finalise cr d s)"
    by (simp add: Finalise_tracked_def t(1) Finalise_def Let_def)
  have bd: "boundary cr (Finalise cr d s)" by (rule Finalise_boundary [OF b(1,2)])
  then have "nested cr (Finalise cr d s) (Finalise cr d s)" "present (Finalise cr d s)"
    by (auto simp: boundary_def present_def intro: nested_refl)
  moreover have "a \<in> set (mt_objectsDirty (fold SetDirty (tracked_dirties (flush cr d s)) t))"
    if "balance_of cr (Finalise cr d s) a \<noteq> balance_of cr init a" for a
    using that k Finalise_reports [OF b, of d a] by (simp add: fold_SetDirty fold_insert) metis
  ultimately show ?thesis
    unfolding tracking_def f using bd t fold_insert(2)
    by (intro exI [of _ "fold SetDirty (tracked_dirties (flush cr d s)) t"] exI [of _ "Finalise cr d s"])
      (auto simp: fold_SetDirty)
qed

lemma tracking_op:
  assumes "tracking cr t0 init (tr, s)" "exec_op cr s op = Some s'"
  shows "tracking cr t0 init (tr, s')"
proof -
  obtain t s0 where t: "tr = Some t" "t\<lparr>mt_objectsDirty := []\<rparr> = t0" "distinct (mt_objectsDirty t)"
    and b: "boundary cr s0" "nested cr s0 s" "present s"
    and k: "\<forall>a. balance_of cr s0 a \<noteq> balance_of cr init a \<longrightarrow> a \<in> set (mt_objectsDirty t)"
    using assms(1) by (auto simp: tracking_def)
  have "nested cr s0 s'" using nested_step [OF b(2) assms(2)] b(1) by (simp add: boundary_def)
  moreover have "present s'"
  proof (cases "\<exists>r. op = OpRevert r")
    case True
    then show ?thesis using present_revert [OF b(2) _ b(3)] assms(2) b(1) by (auto simp: boundary_def)
  next
    case False
    then show ?thesis using exec_op_grows [OF assms(2)] grows_present b(3) by blast
  qed
  ultimately show ?thesis unfolding tracking_def using t b(1) k by auto
qed

lemma tracking_Prepare:
  assumes "tracking cr t0 init (tr, s)"
  shows "tracking cr t0 init (tr, Prepare th bh ti s)"
proof -
  have "nested cr s0 (Prepare th bh ti s)" if "nested cr s0 s" for s0
    using nested_plain [OF that] Prepare_extends [of s cr] that by (auto simp: nested_def extends_def)
  then show ?thesis using assms grows_present [OF grows_others(4)] unfolding tracking_def by fastforce
qed

lemma tracking_block: "tracking cr t0 init ts \<Longrightarrow> exec_block cr ts ops = Some ts' \<Longrightarrow> tracking cr t0 init ts'"
proof (induction ops arbitrary: ts)
  case (Cons bop ops)
  obtain tr s where ts: "ts = (tr, s)" by force
  show ?case
  proof (cases bop)
    case (BlockOp op)
    then show ?thesis using Cons ts by (auto split: option.splits intro: tracking_op)
  next
    case (BlockPrepare th bh ti)
    then show ?thesis using Cons ts by (auto intro: tracking_Prepare)
  next
    case (BlockFinalise d)
    then show ?thesis using Cons.IH [OF tracking_Finalise [OF Cons.prems(1)]] Cons.prems(2) by simp
  qed
qed simp

lemma tracking_start:
  assumes "EnableMinerTracker config height b (None, NewStateDB codes tr) = Some ts"
  shows "\<exists>t0. mt_config t0 = config \<and> mt_initialState t0 = NewStateDB codes tr \<and> mt_height t0 = height \<and>
    mt_totalBalanceOfMiners t0 = b \<and> tracking cr t0 (NewStateDB codes tr) ts"
proof -
  let ?t = "\<lparr>mt_config = config, mt_initialState = NewStateDB codes tr, mt_height = height,
    mt_totalBalanceOfMiners = b, mt_objectsDirty = []\<rparr>"
  have "CopyState (NewStateDB codes tr) = Some (NewStateDB codes tr)"
    by (simp add: CopyState_def NewStateDB_def newJournal_def)
  then have "ts = (Some ?t, NewStateDB codes tr)"
    using assms by (simp add: EnableMinerTracker_def NewMinerTracker_def)
  moreover have "nested cr (NewStateDB codes tr) (NewStateDB codes tr)" "present (NewStateDB codes tr)"
    using boundary_new [of cr codes tr] by (auto simp: boundary_def present_def intro: nested_refl)
  ultimately show ?thesis
    using boundary_new [of cr codes tr] by (intro exI [of _ ?t]) (auto simp: tracking_def)
qed

lemma exec_block_append:
  "exec_block cr ts (ops @ ops') = Option.bind (exec_block cr ts ops) (\<lambda>ts. exec_block cr ts ops')"
  by (induction cr ts ops rule: exec_block.induct) (auto split: option.split)

text \<open>After a finished block the balance of every account the tracker does not know is the initial one.\<close>

lemma tracked_block:
  assumes "EnableMinerTracker config height b (None, NewStateDB codes tr) = Some ts0"
    and "exec_block cr ts0 (ops @ [BlockFinalise d]) = Some ts" and "fst ts = Some t"
  shows "t\<lparr>mt_objectsDirty := []\<rparr> = \<lparr>mt_config = config, mt_initialState = NewStateDB codes tr, mt_height = height,
      mt_totalBalanceOfMiners = b, mt_objectsDirty = []\<rparr>"
    and "distinct (mt_objectsDirty t)"
    and "GetBalance (snd ts) a \<noteq> GetBalance (NewStateDB codes tr) a \<Longrightarrow> a \<in> set (mt_objectsDirty t)"
proof -
  let ?init = "NewStateDB codes tr"
  obtain t0 where t0: "mt_config t0 = config" "mt_initialState t0 = ?init" "mt_height t0 = height"
      "mt_totalBalanceOfMiners t0 = b" "tracking cr t0 ?init ts0"
    using tracking_start [OF assms(1), of cr] by blast
  obtain ts1 where ts1: "exec_block cr ts0 ops = Some ts1" "ts = Finalise_tracked cr d ts1"
    using assms(2) by (auto simp: exec_block_append bind_eq_Some_conv)
  have tr1: "tracking cr t0 ?init ts1" by (rule tracking_block [OF t0(5) ts1(1)])
  then obtain t1 s0 s where 1: "ts1 = (Some t1, s)" "boundary cr s0" "nested cr s0 s" "present s"
      "\<forall>a. balance_of cr s0 a \<noteq> balance_of cr ?init a \<longrightarrow> a \<in> set (mt_objectsDirty t1)"
    by (cases ts1) (auto simp: tracking_def)
  have t: "t = fold SetDirty (tracked_dirties (flush cr d s)) t1" and s: "snd ts = Finalise cr d s"
    using ts1(2) 1(1) assms(3) by (simp_all add: Finalise_tracked_def Finalise_def Let_def)
  have "tracking cr t0 ?init ts" unfolding ts1(2) by (rule tracking_Finalise [OF tr1])
  then have "t\<lparr>mt_objectsDirty := []\<rparr> = t0" "distinct (mt_objectsDirty t)"
    using assms(3) by (auto simp: tracking_def)
  then show "distinct (mt_objectsDirty t)"
    "t\<lparr>mt_objectsDirty := []\<rparr> = \<lparr>mt_config = config, mt_initialState = ?init, mt_height = height,
      mt_totalBalanceOfMiners = b, mt_objectsDirty = []\<rparr>"
    using t0 by auto
  have ok: "objects_ok (Finalise cr d s)" "objects_ok ?init"
    using Finalise_boundary [OF 1(2,3), of d] boundary_new [of cr codes tr] by (auto simp: boundary_def sdb_ok_def)
  assume "GetBalance (snd ts) a \<noteq> GetBalance ?init a"
  then have "balance_of cr (Finalise cr d s) a \<noteq> balance_of cr ?init a"
    using GetBalance_view [OF ok(1), of a cr] GetBalance_view [OF ok(2), of a cr] s by simp
  then show "a \<in> set (mt_objectsDirty t)"
    using 1(5) Finalise_reports [OF 1(2-4), of d a] by (simp add: t fold_SetDirty fold_insert) metis
qed

text \<open>C17.  The total that a block records for its successor is the sum of the balances, with funds, of
  all miners of the next height: those of this height and those that join.  The tracker computes it from
  the previous total and the accounts it was told about only, and no operation, snapshot or revert
  inside the block makes it miss one.  Assumed of the contracts: the joining miners are listed once
  and are new, and the block records a balance change for every miner whose fund it changes.  A sum
  of zero is the panic.\<close>

theorem tracked_total_exact:
  assumes "EnableMinerTracker config height b (None, NewStateDB codes tr) = Some ts0"
    and "exec_block cr ts0 (ops @ [BlockFinalise d]) = Some ts" and "fst ts = Some t"
    and "miners = {a. IsMinerOf cr config (NewStateDB codes tr) height a}"
    and "b = (\<Sum>a \<in> miners. GetBalanceWithFund cr (NewStateDB codes tr) a)"
    and "joining = NewAddedMiners cr (snd ts) (height + 1)"
    and "distinct joining" and "miners \<inter> set joining = {}"
    and "GetIntervalSn config (height + 1) = GetIntervalSn config height"
    and "\<forall>a \<in> miners. GetTotalFund cr (snd ts) a \<noteq> GetTotalFund cr (NewStateDB codes tr) a \<longrightarrow> a \<in> set (mt_objectsDirty t)"
  shows "TotalBalanceOfMiners cr ts =
    (let all = (\<Sum>a \<in> miners \<union> set joining. GetBalanceWithFund cr (snd ts) a) in if all = 0 then None else Some all)"
proof -
  let ?init = "NewStateDB codes tr"
  let ?new = "GetBalanceWithFund cr (snd ts)" and ?old = "GetBalanceWithFund cr ?init"
  note T = tracked_block [OF assms(1-3)]
  have f: "mt_config t = config" "mt_initialState t = ?init" "mt_height t = height" "mt_totalBalanceOfMiners t = b"
    using arg_cong [OF T(1), of mt_config] arg_cong [OF T(1), of mt_initialState] arg_cong [OF T(1), of mt_height]
      arg_cong [OF T(1), of mt_totalBalanceOfMiners] by simp_all
  have same: "?new a = ?old a" if "a \<in> miners" "a \<notin> set (mt_objectsDirty t)" for a
    using that T(3) [of a] assms(10) by (auto simp: GetBalanceWithFund_def)
  have fin: "finite miners" by simp
  have m: "IsMinerOf cr config ?init height a \<longleftrightarrow> a \<in> miners" for a by (simp add: assms(4))
  have "(\<Sum>a\<leftarrow>filter (\<lambda>a. a \<in> miners) (mt_objectsDirty t). ?new a - ?old a)
      = (\<Sum>a \<in> set (mt_objectsDirty t) \<inter> miners. ?new a - ?old a)"
    using T(2) by (simp add: sum_list_distinct_conv_sum_set Int_def)
  also have "\<dots> = (\<Sum>a \<in> miners. ?new a - ?old a)"
    using same fin by (intro sum.mono_neutral_left) auto
  also have "\<dots> = (\<Sum>a \<in> miners. ?new a) - b" by (simp add: sum_subtractf assms(5))
  finally have dirty: "(\<Sum>a\<leftarrow>filter (\<lambda>a. a \<in> miners) (mt_objectsDirty t). ?new a - ?old a) = (\<Sum>a \<in> miners. ?new a) - b" .
  have "(\<Sum>a\<leftarrow>joining. ?new a) = (\<Sum>a \<in> set joining. ?new a)"
    using assms(7) by (simp add: sum_list_distinct_conv_sum_set)
  then have "(\<Sum>a\<leftarrow>joining. ?new a) + b + ((\<Sum>a \<in> miners. ?new a) - b) = (\<Sum>a \<in> miners \<union> set joining. ?new a)"
    using assms(8) fin by (simp add: sum.union_disjoint)
  then show ?thesis
    unfolding TotalBalanceOfMiners_def TotalBalance_def assms(3) option.case f Let_def assms(6) [symmetric]
    by (simp add: assms(9) foldl_add_sum foldl_diff_sum m dirty)
qed

text \<open>A block at height 5 that pays 3 to the only miner, whose balance was 5: keys are the first 32 bytes
  of what is hashed, and the miner contract's storage holds the miner's start 1.\<close>

definition key_crypto :: crypto where
  "key_crypto = demo_crypto\<lparr>Keccak256 := (\<lambda>bs. of_nat (get_be (take 32 bs)))\<rparr>"

definition miner_trie :: "address \<Rightarrow> Account option" where
  "miner_trie a =
     (if a = 7 then Some ((emptyAccount key_crypto)\<lparr>acc_Balance := 5\<rparr>)
      else if a = MinerAddress then Some ((emptyAccount key_crypto)\<lparr>acc_Root := (\<lambda>k. if k = 7 then 1 else 0)\<rparr>)
      else None)"

abbreviation miner_start :: StateDB where "miner_start \<equiv> NewStateDB (\<lambda>_. None) miner_trie"

definition miner_block :: "tracked option" where
  "miner_block = Option.bind (EnableMinerTracker demo_config 5 5 (None, miner_start))
     (\<lambda>ts. exec_block key_crypto ts ([BlockOp (OpAddBalance 7 3)] @ [BlockFinalise True]))"

lemma GetState_new: "GetState (NewStateDB codes tr) a k = (case tr a of None \<Rightarrow> 0 | Some acc \<Rightarrow> acc_Root acc k)"
  by (simp add: GetState_def GetState_upd_def getStateObject_def NewStateDB_def so_GetState_def so_GetCommittedState_def
      getTrie_def newObject_def setStateObject_def Let_def split: option.split)

lemma key_info: "MakeMinerInfoKey key_crypto demo_config h a = ucast a"
  using unsigned_less [of a, where 'a = nat]
  by (simp add: MakeMinerInfoKey_def key_crypto_def Address_Hash_eq unsigned_ucast_eq take_bit_nat_eq_self)

lemma start_of: "fst (parseStartLifespanCoinbase 0) = 0" "fst (parseStartLifespanCoinbase 1) = 1"
  by code_simp+

lemma miner_start_members: "{a. IsMinerOf key_crypto demo_config miner_start 5 a} = {7}"
proof -
  have "(ucast a :: hash) = 7 \<longleftrightarrow> a = 7" for a :: address
    using unsigned_less [of a, where 'a = nat]
    by (simp add: word_unat_eq_iff unsigned_ucast_eq take_bit_nat_eq_self)
  then have "GetState miner_start MinerAddress (ucast a) = (if a = 7 then 1 else 0)" for a :: address
    by (simp add: GetState_new miner_trie_def MinerAddress_def)
  then have "IsMinerOf key_crypto demo_config miner_start 5 a \<longleftrightarrow> a = 7" for a
    using start_of by (simp add: IsMinerOf_def key_info case_prod_beta isMinerOf_def)
  then show ?thesis by blast
qed

lemma miner_block_result:
  "\<exists>t s. miner_block = Some (Some t, s) \<and> GetState s MinerAddress 6 = 0 \<and> GetBalance s 7 = 8 \<and>
     fst (getStateObject s DelegationAddress) = None"
proof -
  have "(case miner_block of Some (Some t, s) \<Rightarrow> GetState s MinerAddress 6 = 0 \<and> GetBalance s 7 = 8 \<and>
     Option.is_none (fst (getStateObject s DelegationAddress)) | _ \<Rightarrow> False)"
    by code_simp
  then show ?thesis by (auto split: option.splits prod.splits simp: Option.is_none_def)
qed

lemma no_fund: "fst (getStateObject s DelegationAddress) = None \<Longrightarrow> GetTotalFund cr s a = 0"
  by (auto simp: GetTotalFund_def GetState_def GetState_upd_def split: prod.splits)

lemma key_new: "MakeNewMinersKey key_crypto 6 = 6"
  by (simp add: MakeNewMinersKey_def key_crypto_def Uint64ToHash_eq)

lemma tracked_total_exact_witness:
  "\<exists>ts. miner_block = Some ts \<and> TotalBalanceOfMiners key_crypto ts = Some 8"
proof -
  obtain t s where b: "miner_block = Some (Some t, s)" "GetState s MinerAddress 6 = 0" "GetBalance s 7 = 8"
      "fst (getStateObject s DelegationAddress) = None"
    using miner_block_result by blast
  then obtain ts0 where ts0: "EnableMinerTracker demo_config 5 5 (None, miner_start) = Some ts0"
      "exec_block key_crypto ts0 ([BlockOp (OpAddBalance 7 3)] @ [BlockFinalise True]) = Some (Some t, s)"
    by (auto simp: miner_block_def bind_eq_Some_conv)
  have no_new: "[] = NewAddedMiners key_crypto (snd (Some t, s)) (5 + 1)"
    using b(2) by (simp add: NewAddedMiners_def key_new Big_Uint64_def)
  have fund0: "GetTotalFund key_crypto miner_start a = 0" for a
    by (rule no_fund) (simp add: getStateObject_def NewStateDB_def miner_trie_def DelegationAddress_def MinerAddress_def)
  have "GetBalance miner_start 7 = 5"
    by (simp add: GetBalance_def getStateObject_def NewStateDB_def miner_trie_def newObject_def Let_def)
  then have start: "5 = (\<Sum>a \<in> {7}. GetBalanceWithFund key_crypto miner_start a)"
    by (simp add: GetBalanceWithFund_def fund0)
  have "TotalBalanceOfMiners key_crypto (Some t, s) = (let all = (\<Sum>a \<in> {7} \<union> set []. GetBalanceWithFund key_crypto (snd (Some t, s)) a)
      in if all = 0 then None else Some all)"
    by (rule tracked_total_exact [OF ts0 _ miner_start_members [symmetric] start no_new])
      (simp_all add: fund0 no_fund [OF b(4)] demo_config_def GetIntervalSn_def)
  then have "TotalBalanceOfMiners key_crypto (Some t, s) = Some 8"
    using b by (simp add: GetBalanceWithFund_def no_fund Let_def)
  with b(1) show ?thesis by blast
qed

end
