(* ===== verification/Miner_Keys.thy ===== *)
theory Miner_Keys
  imports Miner_State
begin

text \<open>
  The keys of a miner and their public counterparts (\<^verbatim>\<open>minerkey.go\<close>, \<^verbatim>\<open>minerverifier.go\<close>,
  \<^verbatim>\<open>minerutils.go\<close>) and the key files (\<^verbatim>\<open>minerkeymanager.go\<close>), all under
  \<^verbatim>\<open>src/consensus/algorand/core\<close>.  Shown: what a miner proves or signs verifies under its registered
  verifier, and the registration survives the contract's storage.
\<close>

section \<open>Keys and verifiers\<close>

record MinerKey =
  mk_config :: AlgorandConfig
  mk_Miner :: address
  mk_Coinbase :: address
  mk_Start :: u64
  mk_End :: u64
  mk_Lifespan :: u32
  mk_VrfKey :: private_key
  mk_VoteKey :: ForwardSecurePrivateKey

record MinerVerifier =
  mv_config :: AlgorandConfig
  mv_miner :: address
  mv_coinbase :: address
  mv_start :: u64
  mv_end :: u64
  mv_lifespan :: u32
  mv_vrfVerifier :: public_key
  mv_voteVerifier :: public_key

datatype miner_error =
    NotRegistered | VrfProveFailed | ProofToHashFailed | InvalidVrfKey | InvalidProof | InvalidHeight | InvalidOffset
  | BadProof | BadSeed | InvalidVrfProof | ZeroWeight | BadSignature | InvalidStartLifespan
  | LifespanTooLong | KeyExists | NoFile | BadFile

text \<open>The signed data of a seed and of a sortition, in the encoding of their fields.\<close>

record seedData =
  seed_Miner :: address
  seed_Height :: u64
  seed_ParentSeed :: vrf_output
  seed_ParentHash :: hash

definition seedData_Bytes :: "crypto \<Rightarrow> seedData \<Rightarrow> bytes" where
  "seedData_Bytes cr d = EncodeToBytes cr (RList [RAddress (seed_Miner d), RU64 (seed_Height d),
     RHash (seed_ParentSeed d), RHash (seed_ParentHash d)])"

record sortitionData =
  sort_Miner :: address
  sort_Height :: u64
  sort_Round :: u32
  sort_Step :: u32
  sort_ParentSeed :: vrf_output

definition sortitionData_Bytes :: "crypto \<Rightarrow> sortitionData \<Rightarrow> bytes" where
  "sortitionData_Bytes cr d = EncodeToBytes cr (RList [RAddress (sort_Miner d), RU64 (sort_Height d),
     RU32 (sort_Round d), RU32 (sort_Step d), RHash (sort_ParentSeed d)])"

definition MinerKey_Validate :: "MinerKey \<Rightarrow> u64 \<Rightarrow> bool" where
  "MinerKey_Validate mk height \<longleftrightarrow> mk_Start mk \<noteq> 0 \<and> mk_Start mk \<le> height \<and> height < mk_End mk"

definition MinerVerifier_Validate :: "MinerVerifier \<Rightarrow> u64 \<Rightarrow> bool" where
  "MinerVerifier_Validate mv height \<longleftrightarrow> mv_start mv \<noteq> 0 \<and> mv_start mv \<le> height \<and> height < mv_end mv"

definition MinerKey_Seed ::
    "crypto \<Rightarrow> MinerKey \<Rightarrow> u64 \<Rightarrow> vrf_output \<Rightarrow> hash \<Rightarrow> miner_error + vrf_output \<times> vrf_proof" where
  "MinerKey_Seed cr mk height parentSeed parentHash =
     (if \<not> MinerKey_Validate mk height then Inl NotRegistered
      else let data = \<lparr>seed_Miner = mk_Miner mk, seed_Height = height, seed_ParentSeed = parentSeed, seed_ParentHash = parentHash\<rparr>
           in case VrfProve cr (mk_VrfKey mk) (seedData_Bytes cr data) of
                None \<Rightarrow> Inl VrfProveFailed
              | Some proof \<Rightarrow>
                  (case VrfProofToHash256 cr proof of
                     None \<Rightarrow> Inl ProofToHashFailed
                   | Some seed \<Rightarrow> Inr (seed, proof)))"

text \<open>In the functions below \<^const>\<open>None\<close> is a panic: of the weight's division by zero, of the assertion
  of the sortition, or of a lifespan of zero.\<close>

definition MinerKey_Sortition ::
    "crypto \<Rightarrow> binomial \<Rightarrow> MinerKey \<Rightarrow> u64 \<Rightarrow> u32 \<Rightarrow> u32 \<Rightarrow> vrf_output \<Rightarrow> StateDB \<Rightarrow> int
      \<Rightarrow> (miner_error + vrf_output \<times> vrf_proof \<times> u64) option" where
  "MinerKey_Sortition cr bin mk height round' step parentSeed parentState totalBalanceOfMiners =
     (if \<not> MinerKey_Validate mk height then Some (Inl NotRegistered)
      else let data = \<lparr>sort_Miner = mk_Miner mk, sort_Height = height, sort_Round = round', sort_Step = step,
                       sort_ParentSeed = parentSeed\<rparr>
           in case VrfProve cr (mk_VrfKey mk) (sortitionData_Bytes cr data) of
                None \<Rightarrow> Some (Inl InvalidVrfKey)
              | Some proof \<Rightarrow>
                  (case VrfProofToHash256 cr proof of
                     None \<Rightarrow> Some (Inl InvalidProof)
                   | Some h \<Rightarrow>
                       (case GetWeight cr (mk_config mk) (mk_Miner mk) parentState totalBalanceOfMiners h of
                          None \<Rightarrow> None
                        | Some (ownWeight, totalWeight) \<Rightarrow>
                            let (threshold, size') = GetCommitteeNumber height step
                            in map_option (\<lambda>j. Inr (h, proof, j))
                                 (Choose bin h ownWeight threshold size' totalWeight))))"

definition MinerKey_Sign ::
    "crypto \<Rightarrow> MinerKey \<Rightarrow> u64 \<Rightarrow> bytes \<Rightarrow> (miner_error + ForwardSecureSignature) option" where
  "MinerKey_Sign cr mk height data =
     (if \<not> MinerKey_Validate mk height then Some (Inl InvalidHeight)
      else if mk_Lifespan mk = 0 then None
      else let offset = height div ucast (mk_Lifespan mk)
           in if \<not> ValidOffset (mk_VoteKey mk) offset then Some (Inl InvalidOffset)
              else Some (Inr (ForwardSecureSign cr (mk_VoteKey mk) offset data)))"

definition MinerKey_Update :: "u64 \<Rightarrow> MinerKey \<Rightarrow> (u64 \<times> MinerKey) option" where
  "MinerKey_Update height mk =
     (if mk_Lifespan mk = 0 then None
      else let offset = height div ucast (mk_Lifespan mk);
               (deleted, sk) = ForwardSecureUpdate (mk_VoteKey mk) offset
           in Some (deleted, mk\<lparr>mk_VoteKey := sk\<rparr>))"

definition ToVerifier :: "crypto \<Rightarrow> MinerKey \<Rightarrow> MinerVerifier" where
  "ToVerifier cr mk =
     \<lparr>mv_config = mk_config mk, mv_miner = mk_Miner mk, mv_coinbase = mk_Coinbase mk, mv_start = mk_Start mk,
      mv_end = mk_End mk, mv_lifespan = mk_Lifespan mk,
      mv_vrfVerifier = VrfPrivateKeyToPublicKey cr (mk_VrfKey mk),
      mv_voteVerifier = ForwardSecurePrivateKeyToPublicKey (mk_VoteKey mk)\<rparr>"

section \<open>Verification\<close>

definition VerifySeed ::
    "crypto \<Rightarrow> MinerVerifier \<Rightarrow> u64 \<Rightarrow> vrf_output \<Rightarrow> hash \<Rightarrow> vrf_output \<Rightarrow> vrf_proof \<Rightarrow> miner_error option" where
  "VerifySeed cr mv height parentSeed parentHash seed proof =
     (if \<not> MinerVerifier_Validate mv height then Some NotRegistered
      else let data = \<lparr>seed_Miner = mv_miner mv, seed_Height = height, seed_ParentSeed = parentSeed, seed_ParentHash = parentHash\<rparr>
           in case VrfVerify256 cr (mv_vrfVerifier mv) proof (seedData_Bytes cr data) of
                None \<Rightarrow> Some BadProof
              | Some seedCheck \<Rightarrow> if seed \<noteq> seedCheck then Some BadSeed else None)"

definition VerifySortition ::
    "crypto \<Rightarrow> binomial \<Rightarrow> MinerVerifier \<Rightarrow> u64 \<Rightarrow> u32 \<Rightarrow> u32 \<Rightarrow> vrf_proof \<Rightarrow> vrf_output \<Rightarrow> StateDB \<Rightarrow> int
      \<Rightarrow> (miner_error option \<times> u64) option" where
  "VerifySortition cr bin mv height round' step proof parentSeed parentState totalBalanceOfMiners =
     (if \<not> MinerVerifier_Validate mv height then Some (Some NotRegistered, 0)
      else let data = \<lparr>sort_Miner = mv_miner mv, sort_Height = height, sort_Round = round', sort_Step = step,
                       sort_ParentSeed = parentSeed\<rparr>
           in case VrfVerify256 cr (mv_vrfVerifier mv) proof (sortitionData_Bytes cr data) of
                None \<Rightarrow> Some (Some InvalidVrfProof, 0)
              | Some h \<Rightarrow>
                  (case GetWeight cr (mv_config mv) (mv_miner mv) parentState totalBalanceOfMiners h of
                     None \<Rightarrow> None
                   | Some (ownWeight, totalWeight) \<Rightarrow>
                       let (threshold, size') = GetCommitteeNumber height step
                       in map_option (\<lambda>j. (if j = 0 then Some ZeroWeight else None, j))
                            (Choose bin h ownWeight threshold size' totalWeight)))"

definition VerifySignature ::
    "crypto \<Rightarrow> MinerVerifier \<Rightarrow> u64 \<Rightarrow> bytes \<Rightarrow> ForwardSecureSignature \<Rightarrow> miner_error option option" where
  "VerifySignature cr mv height data sig =
     (if \<not> MinerVerifier_Validate mv height then Some (Some NotRegistered)
      else if mv_lifespan mv = 0 then None
      else let offset = height div ucast (mv_lifespan mv)
           in Some (if ForwardSecureVerify cr (mv_voteVerifier mv) offset data sig then None else Some BadSignature))"

text \<open>The error, and the credential with the weight filled in.\<close>

definition VerifySignatureAndCredential ::
    "crypto \<Rightarrow> binomial \<Rightarrow> MinerVerifier \<Rightarrow> bytes \<Rightarrow> ForwardSecureSignature \<Rightarrow> Credential \<Rightarrow> StateDB \<Rightarrow> vrf_output
      \<Rightarrow> int \<Rightarrow> (miner_error option \<times> Credential) option" where
  "VerifySignatureAndCredential cr bin mv signBytes signature credential stateDb parentSeed totalBalanceOfMiners =
     (case VerifySignature cr mv (cr_Height credential) signBytes signature of
        None \<Rightarrow> None
      | Some (Some err) \<Rightarrow> Some (Some err, credential)
      | Some None \<Rightarrow>
          (case VerifySortition cr bin mv (cr_Height credential) (cr_Round credential) (cr_Step credential)
                  (cr_Proof credential) parentSeed stateDb totalBalanceOfMiners of
             None \<Rightarrow> None
           | Some (Some err, _) \<Rightarrow> Some (Some err, credential)
           | Some (None, choosedWeight) \<Rightarrow> Some (None, credential\<lparr>cr_Weight := choosedWeight\<rparr>)))"

section \<open>Generating and registering keys\<close>

text \<open>The fresh key pairs are arguments: \<open>vrf\<close> for the VRF, \<open>master\<close> and \<open>gen\<close> for the votes.\<close>

definition generateMinerKey ::
    "crypto \<Rightarrow> public_key \<times> private_key \<Rightarrow> public_key \<times> private_key \<Rightarrow> (nat \<Rightarrow> public_key \<times> private_key)
      \<Rightarrow> AlgorandConfig \<Rightarrow> address \<Rightarrow> address \<Rightarrow> u64 \<Rightarrow> u32 \<Rightarrow> (miner_error + MinerVerifier \<times> MinerKey) option" where
  "generateMinerKey cr vrf master gen config miner coinbase start lifespan =
     (let sn = GetIntervalSn config start; (_, end') = GetInterval config sn
      in if lifespan = 0 then None
         else let offset = start div ucast lifespan; limit = end' div ucast lifespan
              in if offset \<ge> limit then Some (Inl InvalidStartLifespan)
                 else let n = limit - offset;
                          (vrfVerifier, vrfKey) = vrf;
                          (voteVerifier, voteKey) = GenerateForwardSecureKey cr master gen offset n
                      in Some (Inr (\<lparr>mv_config = config, mv_miner = miner, mv_coinbase = coinbase, mv_start = start, mv_end = end',
                            mv_lifespan = lifespan, mv_vrfVerifier = vrfVerifier, mv_voteVerifier = voteVerifier\<rparr>,
                           \<lparr>mk_config = config, mk_Miner = miner, mk_Coinbase = coinbase, mk_Start = start, mk_End = end',
                            mk_Lifespan = lifespan, mk_VrfKey = vrfKey, mk_VoteKey = voteKey\<rparr>)))"

definition GetMinerVerifier :: "crypto \<Rightarrow> AlgorandConfig \<Rightarrow> StateDB \<Rightarrow> address \<Rightarrow> u64 \<Rightarrow> MinerVerifier" where
  "GetMinerVerifier cr config statedb miner height =
     (let (start, lifespan, coinbase, vrfVerifier, voteVerifier) = GetMiner cr config statedb height miner;
          (_, end') = GetInterval config (GetIntervalSn config start)
      in \<lparr>mv_config = config, mv_miner = miner, mv_coinbase = coinbase, mv_start = start, mv_end = end',
          mv_lifespan = lifespan, mv_vrfVerifier = vrfVerifier, mv_voteVerifier = voteVerifier\<rparr>)"

text \<open>The six hashes: three keys, each followed by its value.\<close>

definition KeyValueStorage :: "crypto \<Rightarrow> MinerVerifier \<Rightarrow> hash list" where
  "KeyValueStorage cr mv =
     (let offset = Hash_Big (MakeMinerInfoKey cr (mv_config mv) (mv_start mv) (mv_miner mv));
          first256 = BytesToHash (Big_Bytes offset);
          second256 = BytesToHash (Big_Bytes (offset + 1));
          third256 = BytesToHash (Big_Bytes (offset + 2))
      in [first256, MakeStartLifespanCoinbase (mv_start mv) (mv_lifespan mv) (mv_coinbase mv),
          second256, mv_vrfVerifier mv, third256, mv_voteVerifier mv])"

section \<open>Key files\<close>

text \<open>
  The data directory is a map from key identifiers (which determine the file names) to file contents;
  a file that was created and never written decodes to nothing.  Opening, creating and writing
  succeed.
\<close>

definition DefaultLifespan :: u32 where "DefaultLifespan = 100"
definition MaxLifespan :: u32 where "MaxLifespan = 100"

record minerKeyId =
  id_miner :: address
  id_begin :: u64
  id_end :: u64

record MinerKeyManager =
  mkm_config :: AlgorandConfig
  mkm_files :: "(minerKeyId, MinerKey option) gomap"
  mkm_keys :: "(minerKeyId, MinerKey) gomap"

definition MinerKey_id :: "MinerKey \<Rightarrow> minerKeyId" where
  "MinerKey_id mk =
     (let sn = GetIntervalSn (mk_config mk) (mk_Start mk); (begin', _) = GetInterval (mk_config mk) sn
      in \<lparr>id_miner = mk_Miner mk, id_begin = begin', id_end = mk_End mk\<rparr>)"

definition GetMinerKey ::
    "address \<Rightarrow> u64 \<Rightarrow> MinerKeyManager \<Rightarrow> (miner_error + MinerKey) \<times> MinerKeyManager" where
  "GetMinerKey miner height mkm =
     (let sn = GetIntervalSn (mkm_config mkm) height; (begin', end') = GetInterval (mkm_config mkm) sn;
          id' = \<lparr>id_miner = miner, id_begin = begin', id_end = end'\<rparr>
      in case mget (mkm_keys mkm) id' of
           Some mk \<Rightarrow> (Inr mk, mkm)
         | None \<Rightarrow>
             (case mget (mkm_files mkm) id' of
                None \<Rightarrow> (Inl NoFile, mkm)
              | Some None \<Rightarrow> (Inl BadFile, mkm)
              | Some (Some mk) \<Rightarrow>
                  let mk = mk\<lparr>mk_config := mkm_config mkm\<rparr>
                  in (Inr mk, mkm\<lparr>mkm_keys := mput id' mk (mkm_keys mkm)\<rparr>)))"

definition Generate ::
    "crypto \<Rightarrow> public_key \<times> private_key \<Rightarrow> public_key \<times> private_key \<Rightarrow> (nat \<Rightarrow> public_key \<times> private_key)
      \<Rightarrow> address \<Rightarrow> address \<Rightarrow> u64 \<Rightarrow> u32 \<Rightarrow> MinerKeyManager
      \<Rightarrow> ((miner_error + MinerVerifier \<times> MinerKey) \<times> MinerKeyManager) option" where
  "Generate cr vrf master gen miner coinbase start lifespan0 mkm =
     (let lifespan = (if lifespan0 = 0 then DefaultLifespan else lifespan0)
      in if lifespan > MaxLifespan then Some (Inl LifespanTooLong, mkm)
         else let sn = GetIntervalSn (mkm_config mkm) start; (begin', end') = GetInterval (mkm_config mkm) sn;
                  id' = \<lparr>id_miner = miner, id_begin = begin', id_end = end'\<rparr>
              in if mget (mkm_files mkm) id' \<noteq> None then Some (Inl KeyExists, mkm)
                 else let mkm = mkm\<lparr>mkm_files := mput id' None (mkm_files mkm)\<rparr>
                      in case generateMinerKey cr vrf master gen (mkm_config mkm) miner coinbase start lifespan of
                           None \<Rightarrow> None
                         | Some (Inl err) \<Rightarrow> Some (Inl err, mkm)
                         | Some (Inr (mv, mk)) \<Rightarrow>
                             Some (Inr (mv, mk), mkm\<lparr>mkm_files := mput id' (Some mk) (mkm_files mkm)\<rparr>))"

definition updateMinerKeyStore :: "MinerKey \<Rightarrow> MinerKeyManager \<Rightarrow> MinerKeyManager" where
  "updateMinerKeyStore mk mkm =
     (if mget (mkm_files mkm) (MinerKey_id mk) = None then mkm
      else mkm\<lparr>mkm_files := mput (MinerKey_id mk) (Some mk) (mkm_files mkm)\<rparr>)"

text \<open>One chain-head event of \<^verbatim>\<open>updateRoutine\<close>: the loop over the loaded keys, then the unloading.\<close>

definition update_key :: "u64 \<Rightarrow> minerKeyId \<times> MinerKey \<Rightarrow> MinerKeyManager \<times> minerKeyId list
    \<Rightarrow> (MinerKeyManager \<times> minerKeyId list) option" where
  "update_key current e st =
     (let (id', v) = e; (mkm, toUnload) = st
      in if MinerKey_Validate v current then
           (case MinerKey_Update current v of
              None \<Rightarrow> None
            | Some (deleted, v) \<Rightarrow>
                let mkm = mkm\<lparr>mkm_keys := mput id' v (mkm_keys mkm)\<rparr>
                in if deleted = 0 then Some (mkm, toUnload) else Some (updateMinerKeyStore v mkm, toUnload))
         else Some (mkm, toUnload @ [id']))"

fun update_keys :: "u64 \<Rightarrow> (minerKeyId, MinerKey) gomap \<Rightarrow> MinerKeyManager \<times> minerKeyId list
    \<Rightarrow> (MinerKeyManager \<times> minerKeyId list) option" where
  "update_keys current [] st = Some st"
| "update_keys current (e # es) st = Option.bind (update_key current e st) (update_keys current es)"

definition updateRoutine_head :: "u64 \<Rightarrow> MinerKeyManager \<Rightarrow> MinerKeyManager option" where
  "updateRoutine_head current mkm =
     map_option (\<lambda>(mkm, toUnload). mkm\<lparr>mkm_keys := fold mdel toUnload (mkm_keys mkm)\<rparr>)
       (update_keys current (mkm_keys mkm) (mkm, []))"

section \<open>Keys match their verifiers\<close>

text \<open>What is needed of the VRF: a proof verifies under the prover's public key, with the hash that the
  proof stands for.\<close>

definition vrf_correct :: "crypto \<Rightarrow> bool" where
  "vrf_correct cr \<longleftrightarrow> (\<forall>sk msg proof. crypto_vrf_prove cr sk msg = Some proof \<longrightarrow>
     crypto_vrf_verify cr (crypto_vrf_sk_to_pk cr sk) proof msg = crypto_vrf_proof_to_hash cr proof)"

definition matches :: "crypto \<Rightarrow> MinerKey \<Rightarrow> MinerVerifier \<Rightarrow> bool" where
  "matches cr mk mv \<longleftrightarrow> mv_config mv = mk_config mk \<and> mv_miner mv = mk_Miner mk \<and> mv_start mv = mk_Start mk \<and>
     mv_end mv = mk_End mk \<and> mv_lifespan mv = mk_Lifespan mk \<and>
     mv_vrfVerifier mv = crypto_vrf_sk_to_pk cr (mk_VrfKey mk) \<and> fs_certified cr (mv_voteVerifier mv) (mk_VoteKey mk)"

lemma generated_matches:
  assumes "sign_correct cr" "key_pair cr master" "\<And>i. key_pair cr (gen i)" "fst vrf = crypto_vrf_sk_to_pk cr (snd vrf)"
    and "generateMinerKey cr vrf master gen config miner coinbase start lifespan = Some (Inr (mv, mk))"
  shows "matches cr mk mv" "lifespan \<noteq> 0"
    "fs_Start (mk_VoteKey mk) = start div ucast lifespan"
    "length (fs_SubKeys (mk_VoteKey mk)) = unat (mk_End mk div ucast lifespan - start div ucast lifespan)"
    "mk_Start mk = start" "mk_Lifespan mk = lifespan" "start div ucast lifespan < mk_End mk div ucast lifespan"
proof -
  define e where "e = snd (GetInterval config (GetIntervalSn config start))"
  let ?o = "start div ucast lifespan" and ?l = "e div ucast lifespan"
  have nz: "lifespan \<noteq> 0" and lt: "?o < ?l"
    using assms(5) by (auto simp: generateMinerKey_def e_def Let_def case_prod_beta split: if_splits)
  obtain pk sk where g: "GenerateForwardSecureKey cr master gen ?o (?l - ?o) = (pk, sk)" by fastforce
  have mv: "mv = \<lparr>mv_config = config, mv_miner = miner, mv_coinbase = coinbase, mv_start = start, mv_end = e,
      mv_lifespan = lifespan, mv_vrfVerifier = fst vrf, mv_voteVerifier = pk\<rparr>"
    and mk: "mk = \<lparr>mk_config = config, mk_Miner = miner, mk_Coinbase = coinbase, mk_Start = start, mk_End = e,
      mk_Lifespan = lifespan, mk_VrfKey = snd vrf, mk_VoteKey = sk\<rparr>"
    using assms(5) nz lt g
    unfolding generateMinerKey_def Let_def case_prod_beta e_def [symmetric] linorder_not_less [symmetric] by simp_all
  have "unat (?l - ?o) = unat ?l - unat ?o" using lt by (intro unat_sub) simp
  then have "unat ?o + unat (?l - ?o) < 2 ^ 64" using lt unat_u64 [of ?l] by (simp add: word_less_nat_alt)
  then have "fs_certified cr pk sk" using assms(1-3) g by (intro GenerateForwardSecureKey_certified)
  then show "matches cr mk mv" using assms(4) by (simp add: matches_def mv mk)
  show "lifespan \<noteq> 0" "mk_Start mk = start" "mk_Lifespan mk = lifespan" "?o < mk_End mk div ucast lifespan"
    using nz lt by (simp_all add: mk)
  show "fs_Start (mk_VoteKey mk) = ?o"
    "length (fs_SubKeys (mk_VoteKey mk)) = unat (mk_End mk div ucast lifespan - ?o)"
    using g by (auto simp: mk GenerateForwardSecureKey_def Let_def split: prod.splits)
qed

lemma matches_Update: "matches cr mk mv \<Longrightarrow> MinerKey_Update h mk = Some (n, mk') \<Longrightarrow> matches cr mk' mv"
  by (auto simp: matches_def MinerKey_Update_def Let_def split: if_splits prod.splits intro: fs_certified_Update)

lemma matches_Validate: "matches cr mk mv \<Longrightarrow> MinerVerifier_Validate mv h = MinerKey_Validate mk h"
  by (simp add: matches_def MinerVerifier_Validate_def MinerKey_Validate_def)

lemma VrfProve_verifies:
  assumes "vrf_correct cr" "VrfProve cr sk msg = Some proof"
  shows "VrfVerify256 cr (crypto_vrf_sk_to_pk cr sk) proof msg = VrfProofToHash256 cr proof"
  using assms by (simp add: vrf_correct_def VrfProve_def VrfVerify256_def VrfProofToHash256_def)

lemma Seed_verifies:
  assumes "vrf_correct cr" "matches cr mk mv" "MinerKey_Seed cr mk h ps ph = Inr (seed, proof)"
  shows "VerifySeed cr mv h ps ph seed proof = None"
  using assms VrfProve_verifies [OF assms(1)]
  by (auto simp: MinerKey_Seed_def VerifySeed_def matches_Validate Let_def matches_def split: if_splits option.splits)

lemma Sortition_verifies:
  assumes "vrf_correct cr" "matches cr mk mv" "MinerKey_Sortition cr bin mk h r st ps s t = Some (Inr (hash, proof, j))"
  shows "VerifySortition cr bin mv h r st proof ps s t = Some (if j = 0 then Some ZeroWeight else None, j)"
proof -
  have v: "MinerKey_Validate mk h" using assms(3) by (auto simp: MinerKey_Sortition_def split: if_splits)
  let ?d = "sortitionData_Bytes cr \<lparr>sort_Miner = mk_Miner mk, sort_Height = h, sort_Round = r, sort_Step = st, sort_ParentSeed = ps\<rparr>"
  have p: "VrfProve cr (mk_VrfKey mk) ?d = Some proof" "VrfProofToHash256 cr proof = Some hash"
    using assms(3) v by (auto simp: MinerKey_Sortition_def Let_def split: option.splits prod.splits)
  have "VrfVerify256 cr (mv_vrfVerifier mv) proof ?d = Some hash"
    using VrfProve_verifies [OF assms(1) p(1)] p(2) assms(2) by (simp add: matches_def)
  then show ?thesis
    using assms(2,3) v p by (auto simp: MinerKey_Sortition_def VerifySortition_def matches_Validate matches_def Let_def
        split: option.splits prod.splits)
qed

lemma Sign_verifies:
  assumes "sign_correct cr" "matches cr mk mv" "MinerKey_Sign cr mk h data = Some (Inr sig)"
  shows "VerifySignature cr mv h data sig = Some None"
  using assms ForwardSecureSign_verifies [OF assms(1), of "mv_voteVerifier mv" "mk_VoteKey mk"]
  by (auto simp: MinerKey_Sign_def VerifySignature_def matches_Validate matches_def Let_def split: if_splits)

fun update_all :: "u64 list \<Rightarrow> MinerKey \<Rightarrow> MinerKey option" where
  "update_all [] mk = Some mk"
| "update_all (h # hs) mk = Option.bind (MinerKey_Update h mk) (\<lambda>(n, mk). update_all hs mk)"

lemma matches_update_all: "matches cr mk mv \<Longrightarrow> update_all hs mk = Some mk' \<Longrightarrow> matches cr mk' mv"
  by (induction hs arbitrary: mk) (auto simp: bind_eq_Some_conv dest: matches_Update)

section \<open>The contract's storage\<close>

lemma GetState_object:
  "GetState s a k = (case fst (getStateObject s a) of None \<Rightarrow> 0 | Some so \<Rightarrow> storage_of so k)"
proof (cases "getStateObject s a")
  case (Pair x s1)
  have "fst (so_GetState so k) = storage_of so k" for so using state_read(1) by (metis prod.collapse)
  then show ?thesis using Pair by (cases x) (simp_all add: GetState_def GetState_upd_def case_prod_beta)
qed

lemma getStateObject_set: "\<not> so_deleted so \<Longrightarrow> fst (getStateObject (setStateObject a so s) b) =
    (if b = a then Some so else fst (getStateObject s b))"
  by (auto simp: getStateObject_def setStateObject_def Let_def split: option.split)

lemma getStateObject_append [simp]: "fst (getStateObject (append_entry e s) a) = fst (getStateObject s a)"
  by (auto simp: getStateObject_def Let_def split: option.split)

lemma getStateObject_again: "getStateObject s a = (x, s1) \<Longrightarrow> fst (getStateObject s1 b) = fst (getStateObject s b)"
  by (auto simp: getStateObject_def setStateObject_def newObject_def Let_def split: option.splits if_splits)

lemma GetOrNew_object:
  assumes "GetOrNewStateObject cr s a = (so, s')"
  shows "\<not> so_deleted so" "b \<noteq> a \<Longrightarrow> fst (getStateObject s' b) = fst (getStateObject s b)"
    "storage_of so k = GetState s a k"
proof -
  obtain x s1 where g: "getStateObject s a = (x, s1)" by force
  have "\<not> so_deleted so \<and> (b \<noteq> a \<longrightarrow> fst (getStateObject s' b) = fst (getStateObject s b)) \<and> storage_of so k = GetState s a k"
  proof (cases x)
    case None
    then have s1: "s1 = s" using g get_absent by blast
    obtain p where c: "createObject cr s a = (so, p, s')"
      using assms g None s1 by (auto simp: GetOrNewStateObject_def split: prod.splits)
    have so: "so = setNonce 0 (newObject (emptyAccount cr))" "\<not> so_deleted so" using fresh_object [OF c] by auto
    have "s' = setStateObject a so (append_entry (createObjectChange a) s)"
      using c g None s1 so(1) by (simp add: createObject_def Let_def)
    with so g None show ?thesis
      by (simp add: getStateObject_set GetState_object storage_of_def committed_of_def setNonce_def newObject_def emptyAccount_def)
  next
    case (Some obj)
    then have "\<not> so_deleted obj" using g by (auto simp: getStateObject_def newObject_def Let_def split: option.splits if_splits)
    with assms g Some show ?thesis
      using getStateObject_again [OF g] by (auto simp: GetOrNewStateObject_def GetState_object)
  qed
  then show "\<not> so_deleted so" "b \<noteq> a \<Longrightarrow> fst (getStateObject s' b) = fst (getStateObject s b)"
    "storage_of so k = GetState s a k" by auto
qed

lemma GetState_SetState: "GetState (SetState cr a k v s) b q = (if b = a \<and> q = k then v else GetState s b q)"
proof -
  obtain so s1 where g: "GetOrNewStateObject cr s a = (so, s1)" by force
  note G = GetOrNew_object [OF g]
  obtain prev so1 where r: "so_GetState so k = (prev, so1)" by force
  note R = state_read [OF r]
  have st: "storage_of so1 q = storage_of so q" for q
    using arg_cong [OF R(2), of av_storage] by (metis obj_view_fields(5))
  let ?so = "if prev = v then so1 else setState k v so1"
  define t where "t = (if prev = v then s1 else append_entry (storageChange a k prev) s1)"
  have so: "storage_of ?so q = (if q = k then v else GetState s a q)" for q
  proof (cases "prev = v")
    case True
    then show ?thesis using st R(1) G(3) by simp
  next
    case False
    have "committed_of (so1\<lparr>so_dirtyStorage := x\<rparr>) q = committed_of so1 q" for x
      by (simp add: committed_of_def split: option.split)
    with False show ?thesis using st [of q] G(3) [of q] by (simp add: storage_of_def setState_def cong: option.case_cong)
  qed
  have nd: "\<not> so_deleted ?so" using G(1) R(3) by simp
  have set: "SetState cr a k v s = setStateObject a ?so t" by (simp add: SetState_def g so_SetState_def r t_def)
  have obj: "fst (getStateObject (SetState cr a k v s) b) = (if b = a then Some ?so else fst (getStateObject s1 b))"
    unfolding set getStateObject_set [OF nd] by (simp add: t_def)
  show ?thesis
  proof (cases "b = a")
    case True
    then show ?thesis unfolding GetState_object [of "SetState cr a k v s"] obj using so by simp
  next
    case False
    then show ?thesis unfolding GetState_object obj using G(2) by simp
  qed
qed

definition register :: "crypto \<Rightarrow> hash list \<Rightarrow> StateDB \<Rightarrow> StateDB" where
  "register cr kvs s =
     fold (\<lambda>i. SetState cr MinerAddress (kvs ! (2 * i)) (kvs ! (2 * i + 1))) [0, 1, 2] s"

lemma slot_keys:
  fixes key :: hash
  shows "BytesToHash (Big_Bytes (uint key)) = key" "BytesToHash (Big_Bytes (uint key + 1)) = key + 1"
    "BytesToHash (Big_Bytes (uint key + 2)) = key + 2"
    "BigToHash (uint key + 1) = key + 1" "BigToHash (2 + uint key) = key + 2"
proof -
  have *: "BigToHash (uint key + int n) = key + of_nat n" for n
    by (simp add: BigToHash_eq)
  show "BytesToHash (Big_Bytes (uint key)) = key" "BytesToHash (Big_Bytes (uint key + 1)) = key + 1"
    "BytesToHash (Big_Bytes (uint key + 2)) = key + 2"
    "BigToHash (uint key + 1) = key + 1" "BigToHash (2 + uint key) = key + 2"
    using * [of 0] * [of 1] * [of 2] by (simp_all add: BigToHash_def add.commute)
qed

section \<open>Properties\<close>



text \<open>C26.  A registration survives the storage of the miner contract: after its three slots are written,
  the verifier read back at any height of the same interval is the one registered.\<close>

theorem registration_roundtrip:
  assumes "mv_start mv \<noteq> 0" "mv_end mv = snd (GetInterval (mv_config mv) (GetIntervalSn (mv_config mv) (mv_start mv)))"
    and "GetIntervalSn (mv_config mv) height = GetIntervalSn (mv_config mv) (mv_start mv)"
  shows "GetMinerVerifier cr (mv_config mv) (register cr (KeyValueStorage cr mv) s) (mv_miner mv) height = mv"
proof -
  let ?k = "MakeMinerInfoKey cr (mv_config mv) (mv_start mv) (mv_miner mv)"
  let ?t = "register cr (KeyValueStorage cr mv) s"
  have key: "MakeMinerInfoKey cr (mv_config mv) height (mv_miner mv) = ?k"
    by (simp add: MakeMinerInfoKey_def assms(3))
  have "GetState ?t MinerAddress ?k = MakeStartLifespanCoinbase (mv_start mv) (mv_lifespan mv) (mv_coinbase mv)"
    "GetState ?t MinerAddress (?k + 1) = mv_vrfVerifier mv" "GetState ?t MinerAddress (?k + 2) = mv_voteVerifier mv"
    by (simp_all add: register_def KeyValueStorage_def GetState_SetState slot_keys Let_def)
  then have "GetMiner cr (mv_config mv) ?t height (mv_miner mv)
      = (mv_start mv, mv_lifespan mv, mv_coinbase mv, mv_vrfVerifier mv, mv_voteVerifier mv)"
    using assms(1) by (simp add: GetMiner_def key slot_parse slot_keys Let_def)
  then show ?thesis
    using assms(2) by (cases mv) (simp add: GetMinerVerifier_def case_prod_beta)
qed


abbreviation demo_generate :: "u64 \<Rightarrow> u32 \<Rightarrow> (miner_error + MinerVerifier \<times> MinerKey) option" where
  "demo_generate start lifespan \<equiv>
     generateMinerKey demo_crypto (3, 3) (5, 5) (\<lambda>_. (8, 8)) demo_config 7 7 start lifespan"

lemma demo_pairs: "key_pair demo_crypto (5, 5)" "key_pair demo_crypto (8, 8)"
    "fst (3, 3) = crypto_vrf_sk_to_pk demo_crypto (snd (3, 3))" "vrf_correct demo_crypto"
  by (simp_all add: key_pair_def vrf_correct_def demo_crypto_def)

lemma demo_interval: "GetInterval demo_config (GetIntervalSn demo_config 1) = (0, 1000)"
  by (simp add: GetInterval_def GetIntervalSn_def demo_config_def)

lemma demo_generated:
  "\<exists>mv mk. demo_generate 1 30 = Some (Inr (mv, mk)) \<and> mk_Start mk = 1 \<and> mk_End mk = 1000 \<and>
     mv_start mv = 1 \<and> mv_end mv = 1000 \<and> mv_config mv = demo_config \<and> mv_miner mv = 7"
  by (simp add: generateMinerKey_def demo_interval case_prod_beta Let_def)


text \<open>C28.  A key that was generated is found again: at every height of its interval the manager loads it
  from its file and returns it.\<close>

theorem generated_key_loads:
  assumes "Generate cr vrf master gen miner coinbase start lifespan mkm = Some (Inr (mv, mk), mkm')"
    and "GetIntervalSn (mkm_config mkm) height = GetIntervalSn (mkm_config mkm) start"
    and "mget (mkm_keys mkm) (MinerKey_id mk) = None"
  shows "\<exists>mkm''. GetMinerKey miner height mkm' = (Inr mk, mkm'') \<and> mget (mkm_keys mkm'') (MinerKey_id mk) = Some mk"
proof -
  let ?i = "GetInterval (mkm_config mkm) (GetIntervalSn (mkm_config mkm) start)"
  let ?id = "\<lparr>id_miner = miner, id_begin = fst ?i, id_end = snd ?i\<rparr>"
  have g: "\<exists>l. generateMinerKey cr vrf master gen (mkm_config mkm) miner coinbase start l = Some (Inr (mv, mk))"
    and m: "mkm' = mkm\<lparr>mkm_files := mput ?id (Some mk) (mput ?id None (mkm_files mkm))\<rparr>"
    using assms(1) by (auto simp: Generate_def Let_def case_prod_beta split: if_splits option.splits sum.splits)
  have f: "mk_config mk = mkm_config mkm" "mk_Miner mk = miner" "mk_Start mk = start" "mk_End mk = snd ?i"
    using g by (auto simp: generateMinerKey_def Let_def case_prod_beta split: if_splits)
  have id: "MinerKey_id mk = ?id" by (simp add: MinerKey_id_def f case_prod_beta)
  have "mk\<lparr>mk_config := mkm_config mkm\<rparr> = mk" using f(1) by (cases mk) simp
  then show ?thesis
    using assms(3) unfolding id by (simp add: GetMinerKey_def m assms(2) case_prod_beta Let_def)
qed

text \<open>C29.  A generation that fails because no sub key fits between its start and the end of the interval
  leaves an empty key file behind: every later generation for that miner and interval is refused,
  and loading the key fails.\<close>

theorem failed_generation_blocks:
  assumes "Generate cr vrf master gen miner coinbase start lifespan mkm = Some (Inl InvalidStartLifespan, mkm')"
    and "mget (mkm_keys mkm) \<lparr>id_miner = miner, id_begin = fst (GetInterval (mkm_config mkm) (GetIntervalSn (mkm_config mkm) start)),
      id_end = snd (GetInterval (mkm_config mkm) (GetIntervalSn (mkm_config mkm) start))\<rparr> = None"
    and "GetIntervalSn (mkm_config mkm) start' = GetIntervalSn (mkm_config mkm) start"
    and "lifespan' \<le> MaxLifespan"
  shows "Generate cr vrf' master' gen' miner coinbase' start' lifespan' mkm' = Some (Inl KeyExists, mkm') \<and>
    GetMinerKey miner start' mkm' = (Inl BadFile, mkm')"
proof -
  let ?i = "GetInterval (mkm_config mkm) (GetIntervalSn (mkm_config mkm) start)"
  let ?id = "\<lparr>id_miner = miner, id_begin = fst ?i, id_end = snd ?i\<rparr>"
  have m: "mkm' = mkm\<lparr>mkm_files := mput ?id None (mkm_files mkm)\<rparr>"
    using assms(1) by (auto simp: Generate_def Let_def case_prod_beta split: if_splits option.splits sum.splits)
  have "\<not> (if lifespan' = 0 then DefaultLifespan else lifespan') > MaxLifespan"
    using assms(4) by (simp add: DefaultLifespan_def MaxLifespan_def linorder_not_less)
  then show ?thesis
    using assms(2) by (simp add: Generate_def GetMinerKey_def m assms(3) case_prod_beta Let_def)
qed

abbreviation demo_manager :: MinerKeyManager where
  "demo_manager \<equiv> \<lparr>mkm_config = demo_config, mkm_files = [], mkm_keys = []\<rparr>"

abbreviation demo_Generate ::
    "u64 \<Rightarrow> u32 \<Rightarrow> MinerKeyManager \<Rightarrow> ((miner_error + MinerVerifier \<times> MinerKey) \<times> MinerKeyManager) option" where
  "demo_Generate \<equiv> Generate demo_crypto (3, 3) (5, 5) (\<lambda>_. (8, 8)) 7 7"

lemma failed_generation_blocks_witness:
  "\<exists>mkm'. demo_Generate 995 30 demo_manager = Some (Inl InvalidStartLifespan, mkm') \<and>
     demo_Generate 1 100 mkm' = Some (Inl KeyExists, mkm') \<and> GetMinerKey 7 1 mkm' = (Inl BadFile, mkm')"
proof -
  have g: "demo_Generate 995 30 demo_manager = Some (Inl InvalidStartLifespan,
      demo_manager\<lparr>mkm_files := [(\<lparr>id_miner = 7, id_begin = 0, id_end = 1000\<rparr>, None)]\<rparr>)"
    by (simp add: Generate_def generateMinerKey_def MaxLifespan_def GetInterval_def GetIntervalSn_def demo_config_def
        word_less_nat_alt word_le_nat_alt Let_def)
  show ?thesis
    using g failed_generation_blocks [OF g, of 1 100 "(3, 3)" "(5, 5)" "\<lambda>_. (8, 8)" 7]
    by (simp add: GetIntervalSn_def demo_config_def MaxLifespan_def)
qed

lemma generated_key_loads_witness:
  "\<exists>mv mk mkm' mkm''. demo_Generate 1 100 demo_manager = Some (Inr (mv, mk), mkm') \<and>
     GetMinerKey 7 999 mkm' = (Inr mk, mkm'')"
proof -
  have "\<exists>mv mk mkm'. demo_Generate 1 100 demo_manager = Some (Inr (mv, mk), mkm')"
    by (simp add: Generate_def generateMinerKey_def MaxLifespan_def demo_interval case_prod_beta word_less_nat_alt Let_def)
  then obtain mv mk mkm' where g: "demo_Generate 1 100 demo_manager = Some (Inr (mv, mk), mkm')" by blast
  have "\<exists>mkm''. GetMinerKey 7 999 mkm' = (Inr mk, mkm'') \<and> mget (mkm_keys mkm'') (MinerKey_id mk) = Some mk"
    by (rule generated_key_loads [OF g]) (simp_all add: GetIntervalSn_def demo_config_def)
  with g show ?thesis by blast
qed

lemma registration_roundtrip_witness:
  "\<exists>mv mk. demo_generate 1 30 = Some (Inr (mv, mk)) \<and>
     GetMinerVerifier demo_crypto demo_config (register demo_crypto (KeyValueStorage demo_crypto mv) demo_state) 7 995 = mv"
proof -
  obtain mv mk where g: "demo_generate 1 30 = Some (Inr (mv, mk))"
      and e: "mv_start mv = 1" "mv_end mv = 1000" "mv_config mv = demo_config" "mv_miner mv = 7"
    using demo_generated by blast
  have "GetMinerVerifier demo_crypto (mv_config mv) (register demo_crypto (KeyValueStorage demo_crypto mv) demo_state) (mv_miner mv) 995 = mv"
    by (rule registration_roundtrip) (simp_all add: e GetIntervalSn_def GetInterval_def demo_config_def)
  with g e show ?thesis by auto
qed

text \<open>Primitives that return constants, and a distribution whose third value is above every hash.\<close>

definition plain_crypto :: crypto where
  "plain_crypto =
    \<lparr>crypto_vrf_prove = (\<lambda>sk msg. Some 1), crypto_vrf_proof_to_hash = (\<lambda>proof. Some 2),
     crypto_vrf_verify = (\<lambda>pk proof msg. if proof = 1 then Some 2 else None), crypto_vrf_sk_to_pk = (\<lambda>sk. 3),
     crypto_sign_detached = (\<lambda>data sk. 4), crypto_sign_verify_detached = (\<lambda>sig data pk. sig = 4),
     crypto_sign_sk_to_pk = (\<lambda>sk. Some 5), Sum512_256 = (\<lambda>bs. 6), Keccak256 = (\<lambda>bs. 7), EncodeToBytes = (\<lambda>x. [])\<rparr>"

abbreviation plain_generate :: "(miner_error + MinerVerifier \<times> MinerKey) option" where
  "plain_generate \<equiv> generateMinerKey plain_crypto (3, 3) (5, 5) (\<lambda>_. (5, 8)) demo_config 7 7 1 30"

lemma plain_ok: "sign_correct plain_crypto" "vrf_correct plain_crypto" "key_pair plain_crypto (5, 5)"
    "key_pair plain_crypto (5, 8)" "fst (3, 3) = crypto_vrf_sk_to_pk plain_crypto (snd (3, 3))"
  by (simp_all add: sign_correct_def vrf_correct_def key_pair_def plain_crypto_def)

lemma plain_sortition:
  assumes "plain_generate = Some (Inr (mv, mk))"
  shows "MinerKey_Sortition plain_crypto (\<lambda>h n t W j. j < 3) mk 31 1 1 0 demo_state 3 = Some (Inr (6, 1, 3))"
    "\<exists>sig. MinerKey_Sign plain_crypto mk 31 [] = Some (Inr sig)"
    "MinerKey_Seed plain_crypto mk 31 0 0 = Inr (6, 1)"
proof -
  have mk: "mk_config mk = demo_config" "mk_Miner mk = 7" "mk_Start mk = 1" "mk_End mk = 1000" "mk_Lifespan mk = 30"
    using assms by (auto simp: generateMinerKey_def demo_interval case_prod_beta Let_def)
  have v: "MinerKey_Validate mk 31" by (simp add: MinerKey_Validate_def mk)
  have w: "GetWeight plain_crypto demo_config 7 demo_state 3 6 = Some (66, 100)"
    by (simp add: GetWeight_def demo_balance) (simp add: demo_config_def sdiv_pos Big_Uint64_def bytes_compare_get_be Let_def)
  have c: "Choose (\<lambda>h n t W j. j < 3) 6 66 1 20 100 = Some 3" by code_simp
  show "MinerKey_Sortition plain_crypto (\<lambda>h n t W j. j < 3) mk 31 1 1 0 demo_state 3 = Some (Inr (6, 1, 3))"
    using v w c mk by (simp add: MinerKey_Sortition_def VrfProve_def VrfProofToHash256_def plain_crypto_def GetCommitteeNumber_def
        round_step_defs CommitteeConfigv1_def)
  show "MinerKey_Seed plain_crypto mk 31 0 0 = Inr (6, 1)"
    using v by (simp add: MinerKey_Seed_def VrfProve_def VrfProofToHash256_def plain_crypto_def)
  have "fst (GenerateForwardSecureKey plain_crypto (5, 5) (\<lambda>_. (5, 8)) 0 33) = 5 \<and>
      ValidOffset (mk_VoteKey mk) 1"
    using assms by (auto simp: generateMinerKey_def demo_interval case_prod_beta Let_def ValidOffset_def GenerateForwardSecureKey_def)
  then show "\<exists>sig. MinerKey_Sign plain_crypto mk 31 [] = Some (Inr sig)"
    using v by (simp add: MinerKey_Sign_def mk Let_def)
qed

lemma plain_generated: "\<exists>mv mk. plain_generate = Some (Inr (mv, mk))"
  by (simp add: generateMinerKey_def demo_interval case_prod_beta Let_def)



end
