(* ===== verification/Engine.thy ===== *)
theory Engine
  imports Miner_Keys
begin

text \<open>
  The consensus engine and the validation of blocks: \<^verbatim>\<open>src/consensus/algorand/algorand.go\<close>,
  \<^verbatim>\<open>src/core/block_validator.go\<close>, and from \<^verbatim>\<open>src/core/types\<close> the log blooms
  (\<^verbatim>\<open>bloom9.go\<close>) and the assembly of a block (\<^verbatim>\<open>block.go\<close>).  Shown: the gas limit a proposer
  computes passes the verification of the header; a block assembled by the engine passes the
  validation of its body and its state; blooms have no false negatives; what a verified seal
  guarantees, and that it does not bind the certificate to the block.
\<close>

section \<open>Chain parameters\<close>

record ChainConfig =
  cc_ChainID :: int
  cc_EIP155Block :: "int option"
  cc_EIP158Block :: "int option"
  cc_ByzantiumBlock :: "int option"
  cc_DAOForkBlock :: "int option"
  cc_DAOForkSupport :: bool
  cc_BlockYear :: u64
  cc_Algorand :: AlgorandConfig

definition isForked :: "int option \<Rightarrow> int \<Rightarrow> bool" where
  "isForked s head = (case s of None \<Rightarrow> False | Some b \<Rightarrow> b \<le> head)"

definition IsEIP155 :: "ChainConfig \<Rightarrow> int \<Rightarrow> bool" where
  "IsEIP155 c num = isForked (cc_EIP155Block c) num"

definition IsEIP158 :: "ChainConfig \<Rightarrow> int \<Rightarrow> bool" where
  "IsEIP158 c num = isForked (cc_EIP158Block c) num"

definition IsByzantium :: "ChainConfig \<Rightarrow> int \<Rightarrow> bool" where
  "IsByzantium c num = isForked (cc_ByzantiumBlock c) num"

definition ConsensusVersion :: u64 where "ConsensusVersion = 1"
definition GasLimitBoundDivisor :: u64 where "GasLimitBoundDivisor = 1024"
definition MinGasLimit :: u64 where "MinGasLimit = 63000000"
definition MaximumExtraDataSize :: u64 where "MaximumExtraDataSize = 32"
definition TxGas :: u64 where "TxGas = 21000"

section \<open>Receipts and blooms\<close>

record Receipt =
  rc_PostState :: bytes
  rc_Status :: u64
  rc_CumulativeGasUsed :: u64
  rc_Bloom :: "2048 word"
  rc_Logs :: "Log list"
  rc_TxHash :: hash
  rc_ContractAddress :: address
  rc_GasUsed :: u64

text \<open>Three bits, each chosen by two bytes of the hash.\<close>

definition bloom_bit :: "hash \<Rightarrow> nat \<Rightarrow> nat" where
  "bloom_bit h i = (let b = word_bytes 32 h in (unat (b ! (i + 1)) + unat (b ! i) * 256) mod 2048)"

definition bloom9 :: "crypto \<Rightarrow> bytes \<Rightarrow> int" where
  "bloom9 cr b =
     (let h = Keccak256 cr b in foldl (\<lambda>r i. or r (push_bit (bloom_bit h i) 1)) 0 [0, 2, 4])"

definition LogsBloom :: "crypto \<Rightarrow> Log list \<Rightarrow> int" where
  "LogsBloom cr logs =
     foldl (\<lambda>bin log. foldl (\<lambda>bin b. or bin (bloom9 cr (word_bytes 32 b)))
              (or bin (bloom9 cr (word_bytes 20 (lg_Address log)))) (lg_Topics log)) 0 logs"

text \<open>\<^verbatim>\<open>BytesToBloom\<close> panics on more than 256 bytes: \<open>None\<close>.\<close>

definition BytesToBloom :: "bytes \<Rightarrow> 2048 word option" where
  "BytesToBloom b = (if 256 < length b then None else Some (of_nat (get_be b)))"

definition CreateBloom :: "crypto \<Rightarrow> Receipt list \<Rightarrow> 2048 word option" where
  "CreateBloom cr receipts =
     BytesToBloom (Big_Bytes (foldl (\<lambda>bin receipt. or bin (LogsBloom cr (rc_Logs receipt))) 0 receipts))"

definition BloomLookup :: "crypto \<Rightarrow> 2048 word \<Rightarrow> bytes \<Rightarrow> bool" where
  "BloomLookup cr bin topic =
     (let bloom = uint bin; cmp = bloom9 cr topic in and bloom cmp = cmp)"

definition Bloom_Add :: "crypto \<Rightarrow> bytes \<Rightarrow> 2048 word \<Rightarrow> 2048 word option" where
  "Bloom_Add cr d b = BytesToBloom (Big_Bytes (or (uint b) (bloom9 cr d)))"

section \<open>Assembling a block\<close>

text \<open>
  The hashes of lists (\<^verbatim>\<open>DeriveSha\<close>, through a trie) and of headers with their certificates
  (\<^verbatim>\<open>CalcUncleHash\<close>) and the root hash of the account trie are parameters, as is what the engine
  asks of the chain: headers, blocks and states it has.
\<close>

record chain =
  GetHeader :: "hash \<Rightarrow> u64 \<Rightarrow> Header option"
  HasBlock :: "hash \<Rightarrow> u64 \<Rightarrow> bool"
  HasBlockAndState :: "hash \<Rightarrow> u64 \<Rightarrow> bool"
  StateAtHeader :: "Header \<Rightarrow> StateDB option"
  VerifyProof :: "hash \<Rightarrow> u64 \<Rightarrow> address \<Rightarrow> CertVoteStorage list \<Rightarrow> bytes list \<Rightarrow> bool"
  ProofState :: "hash \<Rightarrow> bytes list \<Rightarrow> StateDB option"
  DeriveSha_txs :: "Transaction list \<Rightarrow> hash"
  DeriveSha_receipts :: "Receipt list \<Rightarrow> hash"
  CalcUncleHash :: "Header list \<Rightarrow> hash"
  trie_Hash :: "(address \<Rightarrow> Account option) \<Rightarrow> hash"

text \<open>\<^verbatim>\<open>EmptyRootHash = DeriveSha(Transactions{})\<close> is used for both lists.\<close>

definition EmptyRootHash :: "chain \<Rightarrow> hash" where "EmptyRootHash ch = DeriveSha_txs ch []"
definition EmptyUncleHash :: "chain \<Rightarrow> hash" where "EmptyUncleHash ch = CalcUncleHash ch []"

definition types_NewBlock ::
    "chain \<Rightarrow> crypto \<Rightarrow> Header \<Rightarrow> Transaction list \<Rightarrow> Header list \<Rightarrow> Receipt list \<Rightarrow> Block option" where
  "types_NewBlock ch cr header txs uncles receipts =
     (let header = (if txs = [] then header\<lparr>h_TxHash := EmptyRootHash ch\<rparr>
                    else header\<lparr>h_TxHash := DeriveSha_txs ch txs\<rparr>)
      in do {
        header \<leftarrow> (if receipts = [] then Some (header\<lparr>h_ReceiptHash := EmptyRootHash ch\<rparr>)
                  else map_option (\<lambda>bloom. header\<lparr>h_ReceiptHash := DeriveSha_receipts ch receipts, h_Bloom := bloom\<rparr>)
                         (CreateBloom cr receipts));
        let header = (if uncles = [] then header\<lparr>h_UncleHash := EmptyUncleHash ch\<rparr>
                      else header\<lparr>h_UncleHash := CalcUncleHash ch uncles\<rparr>);
        Some \<lparr>b_header = header, b_uncles = uncles, b_transactions = txs\<rparr>
      })"

section \<open>Verification of headers\<close>

datatype engine_error =
    BadVersion | BadDifficulty | ExtraTooLong | ErrFutureBlock | TimestampNotLater
  | GasLimitTooHigh | GasUsedTooHigh | InvalidGasLimit | ErrInvalidNumber
  | ErrUnknownAncestor | ErrPrunedAncestor | ErrKnownBlock
  | HasUncles | UncleHashMismatch | TxHashMismatch
  | InvalidGasUsed | InvalidBloom | InvalidReceiptRoot | InvalidMerkleRoot | InvalidTotal
  | BadTrieProof | StateUnavailable | BadVote miner_error | DuplicateAddress | WeightTooLow
  | BadProposer miner_error | BadSeedProof miner_error | ProcessError | errStopped | NoMinerKey

text \<open>The error of a vote, or the sum of the weights and the set of the voters.\<close>

fun seal_votes ::
    "crypto \<Rightarrow> binomial \<Rightarrow> AlgorandConfig \<Rightarrow> StateDB \<Rightarrow> Header \<Rightarrow> u64 \<Rightarrow> Certificate \<Rightarrow> u64 \<times> address list
      \<Rightarrow> CertVoteStorage list \<Rightarrow> (engine_error + u64 \<times> address list) option" where
  "seal_votes cr bin config stateDb parent height certificate (weightSum, addrSet) [] = Some (Inr (weightSum, addrSet))"
| "seal_votes cr bin config stateDb parent height certificate (weightSum, addrSet) (certVote # votes) =
     (let vote = NewVoteDataFromCertVoteStorage certVote height (ct_Round certificate) (ct_Value certificate);
          mv = GetMinerVerifier cr config stateDb (v_Address vote) (v_Height vote)
      in case VerifySignatureAndCredential cr bin mv (VoteData_SignBytes vote) (v_ESignValue vote) (v_Credential vote)
                stateDb (Seed parent) (h_TotalBalanceOfMiners parent) of
           None \<Rightarrow> None
         | Some (Some err, _) \<Rightarrow> Some (Inl (BadVote err))
         | Some (None, credential) \<Rightarrow>
             seal_votes cr bin config stateDb parent height certificate
               (weightSum + cr_Weight credential, List.insert (cs_Address (cvs_Credential certVote)) addrSet) votes)"

text \<open>The checks of a seal on the parent's state.  The outer \<^const>\<open>None\<close> is a panic.\<close>

definition check_seal ::
    "crypto \<Rightarrow> binomial \<Rightarrow> AlgorandConfig \<Rightarrow> Header \<Rightarrow> Header \<Rightarrow> StateDB \<Rightarrow> engine_error option option" where
  "check_seal cr bin config header parent stateDb =
     (let height = NumberU64 header; certificate = h_Certificate header
      in case seal_votes cr bin config stateDb parent height certificate (0, []) (ct_CertVoteSet certificate) of
           None \<Rightarrow> None
         | Some (Inl err) \<Rightarrow> Some (Some err)
         | Some (Inr (weightSum, addrSet)) \<Rightarrow>
             if length addrSet \<noteq> length (ct_CertVoteSet certificate) then Some (Some DuplicateAddress)
             else if weightSum < fst (GetCommitteeNumber height RoundStep3Certifying) then Some (Some WeightTooLow)
             else
               let proposerVerifier = GetMinerVerifier cr config stateDb (Proposer header) height;
                   proposalLeader = NewProposalLeaderDataFromStorage (Header_Hash cr header) height (ct_Proposal certificate)
               in case VerifySignatureAndCredential cr bin proposerVerifier
                         (ProposalLeaderData_SignBytes proposalLeader) (pl_ESignValue proposalLeader)
                         (pl_Credential proposalLeader) stateDb (Seed parent) (h_TotalBalanceOfMiners parent) of
                    None \<Rightarrow> None
                  | Some (Some err, _) \<Rightarrow> Some (Some (BadProposer err))
                  | Some (None, _) \<Rightarrow>
                      (case VerifySeed cr proposerVerifier height (Seed parent) (Header_Hash cr parent) (Seed header)
                              (Certificate_SeedProof certificate) of
                         Some err \<Rightarrow> Some (Some (BadSeedProof err))
                       | None \<Rightarrow> Some None))"

text \<open>
  The error of \<^verbatim>\<open>state.New\<close> on the nodes of the proof is not looked at, so a state that cannot be
  opened is dereferenced.
\<close>

definition VerifySeal ::
    "chain \<Rightarrow> crypto \<Rightarrow> binomial \<Rightarrow> AlgorandConfig \<Rightarrow> Header \<Rightarrow> Header \<Rightarrow> engine_error option option" where
  "VerifySeal ch cr bin config header parent =
     (let height = NumberU64 header; certificate = h_Certificate header
      in if 0 < length (ct_TrieProof certificate) then
           (if \<not> VerifyProof ch (h_Root parent) height (Proposer header) (ct_CertVoteSet certificate) (ct_TrieProof certificate)
            then Some (Some BadTrieProof)
            else case ProofState ch (h_Root parent) (ct_TrieProof certificate) of
                   None \<Rightarrow> None | Some s \<Rightarrow> check_seal cr bin config header parent s)
         else (case StateAtHeader ch parent of
                 None \<Rightarrow> Some (Some StateUnavailable) | Some s \<Rightarrow> check_seal cr bin config header parent s))"

text \<open>\<open>now\<close> is the clock in seconds.  The difference of the gas limits is taken in signed 64 bits.\<close>

definition gas_limit_diff :: "u64 \<Rightarrow> u64 \<Rightarrow> u64" where
  "gas_limit_diff p h = (let diff = p - h in if diff <s 0 then diff * -1 else diff)"

definition verifyHeader ::
    "chain \<Rightarrow> crypto \<Rightarrow> binomial \<Rightarrow> AlgorandConfig \<Rightarrow> u64 \<Rightarrow> Header \<Rightarrow> Header \<Rightarrow> bool \<Rightarrow> engine_error option option" where
  "verifyHeader ch cr bin config now header parent seal =
     (if Version header \<noteq> ConsensusVersion then Some (Some BadVersion)
      else if h_Difficulty header \<noteq> 1 then Some (Some BadDifficulty)
      else if MaximumExtraDataSize < of_nat (length (h_Extra header)) then Some (Some ExtraTooLong)
      else if now + 15 < h_Time header then Some (Some ErrFutureBlock)
      else if h_Time header \<le> h_Time parent then Some (Some TimestampNotLater)
      else if 0x7fffffffffffffff < h_GasLimit header then Some (Some GasLimitTooHigh)
      else if h_GasLimit header < h_GasUsed header then Some (Some GasUsedTooHigh)
      else
        let diff = gas_limit_diff (h_GasLimit parent) (h_GasLimit header);
            limit = h_GasLimit parent div GasLimitBoundDivisor
        in if limit \<le> diff \<or> h_GasLimit header < MinGasLimit then Some (Some InvalidGasLimit)
           else if h_Number header - h_Number parent \<noteq> 1 then Some (Some ErrInvalidNumber)
           else if seal then VerifySeal ch cr bin config header parent
           else Some None)"

definition VerifyHeader ::
    "chain \<Rightarrow> crypto \<Rightarrow> binomial \<Rightarrow> AlgorandConfig \<Rightarrow> u64 \<Rightarrow> Header \<Rightarrow> bool \<Rightarrow> engine_error option option" where
  "VerifyHeader ch cr bin config now header seal =
     (let number = NumberU64 header
      in if GetHeader ch (Header_Hash cr header) number \<noteq> None then Some None
         else case GetHeader ch (h_ParentHash header) (number - 1) of
                None \<Rightarrow> Some (Some ErrUnknownAncestor)
              | Some parent \<Rightarrow> verifyHeader ch cr bin config now header parent seal)"

text \<open>
  The workers of \<^verbatim>\<open>VerifyHeaders\<close> compute one result per index, and the results are handed out in
  the order of the indices.
\<close>

definition VerifyHeaders_worker ::
    "chain \<Rightarrow> crypto \<Rightarrow> binomial \<Rightarrow> AlgorandConfig \<Rightarrow> u64 \<Rightarrow> Header list \<Rightarrow> bool list \<Rightarrow> nat \<Rightarrow> engine_error option option" where
  "VerifyHeaders_worker ch cr bin config now headers seals index =
     (let header = headers ! index
      in if GetHeader ch (Header_Hash cr header) (NumberU64 header) \<noteq> None then Some None
         else let parent = (if index = 0 then GetHeader ch (h_ParentHash header) (NumberU64 header - 1)
                            else if Header_Hash cr (headers ! (index - 1)) = h_ParentHash header
                                 then Some (headers ! (index - 1)) else None)
              in case parent of
                   None \<Rightarrow> Some (Some ErrUnknownAncestor)
                 | Some parent \<Rightarrow> verifyHeader ch cr bin config now header parent (seals ! index))"

definition VerifyUncles :: "Block \<Rightarrow> engine_error option" where
  "VerifyUncles block = (if 0 < length (b_uncles block) then Some HasUncles else None)"

definition CalcDifficulty :: "Header \<Rightarrow> int" where "CalcDifficulty parent = 1"

definition Algorand_Prepare :: "chain \<Rightarrow> Header \<Rightarrow> engine_error + Header" where
  "Algorand_Prepare ch header =
     (case GetHeader ch (h_ParentHash header) (NumberU64 header - 1) of
        None \<Rightarrow> Inl ErrUnknownAncestor
      | Some parent \<Rightarrow> Inr (header\<lparr>h_Difficulty := CalcDifficulty parent\<rparr>))"

section \<open>Rewards and the end of a block\<close>

definition ether :: int where "ether = 10 ^ 18"
definition eidosFirstYearBlockReward :: int where "eidosFirstYearBlockReward = 40 * ether"
definition eidosSecondYearBlockReward :: int where "eidosSecondYearBlockReward = 20 * ether"
definition eidosSteadyBlockReward :: int where "eidosSteadyBlockReward = 10 * ether"

definition EidosBlockReward :: "int \<Rightarrow> ChainConfig \<Rightarrow> int" where
  "EidosBlockReward num config =
     (let height = Big_Uint64 num
      in if height \<le> cc_BlockYear config then eidosFirstYearBlockReward
         else if height \<le> 2 * cc_BlockYear config then eidosSecondYearBlockReward
         else eidosSteadyBlockReward)"

definition accumulateRewards :: "crypto \<Rightarrow> ChainConfig \<Rightarrow> Header \<Rightarrow> StateDB \<Rightarrow> StateDB" where
  "accumulateRewards cr config header s = AddBalance cr (h_Coinbase header) (EidosBlockReward (h_Number header) config) s"

definition Algorand_Finalize ::
    "chain \<Rightarrow> crypto \<Rightarrow> ChainConfig \<Rightarrow> Header \<Rightarrow> tracked \<Rightarrow> Transaction list \<Rightarrow> Header list \<Rightarrow> Receipt list
      \<Rightarrow> (Block \<times> tracked) option" where
  "Algorand_Finalize ch cr config header ts txs uncles receipts =
     (let ts = (fst ts, accumulateRewards cr config header (snd ts));
          ts = Finalise_tracked cr (IsEIP158 config (h_Number header)) ts;
          header = header\<lparr>h_Root := trie_Hash ch (sdb_trie (snd ts))\<rparr>
      in do {
        total' \<leftarrow> TotalBalanceOfMiners cr ts;
        block \<leftarrow> types_NewBlock ch cr (header\<lparr>h_TotalBalanceOfMiners := total'\<rparr>) txs uncles receipts;
        Some (block, ts)
      })"

section \<open>Validation of blocks\<close>

definition ValidateBody :: "chain \<Rightarrow> crypto \<Rightarrow> Block \<Rightarrow> engine_error option" where
  "ValidateBody ch cr block =
     (let header = b_header block; number = Block_Number block
      in if HasBlockAndState ch (Block_Hash cr block) number then Some ErrKnownBlock
         else case VerifyUncles block of
                Some err \<Rightarrow> Some err
              | None \<Rightarrow>
                  if CalcUncleHash ch (b_uncles block) \<noteq> h_UncleHash header then Some UncleHashMismatch
                  else if DeriveSha_txs ch (b_transactions block) \<noteq> h_TxHash header then Some TxHashMismatch
                  else if \<not> HasBlockAndState ch (h_ParentHash header) (number - 1) then
                    (if \<not> HasBlock ch (h_ParentHash header) (number - 1) then Some ErrUnknownAncestor
                     else Some ErrPrunedAncestor)
                  else None)"

text \<open>The result carries the state, which \<^verbatim>\<open>IntermediateRoot\<close> finalises.\<close>

definition ValidateState ::
    "chain \<Rightarrow> crypto \<Rightarrow> ChainConfig \<Rightarrow> Block \<Rightarrow> tracked \<Rightarrow> Receipt list \<Rightarrow> u64 \<Rightarrow> (engine_error option \<times> tracked) option" where
  "ValidateState ch cr config block ts receipts usedGas =
     (let header = b_header block
      in if h_GasUsed header \<noteq> usedGas then Some (Some InvalidGasUsed, ts)
         else case CreateBloom cr receipts of
                None \<Rightarrow> None
              | Some rbloom \<Rightarrow>
                  if rbloom \<noteq> h_Bloom header then Some (Some InvalidBloom, ts)
                  else if DeriveSha_receipts ch receipts \<noteq> h_ReceiptHash header then Some (Some InvalidReceiptRoot, ts)
                  else
                    let ts = Finalise_tracked cr (IsEIP158 config (h_Number header)) ts
                    in if trie_Hash ch (sdb_trie (snd ts)) \<noteq> h_Root header then Some (Some InvalidMerkleRoot, ts)
                       else case TotalBalanceOfMiners cr ts of
                              None \<Rightarrow> None
                            | Some total' \<Rightarrow>
                                if total' \<noteq> h_TotalBalanceOfMiners header then Some (Some InvalidTotal, ts)
                                else Some (None, ts))"

definition CalcGasLimit :: "Header \<Rightarrow> u64 \<Rightarrow> u64 \<Rightarrow> u64" where
  "CalcGasLimit parent gasFloor gasCeil =
     (let contrib = (h_GasUsed parent + h_GasUsed parent div 2) div GasLimitBoundDivisor;
          decay = h_GasLimit parent div GasLimitBoundDivisor - 1;
          limit = h_GasLimit parent - decay + contrib;
          limit = (if limit < MinGasLimit then MinGasLimit else limit)
      in if limit < gasFloor then
           (let limit = h_GasLimit parent + decay in if gasFloor < limit then gasFloor else limit)
         else if gasCeil < limit then
           (let limit = h_GasLimit parent - decay in if limit < gasCeil then gasCeil else limit)
         else limit)"

section \<open>Lemmas\<close>

subsection \<open>Blooms\<close>

lemma bloom_bit_less: "bloom_bit h i < 2048"
  by (simp add: bloom_bit_def Let_def)

lemma or_bound: "0 \<le> a \<Longrightarrow> a < 2 ^ n \<Longrightarrow> 0 \<le> b \<Longrightarrow> b < 2 ^ n \<Longrightarrow> 0 \<le> or a b \<and> or a b < (2 :: int) ^ n"
  by (metis OR_lower OR_upper)

lemma bit_bound: "k < n \<Longrightarrow> 0 \<le> push_bit k (1 :: int) \<and> push_bit k (1 :: int) < 2 ^ n"
  by (simp add: push_bit_eq_mult)

lemma foldl_or_bound:
  assumes "\<And>x. x \<in> set xs \<Longrightarrow> 0 \<le> f x \<and> f x < 2 ^ n" "0 \<le> a \<and> a < 2 ^ n"
  shows "0 \<le> foldl (\<lambda>r x. or r (f x)) a xs \<and> foldl (\<lambda>r x. or r (f x)) a xs < (2 :: int) ^ n"
  using assms
proof (induction xs arbitrary: a)
  case (Cons x xs)
  then have "0 \<le> or a (f x) \<and> or a (f x) < 2 ^ n" by (intro or_bound) auto
  then show ?case using Cons by simp
qed simp

text \<open>\<open>covers a b\<close>: every bit of \<open>b\<close> is set in \<open>a\<close>.\<close>

definition covers :: "int \<Rightarrow> int \<Rightarrow> bool" where "covers a b \<longleftrightarrow> and a b = b"

lemma covers_bits: "covers a b \<longleftrightarrow> (\<forall>n. bit b n \<longrightarrow> bit a n)"
  unfolding covers_def by (auto simp: bit_eq_iff bit_and_iff)

lemma covers_or: "covers a c \<or> covers b c \<Longrightarrow> covers (or a b) c"
  by (auto simp: covers_bits bit_or_iff)

lemma foldl_or_keeps: "covers a c \<Longrightarrow> covers (foldl (\<lambda>r x. or r (f x)) a xs) c"
  by (induction xs arbitrary: a) (auto intro: covers_or)

lemma foldl_or_covers: "x \<in> set xs \<Longrightarrow> covers (f x) c \<Longrightarrow> covers (foldl (\<lambda>r x. or r (f x)) a xs) c"
  by (induction xs arbitrary: a) (auto intro: covers_or foldl_or_keeps)

lemma bloom9_bound: "0 \<le> bloom9 cr b \<and> bloom9 cr b < 2 ^ 2048"
  unfolding bloom9_def Let_def by (rule foldl_or_bound) (use bit_bound [OF bloom_bit_less] in auto)

text \<open>The log entries whose hashes the bloom of the logs collects.\<close>

definition log_items :: "Log list \<Rightarrow> bytes list" where
  "log_items logs = concat (map (\<lambda>log. word_bytes 20 (lg_Address log) # map (word_bytes 32) (lg_Topics log)) logs)"

lemma foldl_nested_or:
  "foldl (\<lambda>bin log. foldl (\<lambda>bin b. or bin (f (g b))) (or bin (f (h log))) (t log)) a logs =
    foldl (\<lambda>bin b. or bin (f b)) a (concat (map (\<lambda>log. h log # map g (t log)) logs))"
  by (induction logs arbitrary: a) (simp_all add: foldl_map)

lemma LogsBloom_items: "LogsBloom cr logs = foldl (\<lambda>bin b. or bin (bloom9 cr b)) 0 (log_items logs)"
  unfolding LogsBloom_def log_items_def by (rule foldl_nested_or)

lemma LogsBloom_bound: "0 \<le> LogsBloom cr logs \<and> LogsBloom cr logs < 2 ^ 2048"
  unfolding LogsBloom_items by (rule foldl_or_bound) (use bloom9_bound in auto)

lemma length_nat_bytes_le: "x < 256 ^ n \<Longrightarrow> length (nat_bytes x) \<le> n"
proof (induction n arbitrary: x)
  case 0
  then show ?case by (subst nat_bytes.simps) simp
next
  case (Suc n)
  then have "x div 256 < 256 ^ n" by (simp add: less_mult_imp_div_less mult.commute)
  then show ?case using Suc.IH [of "x div 256"] by (subst nat_bytes.simps) simp
qed

lemma BytesToBloom_of:
  assumes "0 \<le> x" "x < 2 ^ 2048"
  shows "BytesToBloom (Big_Bytes x) = Some (of_int x)"
proof -
  have "(2 :: nat) ^ 2048 = 2 ^ (8 * 256)" by (rule arg_cong [of _ _ "(^) 2"]) simp
  also have "\<dots> = (2 ^ 8) ^ 256" by (rule power_mult)
  also have "\<dots> = 256 ^ 256" by (rule arg_cong [of _ _ "\<lambda>x. x ^ 256"]) simp
  finally have eq: "(2 :: nat) ^ 2048 = 256 ^ 256" .
  have "nat x < nat (2 ^ 2048)" using assms by (simp only: nat_less_iff)
  moreover have "nat (2 ^ 2048) = (2 :: nat) ^ 2048" by (simp only: nat_power_eq nat_numeral)
  ultimately have "length (nat_bytes (nat x)) \<le> 256" using length_nat_bytes_le [of "nat x" 256] eq by metis
  then show ?thesis using assms(1) by (simp add: BytesToBloom_def Big_Bytes_def of_nat_nat)
qed

lemma uint_bloom: "0 \<le> x \<Longrightarrow> x < 2 ^ 2048 \<Longrightarrow> uint (of_int x :: 2048 word) = x"
  by (simp only: uint_word_of_int_eq take_bit_int_eq_self_iff len_num1 len_bit0) simp

lemma CreateBloom_Some:
  "CreateBloom cr receipts = Some (of_int (foldl (\<lambda>bin r. or bin (LogsBloom cr (rc_Logs r))) 0 receipts))"
  "uint (of_int (foldl (\<lambda>bin r. or bin (LogsBloom cr (rc_Logs r))) 0 receipts) :: 2048 word) =
    foldl (\<lambda>bin r. or bin (LogsBloom cr (rc_Logs r))) 0 receipts"
proof -
  let ?b = "foldl (\<lambda>bin r. or bin (LogsBloom cr (rc_Logs r))) 0 receipts"
  have "0 \<le> ?b \<and> ?b < 2 ^ 2048" by (rule foldl_or_bound) (use LogsBloom_bound in auto)
  then show "CreateBloom cr receipts = Some (of_int ?b)" "uint (of_int ?b :: 2048 word) = ?b"
    unfolding CreateBloom_def by (blast intro: BytesToBloom_of uint_bloom)+
qed

text \<open>
  C30.  The bloom of a block's receipts is always defined, and every address and topic of a log in
  them passes its lookup: no false negatives.
\<close>

theorem bloom_complete:
  "\<exists>b. CreateBloom cr receipts = Some b \<and>
     list_all (\<lambda>r. list_all (BloomLookup cr b) (log_items (rc_Logs r))) receipts"
proof -
  let ?b = "foldl (\<lambda>bin r. or bin (LogsBloom cr (rc_Logs r))) 0 receipts"
  have "BloomLookup cr (of_int ?b) x" if "r \<in> set receipts" "x \<in> set (log_items (rc_Logs r))" for r x
  proof -
    have "covers (LogsBloom cr (rc_Logs r)) (bloom9 cr x)"
      unfolding LogsBloom_items using that(2) by (rule foldl_or_covers) (simp add: covers_bits)
    then have "covers ?b (bloom9 cr x)" by (rule foldl_or_covers [OF that(1)])
    then show ?thesis by (simp add: BloomLookup_def Let_def covers_def CreateBloom_Some(2))
  qed
  then show ?thesis by (auto simp: CreateBloom_Some(1) list_all_iff)
qed

subsection \<open>Gas limits\<close>

lemma int_unat_less: "unat p < 2 ^ 63 \<Longrightarrow> int (unat p) < 2 ^ 63" for p :: u64
  unfolding of_nat_less_iff [where ?'a = int, symmetric] by (simp only: of_nat_power of_nat_numeral)

lemma sint_small:
  fixes p :: u64
  assumes "unat p < 2 ^ 63"
  shows "sint p = int (unat p)"
proof -
  have u: "uint p = int (unat p)" by simp
  have "signed_take_bit 63 (int (unat p)) = int (unat p)"
    by (rule signed_take_bit_int_eq_self) (use int_unat_less [OF assms] in linarith)+
  then show ?thesis unfolding sint_uint u by simp
qed

lemma sint_diff:
  fixes p h :: u64
  assumes "unat p < 2 ^ 63" "unat h < 2 ^ 63"
  shows "sint (p - h) = int (unat p) - int (unat h)"
proof -
  have i: "0 \<le> int (unat p)" "int (unat p) < 2 ^ 63" "0 \<le> int (unat h)" "int (unat h) < 2 ^ 63"
    using assms by (simp_all only: of_nat_0_le_iff int_unat_less)
  have "sint (p - h) = signed_take_bit 63 (sint p - sint h)" by (simp add: sint_word_ariths)
  moreover have "sint p - sint h = int (unat p) - int (unat h)"
    by (simp only: sint_small [OF assms(1)] sint_small [OF assms(2)])
  moreover have "signed_take_bit 63 (int (unat p) - int (unat h)) = int (unat p) - int (unat h)"
    by (rule signed_take_bit_int_eq_self) (use i in linarith)+
  ultimately show ?thesis by (simp only:)
qed

lemma gas_limit_diff_nat:
  assumes "unat p < 2 ^ 63" "unat h < 2 ^ 63"
  shows "unat (gas_limit_diff p h) = (if unat h \<le> unat p then unat p - unat h else unat h - unat p)"
proof (cases "h \<le> p")
  case True
  then have "\<not> p - h <s 0" using sint_diff [OF assms] by (simp add: word_sless_alt word_le_def)
  then show ?thesis using True unat_sub [OF True] by (simp add: gas_limit_diff_def word_le_nat_alt)
next
  case False
  then have le: "p \<le> h" by simp
  have "p - h <s 0" using False sint_diff [OF assms] by (simp add: word_sless_alt word_le_def)
  then show ?thesis using False unat_sub [OF le] by (simp add: gas_limit_diff_def word_le_nat_alt)
qed

lemma unat_plus_small: "unat a + unat b < 2 ^ 64 \<Longrightarrow> unat (a + b) = unat a + unat b" for a b :: u64
  by (simp add: unat_word_ariths)

lemma limit_ifs:
  fixes m L F K A S :: nat
  shows "(if (if L < m then m else L) < F then (if F < A then F else A)
     else if K < (if L < m then m else L) then (if S < K then K else S) else if L < m then m else L) =
    (let l = max m L in if l < F then min A F else if K < l then max S K else l)"
  by (auto simp: Let_def max_def min_def)

text \<open>The gas limit in numbers, where the parent's limit is at least the minimum.\<close>

lemma CalcGasLimit_nat:
  assumes g: "unat MinGasLimit \<le> unat (h_GasLimit parent)" "unat (h_GasLimit parent) < 2 ^ 62"
    and u: "unat (h_GasUsed parent) \<le> unat (h_GasLimit parent)"
  shows "unat (CalcGasLimit parent gasFloor gasCeil) =
    (let G = unat (h_GasLimit parent); U = unat (h_GasUsed parent); d = G div 1024 - 1;
         l = max (unat MinGasLimit) (G - d + (U + U div 2) div 1024)
     in if l < unat gasFloor then min (G + d) (unat gasFloor)
        else if unat gasCeil < l then max (G - d) (unat gasCeil) else l)"
proof -
  let ?g = "h_GasLimit parent" and ?u = "h_GasUsed parent"
  let ?d = "?g div GasLimitBoundDivisor - 1" and ?c = "(?u + ?u div 2) div GasLimitBoundDivisor"
  have div': "unat (?g div GasLimitBoundDivisor) = unat ?g div 1024"
    by (simp add: unat_div_distrib GasLimitBoundDivisor_def)
  have d: "unat ?d = unat ?g div 1024 - 1"
    using g(1) div' by (subst unat_sub) (simp_all add: word_le_nat_alt MinGasLimit_def)
  have "unat (?u + ?u div 2) = unat ?u + unat ?u div 2"
    using u g(2) by (subst unat_plus_small) (simp_all add: unat_div_distrib)
  then have c: "unat ?c = (unat ?u + unat ?u div 2) div 1024"
    by (simp add: unat_div_distrib GasLimitBoundDivisor_def)
  have s: "unat (?g - ?d) = unat ?g - (unat ?g div 1024 - 1)"
    using d by (subst unat_sub) (simp_all add: word_le_nat_alt)
  have "unat ?c \<le> unat ?u + unat ?u div 2" "unat ?u div 2 \<le> unat ?u" unfolding c by simp_all
  moreover have "unat (?g - ?d) \<le> unat ?g" unfolding s by simp
  ultimately have small: "unat (?g - ?d) + unat ?c < 2 ^ 64" using u g(2) by simp
  have l: "unat (?g - ?d + ?c) = unat ?g - (unat ?g div 1024 - 1) + (unat ?u + unat ?u div 2) div 1024"
    unfolding s [symmetric] c [symmetric] by (rule unat_plus_small) (rule small)
  have a: "unat (?g + ?d) = unat ?g + (unat ?g div 1024 - 1)"
    unfolding d [symmetric] by (rule unat_plus_small) (use d g(2) in simp)
  show ?thesis
    unfolding CalcGasLimit_def Let_def word_less_nat_alt if_distrib [of unat] l a s
    by (rule limit_ifs [unfolded Let_def])
qed

lemma contrib_less:
  fixes G U q h :: nat
  assumes "G < 1024 + 1024 * q" "2 * h \<le> U" "U \<le> G" "61523 \<le> q"
  shows "U + h < (2 * q - 1) * 1024"
  using assms by linarith

lemma near: "G - d \<le> r \<Longrightarrow> r \<le> G + d \<Longrightarrow> (if r \<le> G then G - r else r - G) \<le> d" for G d r :: nat
  by auto

lemma limit_range:
  fixes G d C m F K :: nat
  assumes "m \<le> G" "m \<le> K" "d \<le> G" "C \<le> 2 * d"
  defines "l \<equiv> max m (G - d + C)"
  defines "r \<equiv> (if l < F then min (G + d) F else if K < l then max (G - d) K else l)"
  shows "G - d \<le> r" "r \<le> G + d" "m \<le> r"
  using assms(1-4) unfolding r_def l_def by (auto simp: max_def min_def)

text \<open>
  C31.  The gas limit a proposer computes passes the gas-limit rule of the verification, for
  every setting of the floor and of a ceiling of at least the minimum.
\<close>

theorem CalcGasLimit_accepted:
  assumes "MinGasLimit \<le> h_GasLimit parent" "h_GasLimit parent < 2 ^ 62"
    and "h_GasUsed parent \<le> h_GasLimit parent" and "MinGasLimit \<le> gasCeil"
  shows "let limit = CalcGasLimit parent gasFloor gasCeil in
    gas_limit_diff (h_GasLimit parent) limit < h_GasLimit parent div GasLimitBoundDivisor \<and>
    MinGasLimit \<le> limit \<and> limit \<le> 0x7fffffffffffffff"
proof -
  let ?G = "unat (h_GasLimit parent)" and ?U = "unat (h_GasUsed parent)"
  let ?l = "CalcGasLimit parent gasFloor gasCeil"
  have g: "unat MinGasLimit \<le> ?G" "?G < 2 ^ 62" "?U \<le> ?G" "unat MinGasLimit \<le> unat gasCeil"
    using assms by (simp_all add: word_le_nat_alt word_less_nat_alt)
  have m: "unat MinGasLimit = 63000000" by (simp add: MinGasLimit_def)
  let ?d = "?G div 1024 - 1" and ?C = "(?U + ?U div 2) div 1024"
  have q: "61523 \<le> ?G div 1024" using div_le_mono [of 63000000 ?G 1024] g(1) m by simp
  have "?U + ?U div 2 < (2 * (?G div 1024) - 1) * 1024"
    by (rule contrib_less [OF _ _ g(3) q]) (simp_all add: div_mult2_eq dividend_less_times_div)
  then have c: "?C < 2 * (?G div 1024) - 1" by (rule less_mult_imp_div_less)
  note e = CalcGasLimit_nat [OF g(1-3), of gasFloor gasCeil, unfolded Let_def]
  have "x < 2 * y - 1 \<Longrightarrow> x \<le> 2 * (y - 1)" for x y :: nat by linarith
  from this [OF c] have C: "?C \<le> 2 * ?d" .
  have d: "?d \<le> ?G" by (rule le_trans [OF diff_le_self div_le_dividend])
  note range = limit_range [OF g(1,4) d C, of "unat gasFloor", folded e]
  have "unat ?l < 2 ^ 63" "?G < 2 ^ 63" using range(2) d g(2) by simp_all
  note diff = gas_limit_diff_nat [OF this(2,1)]
  have "unat (gas_limit_diff (h_GasLimit parent) ?l) \<le> ?d" unfolding diff using range(1,2) by (rule near)
  then have "unat (gas_limit_diff (h_GasLimit parent) ?l) < ?G div 1024" using q by simp
  then show ?thesis using range(3) \<open>unat ?l < 2 ^ 63\<close>
    by (simp add: Let_def word_le_nat_alt word_less_nat_alt unat_div_distrib GasLimitBoundDivisor_def)
qed

lemma CalcGasLimit_accepted_witness:
  "\<exists>parent :: Header. MinGasLimit \<le> h_GasLimit parent \<and> h_GasUsed parent \<le> h_GasLimit parent \<and>
     MinGasLimit \<le> CalcGasLimit parent 0 70000000"
proof -
  obtain hd :: Header where g: "h_GasLimit hd = 64000000" "h_GasUsed hd = 50000000"
    by (rule that [of "(undefined :: Header)\<lparr>h_GasLimit := 64000000, h_GasUsed := 50000000\<rparr>"]) simp_all
  have "MinGasLimit \<le> CalcGasLimit hd 0 70000000"
    using CalcGasLimit_accepted [of hd 70000000 0] g by (simp add: MinGasLimit_def Let_def)
  then show ?thesis using g by (intro exI [of _ hd]) (simp add: MinGasLimit_def)
qed

subsection \<open>A proposed block is valid\<close>

lemma finalise_clean: "j_dirties (sdb_journal (clearJournalAndRefund s)) = []" "tracked_dirties (clearJournalAndRefund s) = []"
  by (simp_all add: clearJournalAndRefund_def newJournal_def tracked_dirties_def)

lemma Finalise_tracked_idem: "Finalise_tracked cr d (Finalise_tracked cr d' ts) = Finalise_tracked cr d' ts"
proof -
  have "clearJournalAndRefund (clearJournalAndRefund s) = clearJournalAndRefund s" for s
    by (simp add: clearJournalAndRefund_def)
  moreover have "fold SetDirty [] = id" by simp
  ultimately show ?thesis
    by (simp add: Finalise_tracked_def case_prod_beta Let_def finalise_clean option.map_id)
qed

lemma CreateBloom_Nil: "CreateBloom cr [] = Some 0"
  by (simp add: CreateBloom_Some(1))

lemma types_NewBlock_fields:
  assumes "types_NewBlock ch cr header txs uncles receipts = Some block"
  shows "b_transactions block = txs" "b_uncles block = uncles"
    and "h_UncleHash (b_header block) = CalcUncleHash ch uncles" "h_TxHash (b_header block) = DeriveSha_txs ch txs"
    and "h_ReceiptHash (b_header block) = (if receipts = [] then EmptyRootHash ch else DeriveSha_receipts ch receipts)"
    and "Some (h_Bloom (b_header block)) = (if receipts = [] then Some (h_Bloom header) else CreateBloom cr receipts)"
    and "h_Root (b_header block) = h_Root header" "h_GasUsed (b_header block) = h_GasUsed header"
    and "h_TotalBalanceOfMiners (b_header block) = h_TotalBalanceOfMiners header"
    and "h_Number (b_header block) = h_Number header" "h_ParentHash (b_header block) = h_ParentHash header"
  using assms
  by (auto simp: types_NewBlock_def Let_def EmptyRootHash_def EmptyUncleHash_def bind_eq_Some_conv split: if_splits)

text \<open>
  C32.  The block the engine assembles at the end of a proposal passes the validation of its body
  and, on the state and receipts it was made from, the validation of its state, where the chain
  has the parent's state and not yet the block; \<^verbatim>\<open>DeriveSha\<close> of no receipts and of no transactions
  is the root of the empty trie.
\<close>

theorem finalized_block_valid:
  assumes "Algorand_Finalize ch cr config header ts txs [] receipts = Some (block, ts')"
    and "h_Bloom header = 0" and "DeriveSha_receipts ch [] = DeriveSha_txs ch []"
    and "\<not> HasBlockAndState ch (Block_Hash cr block) (Block_Number block)"
    and "HasBlockAndState ch (h_ParentHash header) (NumberU64 header - 1)"
  shows "ValidateBody ch cr block = None \<and>
    ValidateState ch cr config block ts' receipts (h_GasUsed header) = Some (None, ts')"
proof
  let ?ts = "Finalise_tracked cr (IsEIP158 config (h_Number header)) (fst ts, accumulateRewards cr config header (snd ts))"
  obtain t where t: "TotalBalanceOfMiners cr ?ts = Some t" "ts' = ?ts"
    and b: "types_NewBlock ch cr (header\<lparr>h_Root := trie_Hash ch (sdb_trie (snd ?ts)), h_TotalBalanceOfMiners := t\<rparr>) txs [] receipts = Some block"
    using assms(1) by (auto simp: Algorand_Finalize_def Let_def bind_eq_Some_conv)
  note f = types_NewBlock_fields [OF b]
  show "ValidateBody ch cr block = None"
    using assms(4,5) f by (simp add: ValidateBody_def VerifyUncles_def Let_def Block_Number_def NumberU64_def)
  have i: "Finalise_tracked cr (IsEIP158 config (h_Number header)) ts' = ts'" unfolding t(2) by (rule Finalise_tracked_idem)
  have bloom: "CreateBloom cr receipts = Some (h_Bloom (b_header block))"
    using f(6) assms(2) by (cases "receipts = []") (simp_all add: CreateBloom_Nil)
  have root: "h_ReceiptHash (b_header block) = DeriveSha_receipts ch receipts"
    using f(5) assms(3) by (cases "receipts = []") (simp_all add: EmptyRootHash_def)
  show "ValidateState ch cr config block ts' receipts (h_GasUsed header) = Some (None, ts')"
    unfolding ValidateState_def Let_def bloom using root f(7-10) i t(1) by (simp add: t(2))
qed

text \<open>A chain that has every parent state and no other block, with trivial hashes.\<close>

definition demo_chain :: chain where
  "demo_chain =
     \<lparr>GetHeader = (\<lambda>_ _. None), HasBlock = (\<lambda>h _. h = 0), HasBlockAndState = (\<lambda>h _. h = 0),
      StateAtHeader = (\<lambda>_. Some demo_state), VerifyProof = (\<lambda>_ _ _ _ _. True), ProofState = (\<lambda>_ _. None),
      DeriveSha_txs = (\<lambda>txs. of_nat (length txs)), DeriveSha_receipts = (\<lambda>rs. of_nat (length rs)),
      CalcUncleHash = (\<lambda>_. 5), trie_Hash = (\<lambda>_. 9)\<rparr>"

definition demo_chain_config :: ChainConfig where
  "demo_chain_config =
     \<lparr>cc_ChainID = 1, cc_EIP155Block = Some 0, cc_EIP158Block = Some 0, cc_ByzantiumBlock = Some 0,
      cc_DAOForkBlock = None, cc_DAOForkSupport = False, cc_BlockYear = 1000, cc_Algorand = demo_config\<rparr>"

definition demo_header :: Header where
  "demo_header =
     \<lparr>h_ParentHash = 0, h_UncleHash = 0, h_Coinbase = 7, h_Root = 0, h_TxHash = 0, h_ReceiptHash = 0, h_Bloom = 0,
      h_Difficulty = 1, h_Number = 4, h_GasLimit = 64000000, h_GasUsed = 0, h_Time = 10, h_Extra = [], h_MixDigest = 0,
      h_Nonce = 1, h_TotalBalanceOfMiners = 3, h_Certificate = emptyCertificate\<rparr>"

lemma finalized_block_valid_witness:
  "\<exists>block ts'. Algorand_Finalize demo_chain plain_crypto demo_chain_config demo_header (None, demo_state) [] [] [] =
       Some (block, ts') \<and>
     ValidateBody demo_chain plain_crypto block = None \<and>
     ValidateState demo_chain plain_crypto demo_chain_config block ts' [] 0 = Some (None, ts')"
proof -
  obtain block ts' where f: "Algorand_Finalize demo_chain plain_crypto demo_chain_config demo_header (None, demo_state) [] [] [] =
      Some (block, ts')"
    by (simp add: Algorand_Finalize_def Finalise_tracked_def case_prod_beta Let_def TotalBalanceOfMiners_def TotalBalance_def
        types_NewBlock_def)
  have "Block_Hash plain_crypto block \<noteq> 0"
    by (simp add: Block_Hash_def Header_Hash_def rlpHash_def plain_crypto_def)
  then show ?thesis
    using finalized_block_valid [OF f] f by (simp add: demo_chain_def demo_header_def)
qed

subsection \<open>What a seal guarantees\<close>

text \<open>\<open>signed_by\<close>: the verification of a signed credential succeeds, with the given weight.\<close>

definition signed_by ::
    "crypto \<Rightarrow> binomial \<Rightarrow> AlgorandConfig \<Rightarrow> StateDB \<Rightarrow> Header \<Rightarrow> bytes \<Rightarrow> ForwardSecureSignature \<Rightarrow> Credential \<Rightarrow> u64 \<Rightarrow> bool" where
  "signed_by cr bin config s parent data sig c w \<longleftrightarrow>
     (\<exists>c'. VerifySignatureAndCredential cr bin (GetMinerVerifier cr config s (cr_Address c) (cr_Height c)) data sig c s
        (Seed parent) (h_TotalBalanceOfMiners parent) = Some (None, c') \<and> cr_Weight c' = w)"

definition cert_vote :: "u64 \<Rightarrow> Certificate \<Rightarrow> CertVoteStorage \<Rightarrow> VoteData" where
  "cert_vote height certificate v = NewVoteDataFromCertVoteStorage v height (ct_Round certificate) (ct_Value certificate)"

abbreviation vote_signed ::
    "crypto \<Rightarrow> binomial \<Rightarrow> AlgorandConfig \<Rightarrow> StateDB \<Rightarrow> Header \<Rightarrow> u64 \<Rightarrow> Certificate \<Rightarrow> CertVoteStorage \<Rightarrow> u64 \<Rightarrow> bool" where
  "vote_signed cr bin config s parent height certificate v w \<equiv>
     signed_by cr bin config s parent (word_bytes 32 (ct_Value certificate)) (cvs_ESignValue v)
       (v_Credential (cert_vote height certificate v)) w"

lemma seal_votes_ok:
  assumes "seal_votes cr bin config s parent height certificate (w0, A0) votes = Some (Inr (w, A))"
  shows "\<exists>ws. list_all2 (vote_signed cr bin config s parent height certificate) votes ws \<and> w = w0 + sum_list ws \<and>
    A = fold List.insert (map (\<lambda>v. cs_Address (cvs_Credential v)) votes) A0"
  using assms
proof (induction votes arbitrary: w0 A0)
  case Nil
  then show ?case by simp
next
  case (Cons v votes)
  let ?v = "cert_vote height certificate v"
  from Cons.prems obtain c where
    c: "VerifySignatureAndCredential cr bin (GetMinerVerifier cr config s (v_Address ?v) (v_Height ?v)) (VoteData_SignBytes ?v)
      (v_ESignValue ?v) (v_Credential ?v) s (Seed parent) (h_TotalBalanceOfMiners parent) = Some (None, c)"
    and r: "seal_votes cr bin config s parent height certificate
      (w0 + cr_Weight c, List.insert (cs_Address (cvs_Credential v)) A0) votes = Some (Inr (w, A))"
    by (auto simp: cert_vote_def Let_def split: option.splits prod.splits)
  have "vote_signed cr bin config s parent height certificate v (cr_Weight c)"
    using c by (auto simp: signed_by_def cert_vote_def NewVoteDataFromCertVoteStorage_def VoteData_SignBytes_def)
  moreover obtain ws where "list_all2 (vote_signed cr bin config s parent height certificate) votes ws"
    "w = w0 + cr_Weight c + sum_list ws"
    "A = fold List.insert (map (\<lambda>v. cs_Address (cvs_Credential v)) votes) (List.insert (cs_Address (cvs_Credential v)) A0)"
    using Cons.IH [OF r] by blast
  ultimately show ?case by (intro exI [of _ "cr_Weight c # ws"]) (simp add: add.assoc)
qed

lemma unat_sum_list_le: "unat (sum_list ws) \<le> (\<Sum>w\<leftarrow>ws. unat w)" for ws :: "u64 list"
proof (induction ws)
  case (Cons w ws)
  have "unat (w + sum_list ws) \<le> unat w + unat (sum_list ws)" by (simp add: unat_word_ariths)
  with Cons show ?case by simp
qed simp

definition proposal_signed ::
    "crypto \<Rightarrow> binomial \<Rightarrow> AlgorandConfig \<Rightarrow> StateDB \<Rightarrow> Header \<Rightarrow> Header \<Rightarrow> bool" where
  "proposal_signed cr bin config s parent header \<longleftrightarrow>
     (let p = NewProposalLeaderDataFromStorage (Header_Hash cr header) (NumberU64 header) (ct_Proposal (h_Certificate header))
      in (\<exists>w. signed_by cr bin config s parent (word_bytes 32 (Header_Hash cr header)) (pl_ESignValue p) (pl_Credential p) w) \<and>
         VerifySeed cr (GetMinerVerifier cr config s (Proposer header) (NumberU64 header)) (NumberU64 header) (Seed parent)
           (Header_Hash cr parent) (Seed header) (Certificate_SeedProof (h_Certificate header)) = None)"

definition seal_state :: "chain \<Rightarrow> Header \<Rightarrow> Header \<Rightarrow> StateDB option" where
  "seal_state ch header parent =
     (let proof = ct_TrieProof (h_Certificate header)
      in if proof = [] then StateAtHeader ch parent
         else if VerifyProof ch (h_Root parent) (NumberU64 header) (Proposer header) (ct_CertVoteSet (h_Certificate header)) proof
              then ProofState ch (h_Root parent) proof else None)"

lemma VerifySeal_state:
  "VerifySeal ch cr bin config header parent = Some None \<longleftrightarrow>
     (\<exists>s. seal_state ch header parent = Some s \<and> check_seal cr bin config header parent s = Some None)"
  by (simp add: VerifySeal_def seal_state_def Let_def split: option.split)

text \<open>Exactly which checks a seal passes.\<close>

lemma check_seal_iff:
  "check_seal cr bin config header parent s = Some None \<longleftrightarrow>
     (\<exists>w A. seal_votes cr bin config s parent (NumberU64 header) (h_Certificate header) (0, [])
          (ct_CertVoteSet (h_Certificate header)) = Some (Inr (w, A)) \<and>
        length A = length (ct_CertVoteSet (h_Certificate header)) \<and>
        fst (GetCommitteeNumber (NumberU64 header) RoundStep3Certifying) \<le> w \<and>
        proposal_signed cr bin config s parent header)"
proof -
  let ?p = "NewProposalLeaderDataFromStorage (Header_Hash cr header) (NumberU64 header) (ct_Proposal (h_Certificate header))"
  have p: "cr_Address (pl_Credential ?p) = Proposer header" "cr_Height (pl_Credential ?p) = NumberU64 header"
    "ProposalLeaderData_SignBytes ?p = word_bytes 32 (Header_Hash cr header)"
    by (simp_all add: NewProposalLeaderDataFromStorage_def NewCredentialFromCredentialStorage_def Proposer_def
        Certificate_Proposer_def ProposalLeaderData_SignBytes_def)
  have q: "(case x of None \<Rightarrow> None | Some (Some err, _) \<Rightarrow> Some (Some (BadProposer err))
      | Some (None, _) \<Rightarrow> (case y of Some err \<Rightarrow> Some (Some (BadSeedProof err)) | None \<Rightarrow> Some None)) = Some None \<longleftrightarrow>
      (\<exists>c. x = Some (None, c)) \<and> y = None" for x :: "(miner_error option \<times> Credential) option" and y
    by (auto split: option.split)
  show ?thesis
    unfolding check_seal_def proposal_signed_def signed_by_def p Let_def
    by (cases "seal_votes cr bin config s parent (NumberU64 header) (h_Certificate header) (0, [])
          (ct_CertVoteSet (h_Certificate header))")
      (auto simp: q not_less split: sum.split)
qed

lemma distinct_by_insert:
  assumes "length (fold List.insert xs []) = length xs"
  shows "distinct xs"
proof -
  have "distinct (fold List.insert xs [])" "set (fold List.insert xs []) = set xs"
    by (simp_all add: fold_insert)
  then show ?thesis using assms by (metis card_distinct distinct_card)
qed

text \<open>
  C33.  A verified seal carries votes of pairwise different signers, each verified on the parent's
  state, whose weights add up to the threshold of the certifying committee, and a proposal signed
  by the proposer for this very header; no wrap-around of the 64-bit sum can fake the threshold.
\<close>

theorem VerifySeal_sound:
  assumes "VerifySeal ch cr bin config header parent = Some None"
  shows "\<exists>s ws. seal_state ch header parent = Some s \<and>
    list_all2 (vote_signed cr bin config s parent (NumberU64 header) (h_Certificate header))
      (ct_CertVoteSet (h_Certificate header)) ws \<and>
    distinct (map (\<lambda>v. cs_Address (cvs_Credential v)) (ct_CertVoteSet (h_Certificate header))) \<and>
    unat (CertCommitteeThreshold CommitteeConfigv1) \<le> (\<Sum>w\<leftarrow>ws. unat w) \<and>
    proposal_signed cr bin config s parent header"
proof -
  let ?votes = "ct_CertVoteSet (h_Certificate header)"
  obtain s w A where s: "seal_state ch header parent = Some s" "proposal_signed cr bin config s parent header"
    and v: "seal_votes cr bin config s parent (NumberU64 header) (h_Certificate header) (0, []) ?votes = Some (Inr (w, A))"
    and len: "length A = length ?votes" and thr: "fst (GetCommitteeNumber (NumberU64 header) RoundStep3Certifying) \<le> w"
    using assms unfolding VerifySeal_state check_seal_iff by blast
  obtain ws where ws: "list_all2 (vote_signed cr bin config s parent (NumberU64 header) (h_Certificate header)) ?votes ws"
    "w = sum_list ws" "A = fold List.insert (map (\<lambda>v. cs_Address (cvs_Credential v)) ?votes) []"
    using seal_votes_ok [OF v] by auto
  have "distinct (map (\<lambda>v. cs_Address (cvs_Credential v)) ?votes)"
    using len by (intro distinct_by_insert) (simp add: ws(3))
  moreover have "unat (CertCommitteeThreshold CommitteeConfigv1) \<le> unat (sum_list ws)"
    using thr by (simp add: GetCommitteeNumber_def round_step_defs ws(2) word_le_nat_alt)
  ultimately show ?thesis using s ws(1) unat_sum_list_le [of ws] le_trans by blast
qed

text \<open>
  C34.  The seal does not bind the certificate to the block: the votes of a verified certificate,
  for whatever value they were cast, also seal any other header of that height that its proposer
  signed.  Nothing compares the certified value with the hash of the header.
\<close>

theorem certificate_not_bound:
  assumes "VerifySeal ch cr bin config header parent = Some None" and "ct_TrieProof (h_Certificate header) = []"
    and "NumberU64 other = NumberU64 header"
    and "h_Certificate other = (h_Certificate header)\<lparr>ct_Proposal := proposal\<rparr>"
    and "StateAtHeader ch parent = Some s" and "proposal_signed cr bin config s parent other"
  shows "VerifySeal ch cr bin config other parent = Some None"
proof -
  have st: "seal_state ch header parent = Some s" "seal_state ch other parent = Some s"
    using assms(2,4,5) by (simp_all add: seal_state_def)
  have c: "check_seal cr bin config header parent s = Some None" using assms(1) st by (simp add: VerifySeal_state)
  have same: "seal_votes cr bin config s parent h (c\<lparr>ct_Proposal := p\<rparr>) (w, A) vs = seal_votes cr bin config s parent h c (w, A) vs"
    for h c p w A vs
    by (induction vs arbitrary: w A) (auto simp: Let_def split: option.split)
  show ?thesis using c assms(3,4,6) st(2) unfolding VerifySeal_state check_seal_iff by (auto simp: same)
qed

text \<open>A miner with the whole stake, and a certificate of its vote for the value 1.\<close>

definition seal_config :: AlgorandConfig where
  "seal_config = \<lparr>TimeoutTwoLambda = 2000, TotalWeight = 3000, IntervalSize = 1000\<rparr>"

definition seal_trie :: "address \<Rightarrow> Account option" where
  "seal_trie a =
     (if a = 7 then Some ((emptyAccount plain_crypto)\<lparr>acc_Balance := 2\<rparr>)
      else if a = MinerAddress then Some ((emptyAccount plain_crypto)\<lparr>acc_Root :=
        (\<lambda>k. if k = 7 then MakeStartLifespanCoinbase 1 30 7 else if k = 8 then 3 else if k = 9 then 5 else 0)\<rparr>)
      else None)"

definition seal_db :: StateDB where "seal_db = NewStateDB (\<lambda>_. None) seal_trie"

definition seal_sig :: ForwardSecureSignature where "seal_sig = \<lparr>sig_Sig = 4, sig_Pk = 5, sig_PkSig = 4\<rparr>"

definition seal_certificate :: Certificate where
  "seal_certificate =
     \<lparr>ct_Height = 4, ct_Round = 1, ct_Value = 1,
      ct_Proposal = \<lparr>ps_ESignValue = seal_sig, ps_Round = 1, ps_Credential = \<lparr>cs_Address = 7, cs_Proof = 1\<rparr>, ps_SeedProof = 1\<rparr>,
      ct_CertVoteSet = [\<lparr>cvs_ESignValue = seal_sig, cvs_Credential = \<lparr>cs_Address = 7, cs_Proof = 1\<rparr>\<rparr>], ct_TrieProof = []\<rparr>"

definition sealed_header :: Header where
  "sealed_header = demo_header\<lparr>h_MixDigest := 6, h_Certificate := seal_certificate\<rparr>"

abbreviation always :: binomial where "always \<equiv> \<lambda>h n t W j. True"

lemma seal_verifier: "GetMinerVerifier plain_crypto seal_config seal_db 7 4 =
    \<lparr>mv_config = seal_config, mv_miner = 7, mv_coinbase = 7, mv_start = 1, mv_end = 1000, mv_lifespan = 30,
     mv_vrfVerifier = 3, mv_voteVerifier = 5\<rparr>"
  by (simp add: GetMinerVerifier_def GetMiner_def MakeMinerInfoKey_def plain_crypto_def seal_db_def GetState_new seal_trie_def
      MinerAddress_def slot_parse BigToHash_eq GetInterval_def GetIntervalSn_def seal_config_def)

lemma seal_choices: "Choose always 6 3000 1 20 3000 = Some 20" "Choose always 6 3000 1112 1500 3000 = Some 1500"
  by code_simp+

lemma seal_weight: "GetWeight plain_crypto seal_config 7 seal_db 2 6 = Some (3000, 3000)"
proof -
  have "GetTotalFund plain_crypto seal_db 7 = 0"
    by (simp add: GetTotalFund_def GetState_new seal_db_def seal_trie_def DelegationAddress_def MinerAddress_def)
  moreover have "GetBalance seal_db 7 = 2"
    by (simp add: GetBalance_def seal_db_def getStateObject_def seal_trie_def NewStateDB_def newObject_def Let_def)
  ultimately have "GetBalanceWithFund plain_crypto seal_db 7 = 2" by (simp add: GetBalanceWithFund_def)
  then show ?thesis by (simp add: GetWeight_def sdiv_pos Big_Uint64_def Let_def seal_config_def)
qed

lemma seal_signed:
  assumes "Seed parent = 0" "h_TotalBalanceOfMiners parent = 2" "cr_Address c = 7" "cr_Height c = 4" "cr_Proof c = 1"
    and "cr_Step c = 1 \<and> w = 20 \<or> cr_Step c = 3 \<and> w = 1500"
  shows "signed_by plain_crypto always seal_config seal_db parent data seal_sig c w"
proof -
  have "VrfVerify256 plain_crypto 3 1 d = Some 6" for d
    by (simp add: VrfVerify256_def VrfProofToHash256_def plain_crypto_def)
  then have "VerifySortition plain_crypto always (GetMinerVerifier plain_crypto seal_config seal_db 7 4) 4 r (cr_Step c) 1 0
      seal_db 2 = Some (None, w)" for r
    using assms(6) seal_choices seal_weight
    by (auto simp: VerifySortition_def seal_verifier MinerVerifier_Validate_def GetCommitteeNumber_def round_step_defs
        CommitteeConfigv1_def Let_def)
  moreover have "VerifySignature plain_crypto (GetMinerVerifier plain_crypto seal_config seal_db 7 4) 4 data seal_sig = Some None"
    unfolding seal_verifier by (simp add: VerifySignature_def MinerVerifier_Validate_def ForwardSecureVerify_def Verify_def seal_sig_def
        plain_crypto_def)
  ultimately show ?thesis using assms(1-5) by (simp add: signed_by_def VerifySignatureAndCredential_def)
qed

lemma seal_proposal:
  assumes "Seed parent = 0" "h_TotalBalanceOfMiners parent = 2" "h_Number header = 4" "h_MixDigest header = 6"
    and "h_Certificate header = seal_certificate"
  shows "proposal_signed plain_crypto always seal_config seal_db parent header"
proof -
  let ?p = "NewProposalLeaderDataFromStorage (Header_Hash plain_crypto header) (NumberU64 header) (ct_Proposal (h_Certificate header))"
  have n: "NumberU64 header = 4" "Proposer header = 7" "Seed header = 6"
    using assms(3-5) by (simp_all add: NumberU64_def Proposer_def Certificate_Proposer_def seal_certificate_def Seed_def)
  have "signed_by plain_crypto always seal_config seal_db parent d (pl_ESignValue ?p) (pl_Credential ?p) 20" for d
    using seal_signed [OF assms(1,2), of "pl_Credential ?p" 20 d] assms(5) n
    by (simp add: NewProposalLeaderDataFromStorage_def NewCredentialFromCredentialStorage_def seal_certificate_def round_step_defs)
  moreover have "VerifySeed plain_crypto (GetMinerVerifier plain_crypto seal_config seal_db 7 4) 4 ps ph 6 1 = None" for ps ph
    unfolding seal_verifier by (simp add: VerifySeed_def MinerVerifier_Validate_def VrfVerify256_def VrfProofToHash256_def plain_crypto_def)
  moreover have "Certificate_SeedProof (h_Certificate header) = 1"
    by (simp add: assms(5) Certificate_SeedProof_def seal_certificate_def)
  ultimately show ?thesis unfolding proposal_signed_def Let_def n by metis
qed

definition seal_chain :: chain where
  "seal_chain = demo_chain\<lparr>StateAtHeader := (\<lambda>_. Some seal_db)\<rparr>"

definition seal_parent :: Header where
  "seal_parent = demo_header\<lparr>h_Number := 3, h_TotalBalanceOfMiners := 2\<rparr>"

lemma seal_parent_fields: "Seed seal_parent = 0" "h_TotalBalanceOfMiners seal_parent = 2"
  by (simp_all add: seal_parent_def demo_header_def Seed_def)

lemma seal_votes_single:
  fixes v h cert
  defines "vote \<equiv> NewVoteDataFromCertVoteStorage v h (ct_Round cert) (ct_Value cert)"
  assumes "signed_by cr bin config s parent (VoteData_SignBytes vote) (v_ESignValue vote) (v_Credential vote) w"
  shows "seal_votes cr bin config s parent h cert (0, []) [v] = Some (Inr (w, [cs_Address (cvs_Credential v)]))"
  using assms(2) unfolding vote_def by (auto simp: signed_by_def Let_def)

lemma sealed_header_ok: "VerifySeal seal_chain plain_crypto always seal_config sealed_header seal_parent = Some None"
proof -
  have n: "NumberU64 sealed_header = 4" by (simp add: NumberU64_def sealed_header_def demo_header_def)
  have "seal_state seal_chain sealed_header seal_parent = Some seal_db"
    by (simp add: seal_state_def seal_chain_def sealed_header_def seal_certificate_def)
  moreover have "proposal_signed plain_crypto always seal_config seal_db seal_parent sealed_header"
    by (rule seal_proposal) (simp_all add: seal_parent_fields sealed_header_def demo_header_def)
  moreover have "seal_votes plain_crypto always seal_config seal_db seal_parent 4 seal_certificate (0, [])
      (ct_CertVoteSet seal_certificate) = Some (Inr (1500, [7]))"
  proof -
    let ?v = "hd (ct_CertVoteSet seal_certificate)"
    let ?w = "NewVoteDataFromCertVoteStorage ?v 4 (ct_Round seal_certificate) (ct_Value seal_certificate)"
    have f: "cr_Address (v_Credential ?w) = 7" "cr_Height (v_Credential ?w) = 4" "cr_Proof (v_Credential ?w) = 1"
      "cr_Step (v_Credential ?w) = 3" "v_ESignValue ?w = seal_sig"
      by (simp_all add: NewVoteDataFromCertVoteStorage_def NewCredentialFromCredentialStorage_def seal_certificate_def round_step_defs)
    have "signed_by plain_crypto always seal_config seal_db seal_parent (VoteData_SignBytes ?w) seal_sig (v_Credential ?w) 1500"
      using f by (intro seal_signed) (simp_all add: seal_parent_fields)
    then have "seal_votes plain_crypto always seal_config seal_db seal_parent 4 seal_certificate (0, []) [?v] =
        Some (Inr (1500, [cs_Address (cvs_Credential ?v)]))"
      by (intro seal_votes_single) (simp only: f)
    then show ?thesis by (simp add: seal_certificate_def)
  qed
  moreover have "length (ct_CertVoteSet seal_certificate) = 1" by (simp add: seal_certificate_def)
  ultimately show ?thesis
    unfolding VerifySeal_state check_seal_iff n
    by (auto simp: sealed_header_def GetCommitteeNumber_def round_step_defs CommitteeConfigv1_def)
qed

lemma VerifySeal_sound_witness:
  "\<exists>s ws. list_all2 (vote_signed plain_crypto always seal_config s seal_parent (NumberU64 sealed_header)
       (h_Certificate sealed_header)) (ct_CertVoteSet (h_Certificate sealed_header)) ws \<and>
     1112 \<le> (\<Sum>w\<leftarrow>ws. unat w)"
  using VerifySeal_sound [OF sealed_header_ok] by (auto simp: CommitteeConfigv1_def)

lemma certificate_not_bound_witness:
  "VerifySeal seal_chain plain_crypto always seal_config (sealed_header\<lparr>h_Coinbase := 9\<rparr>) seal_parent = Some None \<and>
   ct_Value (h_Certificate (sealed_header\<lparr>h_Coinbase := 9\<rparr>)) \<noteq> Header_Hash plain_crypto (sealed_header\<lparr>h_Coinbase := 9\<rparr>)"
proof
  have "proposal_signed plain_crypto always seal_config seal_db seal_parent (sealed_header\<lparr>h_Coinbase := 9\<rparr>)"
    by (rule seal_proposal) (simp_all add: seal_parent_fields sealed_header_def demo_header_def)
  then show "VerifySeal seal_chain plain_crypto always seal_config (sealed_header\<lparr>h_Coinbase := 9\<rparr>) seal_parent = Some None"
    by (intro certificate_not_bound [OF sealed_header_ok, where proposal = "ct_Proposal seal_certificate" and s = seal_db])
      (simp_all add: sealed_header_def seal_certificate_def seal_chain_def NumberU64_def)
  show "ct_Value (h_Certificate (sealed_header\<lparr>h_Coinbase := 9\<rparr>)) \<noteq> Header_Hash plain_crypto (sealed_header\<lparr>h_Coinbase := 9\<rparr>)"
    by (simp add: sealed_header_def seal_certificate_def Header_Hash_def rlpHash_def plain_crypto_def)
qed

end
