(* ===== verification/Header_Batch.thy ===== *)
theory Header_Batch
  imports Engine
begin

text \<open>
  The concurrent verification of a batch of headers, \<^verbatim>\<open>VerifyHeaders\<close> of
  \<^verbatim>\<open>src/consensus/algorand/algorand.go\<close>: the dispatcher's select loop, the workers and the two
  channels interleave freely, each as an event of the machine below.  Shown: whatever the
  interleaving, the machine never gets stuck, every run ends, and the results come out once per
  header in the order of the batch.
\<close>

section \<open>The machine\<close>

text \<open>
  \<open>ba_in\<close>, \<open>ba_out\<close>, \<open>ba_checked\<close> are the locals of the dispatcher, \<open>ba_errs\<close> the shared slice,
  \<open>ba_working\<close> the indices the workers hold, \<open>ba_done\<close> the channel \<^verbatim>\<open>done\<close> and \<open>ba_results\<close> what was
  sent to \<^verbatim>\<open>errorsOut\<close>, whose capacity is the size of the batch.
\<close>

type_synonym verdict = "engine_error option option"

record batch =
  ba_in :: nat
  ba_out :: nat
  ba_checked :: "bool list"
  ba_errs :: "verdict list"
  ba_working :: "nat list"
  ba_done :: "nat list"
  ba_results :: "verdict list"
  ba_returned :: bool

definition batch_start :: "nat \<Rightarrow> batch" where
  "batch_start n =
     \<lparr>ba_in = 0, ba_out = 0, ba_checked = replicate n False, ba_errs = replicate n (Some None),
      ba_working = [], ba_done = [], ba_results = [], ba_returned = False\<rparr>"

text \<open>The inner loop of the dispatcher hands out the results that are ready.\<close>

function hand_out :: "nat \<Rightarrow> bool list \<Rightarrow> verdict list \<Rightarrow> nat \<Rightarrow> verdict list \<Rightarrow> nat \<times> verdict list \<times> bool" where
  "hand_out n checked errs out results =
     (if out < length checked \<and> checked ! out then
        (if out = n - 1 then (out, results @ [errs ! out], True)
         else hand_out n checked errs (out + 1) (results @ [errs ! out]))
      else (out, results, False))"
  by pat_completeness auto
termination by (relation "measure (\<lambda>(n, checked, errs, out, results). length checked - out)") auto

declare hand_out.simps [simp del]

datatype batch_event = SendIndex | WorkerDone nat | CollectDone

fun batch_step :: "nat \<Rightarrow> nat \<Rightarrow> (nat \<Rightarrow> verdict) \<Rightarrow> batch \<Rightarrow> batch_event \<Rightarrow> batch option" where
  "batch_step n workers verify b SendIndex =
     (if \<not> ba_returned b \<and> ba_in b < n \<and> length (ba_working b) < workers
      then Some (b\<lparr>ba_in := ba_in b + 1, ba_working := ba_working b @ [ba_in b]\<rparr>) else None)"
| "batch_step n workers verify b (WorkerDone k) =
     (if k < length (ba_working b) \<and> length (ba_done b) < workers
      then let index = ba_working b ! k
           in Some (b\<lparr>ba_errs := (ba_errs b)[index := verify index], ba_done := ba_done b @ [index],
                      ba_working := take k (ba_working b) @ drop (Suc k) (ba_working b)\<rparr>)
      else None)"
| "batch_step n workers verify b CollectDone =
     (if ba_returned b then None
      else case ba_done b of
             [] \<Rightarrow> None
           | index # rest \<Rightarrow>
               let checked = (ba_checked b)[index := True];
                   (out, results, returned) = hand_out n checked (ba_errs b) (ba_out b) (ba_results b)
               in Some (b\<lparr>ba_done := rest, ba_checked := checked, ba_out := out, ba_results := results,
                          ba_returned := returned\<rparr>))"

fun batch_run :: "nat \<Rightarrow> nat \<Rightarrow> (nat \<Rightarrow> verdict) \<Rightarrow> batch \<Rightarrow> batch_event list \<Rightarrow> batch option" where
  "batch_run n workers verify b [] = Some b"
| "batch_run n workers verify b (e # es) =
     Option.bind (batch_step n workers verify b e) (\<lambda>b. batch_run n workers verify b es)"

section \<open>Invariant\<close>

definition batch_ok :: "nat \<Rightarrow> (nat \<Rightarrow> verdict) \<Rightarrow> batch \<Rightarrow> bool" where
  "batch_ok n verify b \<longleftrightarrow>
     length (ba_checked b) = n \<and> length (ba_errs b) = n \<and> ba_in b \<le> n \<and>
     distinct (ba_working b @ ba_done b) \<and>
     set (ba_working b) \<union> set (ba_done b) \<union> {i. i < n \<and> ba_checked b ! i} = {..<ba_in b} \<and>
     (\<forall>i \<in> set (ba_working b) \<union> set (ba_done b). \<not> ba_checked b ! i) \<and>
     (\<forall>i < n. i \<in> set (ba_done b) \<or> ba_checked b ! i \<longrightarrow> ba_errs b ! i = verify i) \<and>
     (\<forall>i < ba_out b. ba_checked b ! i) \<and>
     (if ba_returned b then ba_results b = map verify [0..<n]
      else ba_results b = map verify [0..<ba_out b] \<and> ba_out b < n \<and> \<not> ba_checked b ! ba_out b)"

lemma hand_out_ok:
  assumes "hand_out n checked errs out results = (out', results', returned)"
    and "length checked = n" "out < n" "\<forall>i < n. checked ! i \<longrightarrow> errs ! i = verify i"
    and "\<forall>i < out. checked ! i" "results = map verify [0..<out]"
  shows "(\<forall>i < out'. checked ! i) \<and>
    (if returned then results' = map verify [0..<n]
     else results' = map verify [0..<out'] \<and> out' < n \<and> \<not> checked ! out')"
  using assms
proof (induction n checked errs out results rule: hand_out.induct)
  case (1 n checked errs out results)
  have r: "results @ [errs ! out] = map verify [0..<Suc out]" if "checked ! out" using 1(4,5,7) that by simp
  show ?case
  proof (cases "checked ! out")
    case True
    show ?thesis
    proof (cases "out = n - 1")
      case last: True
      have "hand_out n checked errs out results = (out, results @ [errs ! out], True)"
        using 1(3,4) True last by (subst hand_out.simps) simp
      moreover have "Suc out = n" using 1(4) last by simp
      ultimately show ?thesis using 1(2,6) r [OF True] by auto
    next
      case False
      then have step: "hand_out n checked errs (out + 1) (results @ [errs ! out]) = (out', results', returned)"
        using 1(2-4) True by (subst (asm) hand_out.simps) simp
      have "\<forall>i < out + 1. checked ! i" using 1(6) True by (simp add: less_Suc_eq)
      moreover have "out + 1 < n" "out < length checked \<and> checked ! out" using 1(3,4) True False by auto
      ultimately show ?thesis using 1(1) [OF _ False step 1(3) _ 1(5)] r [OF True] by simp
    qed
  next
    case False
    then have "hand_out n checked errs out results = (out, results, False)"
      by (simp add: hand_out.simps [of n checked errs out])
    then show ?thesis using 1(2-7) False by auto
  qed
qed

lemma batch_okD:
  assumes "batch_ok n verify b"
  shows "length (ba_checked b) = n" "length (ba_errs b) = n" "ba_in b \<le> n" "distinct (ba_working b @ ba_done b)"
    and "set (ba_working b) \<union> set (ba_done b) \<union> {i. i < n \<and> ba_checked b ! i} = {..<ba_in b}"
    and "\<forall>i \<in> set (ba_working b) \<union> set (ba_done b). \<not> ba_checked b ! i"
    and "\<forall>i < n. i \<in> set (ba_done b) \<or> ba_checked b ! i \<longrightarrow> ba_errs b ! i = verify i"
    and "\<forall>i < ba_out b. ba_checked b ! i"
    and "if ba_returned b then ba_results b = map verify [0..<n]
      else ba_results b = map verify [0..<ba_out b] \<and> ba_out b < n \<and> \<not> ba_checked b ! ba_out b"
  using assms unfolding batch_ok_def by blast+

lemma batch_in_range:
  assumes "batch_ok n verify b" "j \<in> set (ba_working b) \<union> set (ba_done b)"
  shows "j < n"
proof -
  have "j \<in> {..<ba_in b}" using assms(2) unfolding batch_okD(5) [OF assms(1), symmetric] by blast
  then show ?thesis using batch_okD(3) [OF assms(1)] by simp
qed

lemma batch_ok_start: "0 < n \<Longrightarrow> batch_ok n verify (batch_start n)"
  by (auto simp: batch_ok_def batch_start_def)

lemma batch_ok_Send:
  assumes "batch_ok n verify b" "batch_step n workers verify b SendIndex = Some b'"
  shows "batch_ok n verify b'"
proof -
  note D = batch_okD [OF assms(1)]
  have lt: "ba_in b < n" and b': "b' = b\<lparr>ba_in := ba_in b + 1, ba_working := ba_working b @ [ba_in b]\<rparr>"
    using assms(2) by (auto split: if_splits)
  have new: "ba_in b \<notin> set (ba_working b) \<union> set (ba_done b)" "\<not> ba_checked b ! ba_in b"
    using D(5) lt by auto
  have "{..<Suc (ba_in b)} = insert (ba_in b) {..<ba_in b}" by auto
  then have "set (ba_working b) \<union> {ba_in b} \<union> set (ba_done b) \<union> {i. i < n \<and> ba_checked b ! i} = {..<Suc (ba_in b)}"
    using D(5) by auto
  then show ?thesis using D new lt unfolding b' batch_ok_def by auto
qed

lemma batch_ok_Done:
  assumes "batch_ok n verify b" "batch_step n workers verify b (WorkerDone k) = Some b'"
  shows "batch_ok n verify b'"
proof -
  note D = batch_okD [OF assms(1)]
  have k: "k < length (ba_working b)" using assms(2) by (auto split: if_splits)
  define i xs ys where "i = ba_working b ! k" and "xs = take k (ba_working b)" and "ys = drop (Suc k) (ba_working b)"
  have w: "ba_working b = xs @ i # ys" unfolding i_def xs_def ys_def using k by (rule id_take_nth_drop)
  have b': "b' = b\<lparr>ba_errs := (ba_errs b)[i := verify i], ba_done := ba_done b @ [i], ba_working := xs @ ys\<rparr>"
    using assms(2) unfolding i_def xs_def ys_def by (auto simp: Let_def split: if_splits)
  have d: "distinct ((xs @ ys) @ ba_done b @ [i])" using D(4) unfolding w by auto
  have sets: "set (xs @ ys) \<union> set (ba_done b @ [i]) = set (ba_working b) \<union> set (ba_done b)" unfolding w by auto
  have "i < n" by (rule batch_in_range [OF assms(1)]) (simp add: w)
  then have "\<forall>j < n. j \<in> set (ba_done b @ [i]) \<or> ba_checked b ! j \<longrightarrow> (ba_errs b)[i := verify i] ! j = verify j"
    using D(2,7) by (simp add: nth_list_update)
  moreover have "\<forall>j \<in> set (xs @ ys) \<union> set (ba_done b @ [i]). \<not> ba_checked b ! j"
    "set (xs @ ys) \<union> set (ba_done b @ [i]) \<union> {j. j < n \<and> ba_checked b ! j} = {..<ba_in b}"
    unfolding sets by (rule D)+
  ultimately show ?thesis using D(1-3,8,9) d unfolding b' batch_ok_def by simp
qed

lemma batch_ok_Collect:
  assumes "batch_ok n verify b" "batch_step n workers verify b CollectDone = Some b'"
  shows "batch_ok n verify b'"
proof -
  note D = batch_okD [OF assms(1)]
  obtain i rest out results returned where done': "ba_done b = i # rest" and live: "\<not> ba_returned b"
    and h: "hand_out n ((ba_checked b)[i := True]) (ba_errs b) (ba_out b) (ba_results b) = (out, results, returned)"
    and b': "b' = b\<lparr>ba_done := rest, ba_checked := (ba_checked b)[i := True], ba_out := out, ba_results := results,
      ba_returned := returned\<rparr>"
    using assms(2) by (auto simp: Let_def split: if_splits list.splits prod.splits)
  have i: "i < n" by (rule batch_in_range [OF assms(1)]) (simp add: done')
  let ?c = "(ba_checked b)[i := True]"
  have c: "?c ! j = (j = i \<or> ba_checked b ! j)" if "j < n" for j using that D(1) i by (auto simp: nth_list_update)
  have "ba_out b < n" using D(9) live by simp
  then have low: "\<forall>j < ba_out b. ?c ! j" using D(8) c by auto
  have o: "(\<forall>j < out. ?c ! j) \<and> (if returned then results = map verify [0..<n]
      else results = map verify [0..<out] \<and> out < n \<and> \<not> ?c ! out)"
    using D(1,7,9) live low c done' by (intro hand_out_ok [OF h]) auto
  have other: "i \<notin> set (ba_working b) \<union> set rest" using D(4) done' by auto
  have open': "\<forall>j \<in> set (ba_working b) \<union> set rest. \<not> ?c ! j"
  proof
    fix j assume j: "j \<in> set (ba_working b) \<union> set rest"
    then have "j < n" by (intro batch_in_range [OF assms(1)]) (auto simp: done')
    then show "\<not> ?c ! j" using c D(6) other j done' by auto
  qed
  have "{j. j < n \<and> ?c ! j} = insert i {j. j < n \<and> ba_checked b ! j}" using c i by auto
  then have "set (ba_working b) \<union> set rest \<union> {j. j < n \<and> ?c ! j} =
      set (ba_working b) \<union> set (ba_done b) \<union> {j. j < n \<and> ba_checked b ! j}" unfolding done' by auto
  note part = this [unfolded D(5)]
  have errs: "\<forall>j < n. j \<in> set rest \<or> ?c ! j \<longrightarrow> ba_errs b ! j = verify j"
  proof (intro allI impI)
    fix j assume "j < n" "j \<in> set rest \<or> ?c ! j"
    then have "j \<in> set (ba_done b) \<or> ba_checked b ! j" using c done' by auto
    then show "ba_errs b ! j = verify j" using D(7) \<open>j < n\<close> by blast
  qed
  show ?thesis using D(1-4) o open' errs part unfolding b' batch_ok_def by (simp add: done')
qed

lemma batch_ok_step: "batch_ok n verify b \<Longrightarrow> batch_step n workers verify b e = Some b' \<Longrightarrow> batch_ok n verify b'"
  by (cases e) (blast intro: batch_ok_Send batch_ok_Done batch_ok_Collect)+

lemma batch_ok_run: "batch_ok n verify b \<Longrightarrow> batch_run n workers verify b es = Some b' \<Longrightarrow> batch_ok n verify b'"
  by (induction es arbitrary: b) (auto simp: bind_eq_Some_conv intro: batch_ok_step)

section \<open>Progress and termination\<close>

definition batch_left :: "nat \<Rightarrow> batch \<Rightarrow> nat" where
  "batch_left n b = 3 * (n - ba_in b) + 2 * length (ba_working b) + length (ba_done b)"

lemma batch_step_left: "batch_step n workers verify b e = Some b' \<Longrightarrow> batch_left n b' < batch_left n b"
  by (cases e) (auto simp: batch_left_def Let_def split: if_splits list.splits prod.splits)

lemma batch_run_left: "batch_run n workers verify b es = Some b' \<Longrightarrow> length es + batch_left n b' \<le> batch_left n b"
  by (induction es arbitrary: b) (auto simp: bind_eq_Some_conv dest: batch_step_left, fastforce dest: batch_step_left)

lemma batch_progress:
  assumes "batch_ok n verify b" "\<not> ba_returned b" "0 < workers"
  shows "\<exists>e b'. batch_step n workers verify b e = Some b'"
proof -
  note D = batch_okD [OF assms(1)]
  consider "ba_done b \<noteq> []" | "ba_done b = []" "ba_working b \<noteq> []" | "ba_done b = []" "ba_working b = []" by blast
  then show ?thesis
  proof cases
    case 1
    then show ?thesis using assms(2) by (intro exI [of _ CollectDone]) (auto simp: Let_def neq_Nil_conv split: prod.split)
  next
    case 2
    then show ?thesis using assms(3) by (intro exI [of _ "WorkerDone 0"]) (simp add: Let_def)
  next
    case 3
    then have "ba_in b < n" using D(5,9) assms(2) by force
    then show ?thesis using 3 assms(2,3) by (intro exI [of _ SendIndex]) simp
  qed
qed



end
