(* ===== verification/System_Contracts.thy ===== *)
theory System_Contracts
  imports Miner_Keys
begin

text \<open>
  The system contracts that the node reads and writes directly: the creators of contracts
  (\<^verbatim>\<open>src/core/vm/contract_creator.go\<close>), the authority contract by which a creator pays for the
  calls of others (\<^verbatim>\<open>src/core/syscon/mechanism.go\<close>), and the quota of calls that a creator's
  balance grants (\<^verbatim>\<open>src/core/mortgage.go\<close>).
\<close>

section \<open>Creators of contracts\<close>

definition CreatorAddress :: address where "CreatorAddress = 0x1000000000000000000000000000000000000001"

definition CreatorSlotKey :: "crypto \<Rightarrow> address \<Rightarrow> hash" where
  "CreatorSlotKey cr contractAddr =
     Keccak256 cr (word_bytes 32 (Address_Hash contractAddr) @ word_bytes 32 (0 :: hash))"

definition GetContractCreator :: "crypto \<Rightarrow> StateDB \<Rightarrow> address \<Rightarrow> address" where
  "GetContractCreator cr statedb contractAddr =
     BytesToAddress (word_bytes 32 (GetState statedb CreatorAddress (CreatorSlotKey cr contractAddr)))"

definition getCreatorOrSelf :: "crypto \<Rightarrow> StateDB \<Rightarrow> address \<Rightarrow> address" where
  "getCreatorOrSelf cr statedb addr =
     (let creator = GetContractCreator cr statedb addr in if creator = 0 then addr else creator)"

definition setContractCreator :: "crypto \<Rightarrow> address \<Rightarrow> address \<Rightarrow> StateDB \<Rightarrow> StateDB" where
  "setContractCreator cr contractAddr creator statedb =
     (let realCreator = getCreatorOrSelf cr statedb creator
      in SetState cr CreatorAddress (CreatorSlotKey cr contractAddr) (Address_Hash realCreator) statedb)"

definition deleteFromCreator :: "crypto \<Rightarrow> address \<Rightarrow> StateDB \<Rightarrow> StateDB" where
  "deleteFromCreator cr contractAddr statedb = setContractCreator cr contractAddr 0 statedb"

section \<open>Calls paid by the creator\<close>

definition AuthorityAddress :: address where "AuthorityAddress = 0x1000000000000000000000000000000000000003"

text \<open>The fields of a message that the checks read.\<close>

record call_msg =
  cm_To :: "address option"
  cm_Gas :: u64
  cm_GasPrice :: int
  cm_DataLen :: nat

definition IsCallContract :: "crypto \<Rightarrow> StateDB \<Rightarrow> call_msg \<Rightarrow> bool" where
  "IsCallContract cr stateDb msg \<longleftrightarrow>
     0 < cm_DataLen msg \<and> (case cm_To msg of None \<Rightarrow> False | Some to' \<Rightarrow> HasCode cr stateDb to')"

definition authority_slot :: "crypto \<Rightarrow> address \<Rightarrow> hash \<Rightarrow> hash" where
  "authority_slot cr addr slot = Keccak256 cr (word_bytes 32 (Address_Hash addr) @ word_bytes 32 slot)"

definition authority_entry :: "crypto \<Rightarrow> address \<Rightarrow> address \<Rightarrow> hash \<Rightarrow> hash" where
  "authority_entry cr fromAddress creatorAddress slot =
     Keccak256 cr (word_bytes 32 (Address_Hash fromAddress) @ word_bytes 32 (authority_slot cr creatorAddress slot))"

definition getMaxGasPrice :: "crypto \<Rightarrow> StateDB \<Rightarrow> address \<Rightarrow> int" where
  "getMaxGasPrice cr stateDb creatorAddress =
     Hash_Big (GetState stateDb AuthorityAddress (authority_slot cr creatorAddress 0))"

definition gasLimit :: "crypto \<Rightarrow> StateDB \<Rightarrow> address \<Rightarrow> u64" where
  "gasLimit cr stateDb creatorAddress =
     Big_Uint64 (Hash_Big (GetState stateDb AuthorityAddress (authority_slot cr creatorAddress 1)))"

definition model :: "crypto \<Rightarrow> StateDB \<Rightarrow> address \<Rightarrow> u64" where
  "model cr stateDb creatorAddress =
     Big_Uint64 (Hash_Big (GetState stateDb AuthorityAddress (authority_slot cr creatorAddress 2)))"

definition isWhite :: "crypto \<Rightarrow> StateDB \<Rightarrow> address \<Rightarrow> address \<Rightarrow> bool" where
  "isWhite cr stateDb fromAddress creatorAddress \<longleftrightarrow>
     0 < Hash_Big (GetState stateDb AuthorityAddress (authority_entry cr fromAddress creatorAddress 3))"

definition isBlack :: "crypto \<Rightarrow> StateDB \<Rightarrow> address \<Rightarrow> address \<Rightarrow> bool" where
  "isBlack cr stateDb fromAddress creatorAddress \<longleftrightarrow>
     0 < Hash_Big (GetState stateDb AuthorityAddress (authority_entry cr fromAddress creatorAddress 4))"

definition CreatorOrSelf :: "crypto \<Rightarrow> StateDB \<Rightarrow> address \<Rightarrow> address" where
  "CreatorOrSelf cr stateDb toAddress =
     (let creator = GetState stateDb CreatorAddress (CreatorSlotKey cr toAddress)
      in if creator = 0 then toAddress else BytesToAddress (word_bytes 32 creator))"

text \<open>\<open>None\<close> is the nil price that the function returns for no address.\<close>

definition GetMaxGasPrice :: "crypto \<Rightarrow> StateDB \<Rightarrow> address option \<Rightarrow> int option" where
  "GetMaxGasPrice cr stateDb toAddress =
     (case toAddress of
        None \<Rightarrow> None
      | Some to' \<Rightarrow>
          let price = getMaxGasPrice cr stateDb to' in
          if 0 < price then Some price
          else let creator = CreatorOrSelf cr stateDb to'
               in if creator = to' then Some price else Some (getMaxGasPrice cr stateDb creator))"

definition GetGasLimit :: "crypto \<Rightarrow> StateDB \<Rightarrow> address option \<Rightarrow> u64" where
  "GetGasLimit cr stateDb toAddress =
     (case toAddress of
        None \<Rightarrow> 0
      | Some to' \<Rightarrow>
          let gasLmt = gasLimit cr stateDb to' in
          if 0 < gasLmt then gasLmt
          else let creator = CreatorOrSelf cr stateDb to'
               in if creator = to' then gasLmt else gasLimit cr stateDb creator)"

definition GetModel :: "crypto \<Rightarrow> StateDB \<Rightarrow> address \<Rightarrow> u64" where
  "GetModel cr stateDb toAddress = model cr stateDb toAddress"

definition GetRealGas :: "crypto \<Rightarrow> StateDB \<Rightarrow> call_msg \<Rightarrow> u64" where
  "GetRealGas cr stateDb msg =
     (if IsCallContract cr stateDb msg \<and> cm_Gas msg = 0 then GetGasLimit cr stateDb (cm_To msg) else cm_Gas msg)"

datatype pay_error = GasShouldNotBeZero | NotAContract | NotEnabledByCreator | PriceExceeded | SenderNotAllowed

text \<open>The error, the maximal price and the gas limit; the limits are zero values on the first two errors.\<close>

definition ValidatePayByContract ::
    "crypto \<Rightarrow> StateDB \<Rightarrow> address \<Rightarrow> call_msg \<Rightarrow> pay_error option \<times> int option \<times> u64" where
  "ValidatePayByContract cr stateDb fromAddress msg =
     (case cm_To msg of
        None \<Rightarrow> (Some GasShouldNotBeZero, None, 0)
      | Some toAddress \<Rightarrow>
          if \<not> IsCallContract cr stateDb msg then (Some GasShouldNotBeZero, None, 0)
          else
            let creator = CreatorOrSelf cr stateDb toAddress in
            if creator = toAddress then (Some NotAContract, None, 0)
            else
              let maxPrice = GetMaxGasPrice cr stateDb (Some toAddress);
                  limit = GetGasLimit cr stateDb (Some toAddress)
              in if maxPrice = Some 0 \<or> limit = 0 then (Some NotEnabledByCreator, maxPrice, limit)
                 else if the maxPrice < cm_GasPrice msg then (Some PriceExceeded, maxPrice, limit)
                 else
                   let allowed = (if GetModel cr stateDb toAddress = 0 then isWhite cr stateDb fromAddress creator
                                  else \<not> isBlack cr stateDb fromAddress creator)
                   in (if \<not> allowed then Some SenderNotAllowed else None, maxPrice, limit))"

section \<open>The quota of calls\<close>

definition slotCount :: u64 where "slotCount = 24"
definition slot_step :: u64 where "slot_step = 1200"
definition maxHeight :: u64 where "maxHeight = 28800"
definition cPrice :: int where "cPrice = 2000000"

type_synonym MortgageContractCounter = "(address, u64) gomap"

record circleQueue =
  cq_curSlotStartHeight :: u64
  cq_total :: u64
  cq_slots :: "u64 list"
  cq_pos :: u64

definition newCircleQueue :: circleQueue where
  "newCircleQueue = \<lparr>cq_curSlotStartHeight = 0, cq_total = 0, cq_slots = replicate 24 0, cq_pos = 0\<rparr>"

text \<open>One turn of the loop that empties the slots between the old and the new position.\<close>

definition advance :: "u64 \<Rightarrow> circleQueue \<Rightarrow> circleQueue" where
  "advance i q =
     (let index = unat ((i + cq_pos q) mod slotCount)
      in q\<lparr>cq_total := cq_total q - cq_slots q ! index, cq_slots := (cq_slots q)[index := 0],
           cq_curSlotStartHeight := cq_curSlotStartHeight q + slot_step\<rparr>)"

definition circleQueue_Add :: "u64 \<Rightarrow> u64 \<Rightarrow> circleQueue \<Rightarrow> circleQueue" where
  "circleQueue_Add height cnt q =
     (if height < cq_curSlotStartHeight q then q
      else if cq_curSlotStartHeight q + maxHeight \<le> height then
        let pos = (height mod maxHeight) div slot_step
        in \<lparr>cq_curSlotStartHeight = (height div slot_step) * slot_step, cq_total = cnt,
            cq_slots = (replicate 24 0)[unat pos := cnt], cq_pos = pos\<rparr>
      else
        let curPos = (height mod maxHeight) div slot_step in
        if curPos = cq_pos q then
          q\<lparr>cq_slots := (cq_slots q)[unat curPos := cq_slots q ! unat curPos + cnt], cq_total := cq_total q + cnt\<rparr>
        else
          let gap = (slotCount + curPos - cq_pos q) mod slotCount;
              q = fold (\<lambda>i. advance (of_nat i)) [1..<Suc (unat gap)] q
          in q\<lparr>cq_pos := curPos, cq_slots := (cq_slots q)[unat curPos := cnt], cq_total := cq_total q + cnt\<rparr>)"

definition isSystemContract :: "address \<Rightarrow> bool" where
  "isSystemContract addr \<longleftrightarrow> take 19 (word_bytes 20 addr) = (0x10 :: u8) # replicate 18 0"

definition tx_call :: "Transaction \<Rightarrow> call_msg" where
  "tx_call tx = \<lparr>cm_To = tx_Recipient tx, cm_Gas = tx_GasLimit tx, cm_GasPrice = tx_Price tx, cm_DataLen = length (tx_Payload tx)\<rparr>"

definition isCallOrdinaryContract :: "crypto \<Rightarrow> StateDB \<Rightarrow> Transaction \<Rightarrow> bool" where
  "isCallOrdinaryContract cr statedb tx \<longleftrightarrow>
     IsCallContract cr statedb (tx_call tx) \<and> \<not> isSystemContract (the (tx_Recipient tx))"

definition ProcessTx :: "crypto \<Rightarrow> StateDB \<Rightarrow> Transaction \<Rightarrow> MortgageContractCounter \<Rightarrow> MortgageContractCounter" where
  "ProcessTx cr statedb tx counter =
     (if isCallOrdinaryContract cr statedb tx then
        let creator = GetContractCreator cr statedb (the (tx_Recipient tx))
        in mput creator ((case mget counter creator of None \<Rightarrow> 0 | Some n \<Rightarrow> n) + 1) counter
      else counter)"

text \<open>
  The LRU cache of the entries is a third-party type: its operations \<^verbatim>\<open>Get\<close> and \<^verbatim>\<open>Add\<close> are the
  parameters \<open>get\<close> and \<open>add\<close>, each returning the cache after the access.  An entry is a pointer, so
  a change of its counter is seen by the cache; the model stores it back.
\<close>

record 'c lru =
  lru_Get :: "address \<Rightarrow> 'c \<Rightarrow> circleQueue option \<times> 'c"
  lru_Add :: "address \<Rightarrow> circleQueue \<Rightarrow> 'c \<Rightarrow> 'c"
  lru_Store :: "address \<Rightarrow> circleQueue \<Rightarrow> 'c \<Rightarrow> 'c"
  lru_Purge :: "'c \<Rightarrow> 'c"

record 'c MortgageWorker =
  mw_entries :: 'c
  mw_quotas :: "(address, int) gomap"
  mw_pendings :: "(address, u64) gomap"

definition NewMortgage :: "'c \<Rightarrow> 'c MortgageWorker" where
  "NewMortgage cache = \<lparr>mw_entries = cache, mw_quotas = [], mw_pendings = []\<rparr>"

definition resetAllEntry :: "'c lru \<Rightarrow> 'c MortgageWorker \<Rightarrow> 'c MortgageWorker" where
  "resetAllEntry L l = l\<lparr>mw_entries := lru_Purge L (mw_entries l)\<rparr>"

definition getEntry :: "'c lru \<Rightarrow> address \<Rightarrow> 'c MortgageWorker \<Rightarrow> circleQueue \<times> 'c MortgageWorker" where
  "getEntry L creator l =
     (case lru_Get L creator (mw_entries l) of
        (Some entry, c) \<Rightarrow> (entry, l\<lparr>mw_entries := c\<rparr>)
      | (None, c) \<Rightarrow> (newCircleQueue, l\<lparr>mw_entries := lru_Add L creator newCircleQueue c\<rparr>))"

text \<open>A price of zero divides by zero: \<open>None\<close>.  \<^verbatim>\<open>Div\<close> is Euclidean division.\<close>

definition getQuota ::
    "crypto \<Rightarrow> StateDB \<Rightarrow> address \<Rightarrow> int \<Rightarrow> 'c MortgageWorker \<Rightarrow> (int \<times> 'c MortgageWorker) option" where
  "getQuota cr statedb creator gasPrice l =
     (case mget (mw_quotas l) creator of
        Some quota \<Rightarrow> Some (quota, l)
      | None \<Rightarrow>
          if gasPrice = 0 then None
          else let total' = GetBalance statedb creator + GetTotalReceived cr statedb creator;
                   per = (if 0 < gasPrice then total' div gasPrice else - (total' div - gasPrice));
                   quota = per div cPrice
               in Some (quota, l\<lparr>mw_quotas := mput creator quota (mw_quotas l)\<rparr>))"

definition Updates_entry :: "'c lru \<Rightarrow> u64 \<Rightarrow> address \<times> u64 \<Rightarrow> 'c MortgageWorker \<Rightarrow> 'c MortgageWorker" where
  "Updates_entry L height kc l =
     (let (entry, l) = getEntry L (fst kc) l
      in l\<lparr>mw_entries := lru_Store L (fst kc) (circleQueue_Add height (snd kc) entry) (mw_entries l)\<rparr>)"

definition Updates :: "'c lru \<Rightarrow> (u64 \<times> MortgageContractCounter) list \<Rightarrow> 'c MortgageWorker \<Rightarrow> 'c MortgageWorker" where
  "Updates L counters l =
     (fold (\<lambda>(height, counter). fold (Updates_entry L height) counter) counters l)\<lparr>mw_quotas := [], mw_pendings := []\<rparr>"

definition Passable ::
    "'c lru \<Rightarrow> crypto \<Rightarrow> StateDB \<Rightarrow> Transaction \<Rightarrow> int \<Rightarrow> 'c MortgageWorker \<Rightarrow> ((bool \<times> address option) \<times> 'c MortgageWorker) option" where
  "Passable L cr statedb tx gasPrice l =
     (if \<not> isCallOrdinaryContract cr statedb tx then Some ((True, None), l)
      else let creator = GetContractCreator cr statedb (the (tx_Recipient tx));
               (entry, l) = getEntry L creator l
           in map_option (\<lambda>(quota, l).
                let pending = (case mget (mw_pendings l) creator of None \<Rightarrow> 0 | Some n \<Rightarrow> n)
                in (if int (unat (cq_total entry + pending)) < quota then (True, Some creator) else (False, None), l))
              (getQuota cr statedb creator gasPrice l))"

definition AddPending :: "address \<Rightarrow> 'c MortgageWorker \<Rightarrow> 'c MortgageWorker" where
  "AddPending creator l =
     l\<lparr>mw_pendings := mput creator ((case mget (mw_pendings l) creator of None \<Rightarrow> 0 | Some n \<Rightarrow> n) + 1) (mw_pendings l)\<rparr>"

section \<open>Lemmas\<close>

lemma BytesToAddress_Hash: "BytesToAddress (word_bytes 32 (Address_Hash a)) = a"
proof -
  have "unat a < 2 ^ 256" using unsigned_less [of a, where 'a = nat] by simp
  then have "unat (Address_Hash a) = unat a" by (simp add: Address_Hash_eq unsigned_ucast_eq take_bit_nat_eq_self)
  then show ?thesis using unsigned_less [of "Address_Hash a", where 'a = nat] by (simp add: BytesToAddress_eq)
qed

subsection \<open>Creators are never contracts\<close>

text \<open>Creating and destroying contracts; a new contract's address is fresh.\<close>

datatype creator_op = Created address address | Destroyed address

fun creator_step :: "crypto \<Rightarrow> creator_op \<Rightarrow> StateDB \<Rightarrow> StateDB" where
  "creator_step cr (Created contract caller) s = setContractCreator cr contract caller s"
| "creator_step cr (Destroyed contract) s = deleteFromCreator cr contract s"

definition fresh_contract :: "crypto \<Rightarrow> StateDB \<Rightarrow> creator_op \<Rightarrow> bool" where
  "fresh_contract cr s op =
     (case op of
        Created contract caller \<Rightarrow> contract \<noteq> 0 \<and> contract \<noteq> caller \<and> (\<forall>c. GetContractCreator cr s c \<noteq> contract)
      | Destroyed contract \<Rightarrow> contract \<noteq> 0)"

fun creator_run :: "crypto \<Rightarrow> creator_op list \<Rightarrow> StateDB \<Rightarrow> StateDB option" where
  "creator_run cr [] s = Some s"
| "creator_run cr (op # ops) s = (if fresh_contract cr s op then creator_run cr ops (creator_step cr op s) else None)"

definition creators_flat :: "crypto \<Rightarrow> StateDB \<Rightarrow> bool" where
  "creators_flat cr s \<longleftrightarrow>
     GetContractCreator cr s 0 = 0 \<and> (\<forall>c. GetContractCreator cr s (GetContractCreator cr s c) = 0)"

lemma creator_set:
  assumes "inj (CreatorSlotKey cr)"
  shows "GetContractCreator cr (setContractCreator cr contract caller s) c =
    (if c = contract then getCreatorOrSelf cr s caller else GetContractCreator cr s c)"
  using inj_eq [OF assms]
  by (auto simp: GetContractCreator_def setContractCreator_def Let_def GetState_SetState BytesToAddress_Hash)

lemma flat_step:
  assumes "inj (CreatorSlotKey cr)" "creators_flat cr s" "fresh_contract cr s op"
  shows "creators_flat cr (creator_step cr op s)"
proof (cases op)
  case (Created contract caller)
  have "getCreatorOrSelf cr s caller \<noteq> contract" "GetContractCreator cr s (getCreatorOrSelf cr s caller) = 0"
    using assms(2,3) Created by (auto simp: getCreatorOrSelf_def fresh_contract_def creators_flat_def Let_def)
  then show ?thesis using assms(2,3) Created by (auto simp: creators_flat_def creator_set [OF assms(1)] fresh_contract_def)
next
  case (Destroyed contract)
  have "getCreatorOrSelf cr s 0 = 0" using assms(2) by (simp add: getCreatorOrSelf_def creators_flat_def)
  then show ?thesis using assms(2,3) Destroyed
    by (auto simp: creators_flat_def deleteFromCreator_def creator_set [OF assms(1)] fresh_contract_def)
qed

text \<open>
  C36.  The recorded creator of a contract is never itself a contract with a creator: however
  contracts create contracts, the chain of creations collapses to the account that started it, so
  that one lookup finds who pays.  The slots of different contracts differ (a hash has no
  collisions), and addresses of new contracts are fresh.
\<close>

theorem creators_are_accounts:
  assumes "inj (CreatorSlotKey cr)" "creators_flat cr s" "creator_run cr ops s = Some s'"
  shows "creators_flat cr s'"
  using assms(2,3)
  by (induction ops arbitrary: s) (auto intro: flat_step [OF assms(1)] split: if_splits)

lemma key_creator_slot: "CreatorSlotKey key_crypto a = ucast a"
  using unsigned_less [of a, where 'a = nat]
  by (simp add: CreatorSlotKey_def key_crypto_def Address_Hash_eq unsigned_ucast_eq take_bit_nat_eq_self word_unat_eq_iff unat_of_nat)

lemma creators_are_accounts_witness:
  "\<exists>s'. creator_run key_crypto [Created 5 7, Created 6 5] (NewStateDB (\<lambda>_. None) (\<lambda>_. None)) = Some s' \<and>
     creators_flat key_crypto s' \<and> GetContractCreator key_crypto s' 6 = 7"
proof -
  let ?s = "NewStateDB (\<lambda>_. None) (\<lambda>_. None)"
  have inj: "inj (CreatorSlotKey key_crypto)"
    by (rule injI) (simp add: key_creator_slot word_unat_eq_iff unsigned_ucast_eq take_bit_nat_eq_self
        order_less_trans [OF unsigned_less])
  have none: "GetContractCreator key_crypto ?s c = 0" for c
    by (simp add: GetContractCreator_def GetState_new BytesToAddress_eq)
  then have flat: "creators_flat key_crypto ?s" by (simp add: creators_flat_def)
  note set' = creator_set [OF inj]
  have "creator_run key_crypto [Created 5 7, Created 6 5] ?s =
      Some (setContractCreator key_crypto 6 5 (setContractCreator key_crypto 5 7 ?s))"
    by (simp add: fresh_contract_def set' none getCreatorOrSelf_def)
  moreover have "GetContractCreator key_crypto (setContractCreator key_crypto 6 5 (setContractCreator key_crypto 5 7 ?s)) 6 = 7"
    by (simp add: set' none getCreatorOrSelf_def)
  ultimately show ?thesis using creators_are_accounts [OF inj flat] by blast
qed

subsection \<open>The sliding window of calls\<close>

lemma sum_list_set: "i < length xs \<Longrightarrow> sum_list (xs[i := v]) = sum_list xs - xs ! i + v" for xs :: "u64 list"
  by (induction xs arbitrary: i) (auto simp: algebra_simps split: nat.split)

text \<open>The slot number of a height, and the calls counted in one slot.\<close>

abbreviation slot_of :: "u64 \<Rightarrow> nat" where "slot_of h \<equiv> unat h div 1200"

definition calls_in :: "(u64 \<times> u64) list \<Rightarrow> nat \<Rightarrow> u64" where
  "calls_in adds k = (\<Sum>(h, c)\<leftarrow>adds. if slot_of h = k then c else 0)"

text \<open>
  The ring holds the last 24 slots up to the current slot \<open>S\<close>, slot \<open>k\<close> at position \<open>k mod 24\<close>;
  before slot 24 the positions above \<open>S\<close> are unused.
\<close>

definition window_ok :: "(u64 \<times> u64) list \<Rightarrow> nat \<Rightarrow> circleQueue \<Rightarrow> bool" where
  "window_ok adds S q \<longleftrightarrow>
     unat (cq_curSlotStartHeight q) = S * 1200 \<and> S * 1200 < 2 ^ 63 \<and> unat (cq_pos q) = S mod 24 \<and>
     length (cq_slots q) = 24 \<and> cq_total q = sum_list (cq_slots q) \<and>
     (\<forall>k \<le> S. S < k + 24 \<longrightarrow> cq_slots q ! (k mod 24) = calls_in adds k) \<and>
     (\<forall>j < 24. S < j \<longrightarrow> cq_slots q ! j = 0) \<and>
     (\<forall>(h, c) \<in> set adds. slot_of h \<le> S)"

lemma window_okD:
  assumes "window_ok adds S q"
  shows "unat (cq_curSlotStartHeight q) = S * 1200" "S * 1200 < 2 ^ 63" "unat (cq_pos q) = S mod 24"
    "length (cq_slots q) = 24" "cq_total q = sum_list (cq_slots q)"
    "k \<le> S \<Longrightarrow> S < k + 24 \<Longrightarrow> cq_slots q ! (k mod 24) = calls_in adds k"
    "j < 24 \<Longrightarrow> S < j \<Longrightarrow> cq_slots q ! j = 0" "\<forall>(h, c) \<in> set adds. slot_of h \<le> S"
  using assms unfolding window_ok_def by blast+

lemma window_ok_new: "window_ok [] 0 newCircleQueue"
  by (simp add: window_ok_def newCircleQueue_def calls_in_def sum_list_replicate)

lemma calls_in_snoc: "calls_in (adds @ [(h, c)]) k = calls_in adds k + (if slot_of h = k then c else 0)"
  by (simp add: calls_in_def)

lemma calls_in_new: "\<forall>(h, c) \<in> set adds. slot_of h \<le> S \<Longrightarrow> S < k \<Longrightarrow> calls_in adds k = 0"
  unfolding calls_in_def by (induction adds) auto

lemma mod24_eq:
  fixes k t :: nat
  assumes "k \<le> t" "t < k + 24" "k mod 24 = t mod 24"
  shows "k = t"
proof -
  have "24 dvd t - k" using mod_eq_dvd_iff_nat [OF assms(1), of 24] assms(3) by simp
  moreover have "t - k < 24" using assms(1,2) by linarith
  ultimately have "t - k = 0" using nat_dvd_not_less by blast
  then show ?thesis using assms(1) by simp
qed

text \<open>The words of the code in numbers.\<close>

lemma height_position: "unat ((h mod maxHeight) div slot_step) = slot_of h mod 24"
proof -
  have "unat h mod (1200 * 24) = 1200 * (unat h div 1200 mod 24) + unat h mod 1200" by (rule mod_mult2_eq)
  then have "unat h mod 28800 div 1200 = unat h div 1200 mod 24" by simp
  then show ?thesis by (simp add: maxHeight_def slot_step_def unat_div_distrib unat_mod_distrib)
qed

lemma slot_start: "unat ((h div slot_step) * slot_step) = slot_of h * 1200"
proof -
  have d: "unat (h div slot_step) = slot_of h" "unat slot_step = 1200" by (simp_all add: slot_step_def unat_div_distrib)
  have "slot_of h * 1200 \<le> unat h" by simp
  then have "slot_of h * 1200 < 18446744073709551616" using unat_u64 [of h] by (rule le_less_trans)
  then have "slot_of h * 1200 mod 18446744073709551616 = slot_of h * 1200" by (rule mod_less)
  then show ?thesis unfolding unat_word_ariths d by simp
qed

lemma slots_between:
  assumes "unat start = S * 1200" "S * 1200 < 2 ^ 63"
  shows "height < start \<longleftrightarrow> unat height < S * 1200" "start + maxHeight \<le> height \<longleftrightarrow> S + 24 \<le> slot_of height"
proof -
  show "height < start \<longleftrightarrow> unat height < S * 1200" using assms(1) by (simp add: word_less_nat_alt)
  have "unat (start + maxHeight) = S * 1200 + 28800"
    using assms by (simp add: unat_word_ariths maxHeight_def)
  then show "start + maxHeight \<le> height \<longleftrightarrow> S + 24 \<le> slot_of height" by (auto simp: word_le_nat_alt)
qed

lemma unat_plus_small_u64: "unat a + unat b < 2 ^ 64 \<Longrightarrow> unat (a + b) = unat a + unat b" for a b :: u64
  by (simp add: unat_word_ariths)

lemma advance_index:
  assumes "unat pos = S mod 24" "i < 100"
  shows "unat ((of_nat i + pos) mod slotCount) = (S + i) mod 24"
proof -
  have i: "unat (of_nat i :: u64) = i" using assms(2) by (simp add: unat_of_nat)
  have "S mod 24 < 24" by simp
  then have "unat (of_nat i + pos) = i + S mod 24"
    using assms i by (subst unat_plus_small_u64) simp_all
  moreover have "unat slotCount = 24" by (simp add: slotCount_def)
  ultimately show ?thesis by (simp only: unat_mod_distrib mod_add_right_eq add.commute)
qed

lemma advance_loop:
  assumes "unat (cq_pos q) = S mod 24" "length (cq_slots q) = 24" "cq_total q = sum_list (cq_slots q)"
  defines "run g \<equiv> fold (\<lambda>i. advance (of_nat i)) [1..<Suc g] q"
  shows "g < 24 \<Longrightarrow> cq_pos (run g) = cq_pos q \<and> length (cq_slots (run g)) = 24 \<and>
    cq_total (run g) = sum_list (cq_slots (run g)) \<and>
    cq_curSlotStartHeight (run g) = cq_curSlotStartHeight q + of_nat (g * 1200) \<and>
    (\<forall>j < 24. cq_slots (run g) ! j = (if \<exists>i \<in> {1..g}. j = (S + i) mod 24 then 0 else cq_slots q ! j))"
proof (induction g)
  case 0
  show ?case using assms by simp
next
  case (Suc g)
  have lt: "g < 24" using Suc.prems by simp
  note IH = Suc.IH [OF lt]
  have step: "run (Suc g) = advance (of_nat (Suc g)) (run g)" by (simp add: run_def)
  define x where "x = (S + Suc g) mod 24"
  have idx: "unat ((of_nat (Suc g) + cq_pos (run g)) mod slotCount) = x"
    unfolding x_def using IH lt assms(1) by (intro advance_index) simp_all
  have a: "run (Suc g) = (run g)\<lparr>cq_total := cq_total (run g) - cq_slots (run g) ! x,
      cq_slots := (cq_slots (run g))[x := 0], cq_curSlotStartHeight := cq_curSlotStartHeight (run g) + slot_step\<rparr>"
    unfolding step advance_def Let_def idx ..
  have x: "x < 24" by (simp add: x_def)
  have "{1..Suc g} = insert (Suc g) {1..g}" by auto
  then have "\<forall>j < 24. cq_slots (run (Suc g)) ! j =
      (if \<exists>i \<in> {1..Suc g}. j = (S + i) mod 24 then 0 else cq_slots q ! j)"
    unfolding a using IH x by (auto simp: nth_list_update x_def)
  moreover have "cq_curSlotStartHeight (run (Suc g)) = cq_curSlotStartHeight q + of_nat (Suc g * 1200)"
    unfolding a using IH by (simp add: slot_step_def algebra_simps)
  moreover have "cq_total (run (Suc g)) = sum_list (cq_slots (run (Suc g)))" unfolding a using IH x by (simp add: sum_list_set)
  ultimately show ?case using IH a by simp
qed

lemma unat_gap: "g < 24 \<Longrightarrow> unat (of_nat (g * 1200) :: u64) = g * 1200"
  by (subst unat_of_nat) simp

lemma window_far:
  assumes "window_ok adds S q" "unat h < 2 ^ 63" "S + 24 \<le> slot_of h"
  shows "window_ok (adds @ [(h, c)]) (slot_of h)
    \<lparr>cq_curSlotStartHeight = (h div slot_step) * slot_step, cq_total = c,
     cq_slots = (replicate 24 0)[unat ((h mod maxHeight) div slot_step) := c], cq_pos = (h mod maxHeight) div slot_step\<rparr>"
proof -
  note D = window_okD [OF assms(1)]
  let ?T = "slot_of h"
  have b: "?T * 1200 < 2 ^ 63" by (rule le_less_trans [OF _ assms(2)]) simp
  have "sum_list ((replicate 24 (0 :: u64))[?T mod 24 := c]) = c" by (subst sum_list_set) (simp_all add: sum_list_replicate)
  moreover have "(replicate 24 (0 :: u64))[?T mod 24 := c] ! (k mod 24) = calls_in (adds @ [(h, c)]) k"
    if k: "k \<le> ?T" "?T < k + 24" for k
  proof (cases "k = ?T")
    case True
    then show ?thesis using calls_in_new [OF D(8)] assms(3) by (simp add: calls_in_snoc)
  next
    case False
    then have "k mod 24 \<noteq> ?T mod 24" using mod24_eq k by blast
    then show ?thesis using calls_in_new [OF D(8), of k] assms(3) k False by (simp add: calls_in_snoc)
  qed
  moreover have "\<forall>(h', c') \<in> set (adds @ [(h, c)]). slot_of h' \<le> ?T" using D(8) assms(3) by auto
  ultimately show ?thesis
    using b assms(3) slot_start [of h] height_position [of h] unfolding window_ok_def by simp
qed

lemma window_same:
  assumes "window_ok adds S q" "slot_of h = S"
  shows "window_ok (adds @ [(h, c)]) S
    (q\<lparr>cq_slots := (cq_slots q)[S mod 24 := cq_slots q ! (S mod 24) + c], cq_total := cq_total q + c\<rparr>)"
proof -
  note D = window_okD [OF assms(1)]
  have "(cq_slots q)[S mod 24 := cq_slots q ! (S mod 24) + c] ! (k mod 24) = calls_in (adds @ [(h, c)]) k"
    if "k \<le> S" "S < k + 24" for k
    using D(4) D(6) [OF that] mod24_eq [OF that] assms(2) by (auto simp: calls_in_snoc nth_list_update)
  then show ?thesis using D assms(2) unfolding window_ok_def by (auto simp: sum_list_set algebra_simps)
qed

lemma window_near:
  assumes "window_ok adds S q" "unat h < 2 ^ 63" "S < slot_of h" "slot_of h < S + 24"
  defines "q' \<equiv> fold (\<lambda>i. advance (of_nat i)) [1..<Suc (slot_of h - S)] q"
  shows "window_ok (adds @ [(h, c)]) (slot_of h)
    (q'\<lparr>cq_pos := (h mod maxHeight) div slot_step, cq_slots := (cq_slots q')[slot_of h mod 24 := c], cq_total := cq_total q' + c\<rparr>)"
proof -
  note D = window_okD [OF assms(1)]
  let ?T = "slot_of h"
  have g: "?T - S < 24" using assms(3,4) by linarith
  note L = advance_loop [OF D(3-5) g, folded q'_def]
  have b: "?T * 1200 < 2 ^ 63" by (rule le_less_trans [OF _ assms(2)]) simp
  have cleared: "cq_slots q' ! (?T mod 24) = 0"
  proof -
    have "?T - S \<in> {1..?T - S}" "?T mod 24 = (S + (?T - S)) mod 24" using assms(3) by simp_all
    then have "\<exists>i \<in> {1..?T - S}. ?T mod 24 = (S + i) mod 24" by blast
    then show ?thesis using L by simp
  qed
  have start: "unat (cq_curSlotStartHeight q') = ?T * 1200"
  proof -
    have "unat (cq_curSlotStartHeight q) + unat (of_nat ((?T - S) * 1200) :: u64) = S * 1200 + (?T - S) * 1200"
      unfolding D(1) unat_gap [OF g] ..
    also have "\<dots> = ?T * 1200" using assms(3) by (simp add: diff_mult_distrib)
    finally have e: "unat (cq_curSlotStartHeight q) + unat (of_nat ((?T - S) * 1200) :: u64) = ?T * 1200" .
    have "?T * 1200 < 2 ^ 64" using b by simp
    then show ?thesis
      using L unat_plus_small_u64 [of "cq_curSlotStartHeight q" "of_nat ((?T - S) * 1200)", unfolded e] by metis
  qed
  have "(cq_slots q')[?T mod 24 := c] ! (k mod 24) = calls_in (adds @ [(h, c)]) k" if k: "k \<le> ?T" "?T < k + 24" for k
  proof (cases "k = ?T")
    case True
    then show ?thesis using calls_in_new [OF D(8), of k] L assms(3) by (simp add: calls_in_snoc)
  next
    case False
    then have ne: "k mod 24 \<noteq> ?T mod 24" using mod24_eq k by blast
    have "cq_slots q' ! (k mod 24) = calls_in adds k"
    proof (cases "k \<le> S")
      case True
      have "k mod 24 \<noteq> (S + i) mod 24" if "i \<in> {1..?T - S}" for i
      proof -
        have "S + i \<le> ?T" "1 \<le> i" using that assms(3) by auto
        then show ?thesis using mod24_eq [of k "S + i"] k True by linarith
      qed
      then show ?thesis using L D(6) [OF True] k True assms(3) by auto
    next
      case False
      then have "k - S \<in> {1..?T - S}" "k mod 24 = (S + (k - S)) mod 24" using k by auto
      then have "cq_slots q' ! (k mod 24) = 0" using L by auto
      then show ?thesis using calls_in_new [OF D(8), of k] False by simp
    qed
    then show ?thesis using ne False by (simp add: calls_in_snoc)
  qed
  moreover have "\<forall>j < 24. ?T < j \<longrightarrow> (cq_slots q')[?T mod 24 := c] ! j = 0"
    using L D(7) assms(3) by (auto simp: nth_list_update)
  moreover have "\<forall>(h', c') \<in> set (adds @ [(h, c)]). slot_of h' \<le> ?T" using D(8) assms(3) by fastforce
  moreover have "cq_total q' + c = sum_list ((cq_slots q')[?T mod 24 := c])" using L cleared by (simp add: sum_list_set)
  ultimately show ?thesis using L start b unfolding window_ok_def by (simp add: height_position)
qed

lemma gap_nat:
  fixes p q :: u64
  assumes "unat p = T mod 24" "unat q = S mod 24" "S < T" "T < S + 24"
  shows "unat ((slotCount + p - q) mod slotCount) = T - S"
proof -
  have c: "unat slotCount = 24" by (simp add: slotCount_def)
  have m: "S mod 24 < 24" "T mod 24 < 24" by simp_all
  have "unat (slotCount + p) = 24 + T mod 24" using assms(1) c m by (subst unat_plus_small_u64) simp_all
  moreover have "unat (slotCount + p - q) = unat (slotCount + p) - unat q"
    using calculation assms(2) m by (intro unat_sub) (simp add: word_le_nat_alt)
  ultimately have e: "unat ((slotCount + p - q) mod slotCount) = (24 + T mod 24 - S mod 24) mod 24"
    by (simp add: unat_mod_distrib c assms(2))
  obtain d where d: "T = S + d" "0 < d" "d < 24" using assms(3,4) by (metis add_diff_inverse_nat less_diff_conv2 less_imp_le
        not_less zero_less_diff add.commute)
  have "T mod 24 = (S mod 24 + d) mod 24" unfolding d(1) by (simp add: mod_add_left_eq)
  then have "(24 + T mod 24 - S mod 24) mod 24 = T - S"
    using d m by (cases "S mod 24 + d < 24") (simp_all add: mod_if [of "S mod 24 + d"])
  with e show ?thesis by simp
qed

lemma window_Add:
  assumes ok: "window_ok adds S q" and h: "unat h < 2 ^ 63" and ge: "S \<le> slot_of h"
  shows "window_ok (adds @ [(h, c)]) (slot_of h) (circleQueue_Add h c q)"
proof -
  note D = window_okD [OF ok]
  note b = slots_between [OF D(1,2), of h]
  have "S * 1200 \<le> slot_of h * 1200" "slot_of h * 1200 \<le> unat h" using ge by simp_all
  then have low: "\<not> h < cq_curSlotStartHeight q" unfolding b(1) by linarith
  have pos: "(h mod maxHeight) div slot_step = cq_pos q \<longleftrightarrow> slot_of h = S" if "slot_of h < S + 24"
    using mod24_eq [OF ge that] by (auto simp: word_unat_eq_iff height_position D(3))
  consider "S + 24 \<le> slot_of h" | "slot_of h = S" | "S < slot_of h" "slot_of h < S + 24" using ge by linarith
  then show ?thesis
  proof cases
    case 1
    then show ?thesis using window_far [OF ok h 1] low by (simp add: circleQueue_Add_def Let_def b(2))
  next
    case 2
    then show ?thesis using window_same [OF ok 2] low pos D(3)
      by (simp add: circleQueue_Add_def Let_def b(2))
  next
    case 3
    have gap: "unat ((slotCount + (h mod maxHeight) div slot_step - cq_pos q) mod slotCount) = slot_of h - S"
      by (rule gap_nat [OF height_position D(3) 3])
    have n: "\<not> S + 24 \<le> slot_of h" "\<not> (h mod maxHeight) div slot_step = cq_pos q" using 3 pos by auto
    show ?thesis
      unfolding circleQueue_Add_def Let_def b(2) gap if_not_P [OF low] if_not_P [OF n(1)] if_not_P [OF n(2)] height_position
      by (rule window_near [OF ok h 3])
  qed
qed

lemma window_run:
  assumes "sorted (map (unat \<circ> fst) (adds @ [(h, c)]))" "\<forall>(h', c') \<in> set (adds @ [(h, c)]). unat h' < 2 ^ 63"
  shows "window_ok (adds @ [(h, c)]) (slot_of h) (fold (\<lambda>(h, c). circleQueue_Add h c) (adds @ [(h, c)]) newCircleQueue)"
  using assms
proof (induction adds arbitrary: h c rule: rev_induct)
  case Nil
  then show ?case using window_Add [OF window_ok_new, of h c] by simp
next
  case (snoc a adds)
  obtain h1 c1 where a: "a = (h1, c1)" by (cases a)
  have "window_ok (adds @ [(h1, c1)]) (slot_of h1)
      (fold (\<lambda>(h, c). circleQueue_Add h c) (adds @ [(h1, c1)]) newCircleQueue)"
    using snoc a by (intro snoc.IH) (auto simp: sorted_append)
  moreover have "slot_of h1 \<le> slot_of h" using snoc.prems(1) a by (auto simp: sorted_append intro: div_le_mono)
  ultimately show ?case using window_Add [of "adds @ [(h1, c1)]" "slot_of h1" _ h c] snoc.prems(2) a by simp
qed

abbreviation window :: "nat \<Rightarrow> nat set" where "window S \<equiv> {k. k \<le> S \<and> S < k + 24}"

lemma window_sum_calls:
  assumes "\<forall>(h, c) \<in> set adds. slot_of h \<le> S"
  shows "(\<Sum>k \<in> window S. calls_in adds k) = (\<Sum>(h, c)\<leftarrow>adds. if S < slot_of h + 24 then c else 0)"
  using assms
proof (induction adds)
  case Nil
  then show ?case by (simp add: calls_in_def)
next
  case (Cons a adds)
  obtain h c where a: "a = (h, c)" by (cases a)
  have fin: "finite (window S)" by (rule finite_subset [of _ "{..S}"]) auto
  have "(\<Sum>k \<in> window S. calls_in (a # adds) k) = (\<Sum>k \<in> window S. (if slot_of h = k then c else 0)) + (\<Sum>k \<in> window S. calls_in adds k)"
    by (simp add: a calls_in_def sum.distrib)
  also have "(\<Sum>k \<in> window S. (if slot_of h = k then c else 0)) = (if S < slot_of h + 24 then c else 0)"
    using Cons.prems fin by (simp add: a sum.delta')
  finally show ?case using Cons a by simp
qed

lemma window_positions:
  assumes "window_ok adds S q"
  shows "cq_total q = (\<Sum>k \<in> window S. calls_in adds k)"
proof -
  note D = window_okD [OF assms]
  let ?f = "\<lambda>k :: nat. k mod 24"
  have inj: "inj_on ?f (window S)"
  proof (rule inj_onI)
    fix k t assume "k \<in> window S" "t \<in> window S" "k mod 24 = t mod 24"
    then show "k = t" using mod24_eq [of k t] mod24_eq [of t k] by (cases "k \<le> t") auto
  qed
  have rest: "cq_slots q ! j = 0" if "j \<in> {..<24} - ?f ` window S" for j
  proof -
    have "S < j"
    proof (rule ccontr)
      assume "\<not> S < j"
      then have "j + 24 * ((S - j) div 24) \<in> window S"
        using mult_div_mod_eq [of 24 "S - j"] mod_less_divisor [of 24 "S - j"] by (simp, linarith)
      then have "?f (j + 24 * ((S - j) div 24)) \<in> ?f ` window S" by (rule imageI)
      then show False using that by simp
    qed
    then show ?thesis using D(7) that by simp
  qed
  have "cq_total q = (\<Sum>j \<in> {..<24}. cq_slots q ! j)"
    by (simp add: D(4,5) sum_list_sum_nth atLeast0LessThan)
  also have "\<dots> = (\<Sum>j \<in> ?f ` window S. cq_slots q ! j)"
    using rest by (intro sum.mono_neutral_right) auto
  also have "\<dots> = (\<Sum>k \<in> window S. cq_slots q ! (k mod 24))" using inj by (simp add: sum.reindex)
  also have "\<dots> = (\<Sum>k \<in> window S. calls_in adds k)" using D(6) by (intro sum.cong) auto
  finally show ?thesis .
qed

text \<open>
  C37.  The ring of slots counts exactly the calls of a sliding window: after updates at
  non-decreasing heights the total is the number of calls whose slot of 1200 blocks is one of the
  last 24, however far apart the updates are.
\<close>

theorem call_window_exact:
  assumes "sorted (map (unat \<circ> fst) (adds @ [(h, c)]))" "\<forall>(h', c') \<in> set (adds @ [(h, c)]). unat h' < 2 ^ 63"
  shows "cq_total (fold (\<lambda>(h, c). circleQueue_Add h c) (adds @ [(h, c)]) newCircleQueue) =
    (\<Sum>(h', c')\<leftarrow>adds @ [(h, c)]. if slot_of h < slot_of h' + 24 then c' else 0)"
  using window_positions [OF window_run [OF assms]] window_sum_calls [OF window_okD(8) [OF window_run [OF assms]]]
  by (rule trans)

lemma call_window_exact_witness:
  "cq_total (fold (\<lambda>(h, c). circleQueue_Add h c) [(100, 3), (1300, 4), (28900, 5)] newCircleQueue) = 9"
  using call_window_exact [of "[(100, 3), (1300, 4)]" 28900 5] by simp

end
