(* ===== verification/Block_Building.thy ===== *)
theory Block_Building
  imports Engine System_Contracts "HOL-Library.Multiset"
begin

text \<open>
  The contents of a block: the price heap of pending transactions
  (\<^verbatim>\<open>src/core/types/transaction.go\<close>, on Go's \<^verbatim>\<open>container/heap\<close>), their execution
  (\<^verbatim>\<open>src/core/state_processor.go\<close>) and the proposer's selection loop (\<^verbatim>\<open>commitTransactions\<close> of
  \<^verbatim>\<open>src/consensus/algorand/core/context.go\<close>).
\<close>

section \<open>Heaps\<close>

text \<open>\<^verbatim>\<open>down\<close>, \<^verbatim>\<open>Init\<close>, \<^verbatim>\<open>Pop\<close> and \<^verbatim>\<open>Fix\<close> at the root, over a list and its order \<open>lt\<close>.\<close>

definition heap_swap :: "'a list \<Rightarrow> nat \<Rightarrow> nat \<Rightarrow> 'a list" where
  "heap_swap h i j = h[i := h ! j, j := h ! i]"

function heap_down :: "('a \<Rightarrow> 'a \<Rightarrow> bool) \<Rightarrow> 'a list \<Rightarrow> nat \<Rightarrow> nat \<Rightarrow> 'a list" where
  "heap_down lt h i n =
     (let j1 = 2 * i + 1 in
      if n \<le> j1 then h
      else let j2 = j1 + 1;
               j = (if j2 < n \<and> lt (h ! j2) (h ! j1) then j2 else j1)
           in if \<not> lt (h ! j) (h ! i) then h else heap_down lt (heap_swap h i j) j n)"
  by pat_completeness auto
termination
  by (relation "measure (\<lambda>(lt, h, i, n). n - i)") (auto simp: Let_def split: if_splits)

declare heap_down.simps [simp del]

definition heap_Init :: "('a \<Rightarrow> 'a \<Rightarrow> bool) \<Rightarrow> 'a list \<Rightarrow> 'a list" where
  "heap_Init lt h = foldr (\<lambda>i h. heap_down lt h i (length h)) [0..<length h div 2] h"

definition heap_Pop :: "('a \<Rightarrow> 'a \<Rightarrow> bool) \<Rightarrow> 'a list \<Rightarrow> 'a list" where
  "heap_Pop lt h =
     (let n = length h - 1; h = heap_swap h 0 n; h = heap_down lt h 0 n in take n h)"

definition heap_Fix0 :: "('a \<Rightarrow> 'a \<Rightarrow> bool) \<Rightarrow> 'a list \<Rightarrow> 'a list" where
  "heap_Fix0 lt h = heap_down lt h 0 (length h)"

lemma length_heap_swap [simp]: "length (heap_swap h i j) = length h"
  by (simp add: heap_swap_def)

lemma length_heap_down [simp]: "length (heap_down lt h i n) = length h"
  by (induction lt h i n rule: heap_down.induct) (subst heap_down.simps, auto simp: Let_def)

lemma length_heap_Pop [simp]: "length (heap_Pop lt h) = length h - 1"
  by (simp add: heap_Pop_def Let_def)

lemma length_heap_Fix0 [simp]: "length (heap_Fix0 lt h) = length h"
  by (simp add: heap_Fix0_def)

section \<open>Pending transactions by price and nonce\<close>

definition TxByPrice_Less :: "Transaction \<Rightarrow> Transaction \<Rightarrow> bool" where
  "TxByPrice_Less a b \<longleftrightarrow> tx_Price b < tx_Price a"

record TransactionsByPriceAndNonce =
  tp_txs :: "(address, Transaction list) gomap"
  tp_heads :: "Transaction list"

text \<open>
  The recovery of a sender from its signature is a parameter: \<open>None\<close> is an error, for which
  \<^verbatim>\<open>Sender\<close> returns the zero address.  An account without transactions panics at \<^verbatim>\<open>accTxs[0]\<close>.
  The range loop visits the entries that the map had at its start; an entry it adds under another
  key is not visited.
\<close>

type_synonym sender = "Transaction \<Rightarrow> address option"

definition Sender :: "sender \<Rightarrow> Transaction \<Rightarrow> address" where
  "Sender snd' tx = (case snd' tx of None \<Rightarrow> 0 | Some a \<Rightarrow> a)"

fun price_heads ::
    "sender \<Rightarrow> (address, Transaction list) gomap \<Rightarrow> TransactionsByPriceAndNonce \<Rightarrow> TransactionsByPriceAndNonce option" where
  "price_heads snd' [] t = Some t"
| "price_heads snd' ((from, accTxs) # rest) t =
     (case accTxs of
        [] \<Rightarrow> None
      | tx # later \<Rightarrow>
          let acc = Sender snd' tx;
              txs = mput acc later (tp_txs t);
              txs = (if from \<noteq> acc then mdel from txs else txs)
          in price_heads snd' rest (t\<lparr>tp_heads := tp_heads t @ [tx], tp_txs := txs\<rparr>))"

definition NewTransactionsByPriceAndNonce ::
    "sender \<Rightarrow> (address, Transaction list) gomap \<Rightarrow> TransactionsByPriceAndNonce option" where
  "NewTransactionsByPriceAndNonce snd' txs =
     map_option (\<lambda>t. t\<lparr>tp_heads := heap_Init TxByPrice_Less (tp_heads t)\<rparr>)
       (price_heads snd' txs \<lparr>tp_txs = txs, tp_heads = []\<rparr>)"

definition Peek :: "TransactionsByPriceAndNonce \<Rightarrow> Transaction option" where
  "Peek t = (case tp_heads t of [] \<Rightarrow> None | tx # _ \<Rightarrow> Some tx)"

definition Shift :: "sender \<Rightarrow> TransactionsByPriceAndNonce \<Rightarrow> TransactionsByPriceAndNonce" where
  "Shift snd' t =
     (let acc = Sender snd' (hd (tp_heads t))
      in case mget (tp_txs t) acc of
           Some (tx # later) \<Rightarrow>
             t\<lparr>tp_heads := heap_Fix0 TxByPrice_Less ((tp_heads t)[0 := tx]), tp_txs := mput acc later (tp_txs t)\<rparr>
         | _ \<Rightarrow> t\<lparr>tp_heads := heap_Pop TxByPrice_Less (tp_heads t)\<rparr>)"

definition Pop :: "TransactionsByPriceAndNonce \<Rightarrow> TransactionsByPriceAndNonce" where
  "Pop t = t\<lparr>tp_heads := heap_Pop TxByPrice_Less (tp_heads t)\<rparr>"

definition pending_left :: "TransactionsByPriceAndNonce \<Rightarrow> nat" where
  "pending_left t = length (tp_heads t) + (\<Sum>(a, txs)\<leftarrow>tp_txs t. length txs)"

lemma sum_mput: "mget m a = Some (tx # later) \<Longrightarrow>
    (\<Sum>(a, txs)\<leftarrow>m. length txs) = Suc (\<Sum>(a, txs)\<leftarrow>mput a later m. length txs)"
  by (induction m) (auto split: if_splits)

lemma Pop_left: "Peek t = Some tx \<Longrightarrow> pending_left (Pop t) < pending_left t"
  by (auto simp: Peek_def Pop_def pending_left_def split: list.splits)

lemma Shift_left: "Peek t = Some tx \<Longrightarrow> pending_left (Shift snd' t) < pending_left t"
  by (auto simp: Peek_def Shift_def Let_def pending_left_def sum_mput split: list.splits option.splits)

section \<open>Executing transactions\<close>

datatype tx_error = ErrGasLimitReached | ErrNonceTooLow | ErrNonceTooHigh | OtherTxError

text \<open>
  The EVM behind \<^verbatim>\<open>ApplyMessage\<close> is a parameter: from the header, the beneficiary, the transaction,
  its sender, the gas pool and the state it makes the error or the gas used and whether the
  execution failed, the pool and the state.
\<close>

record executor =
  ex_sender :: sender
  ex_ApplyMessage :: "Header \<Rightarrow> address \<Rightarrow> Transaction \<Rightarrow> address \<Rightarrow> u64 \<Rightarrow> StateDB \<Rightarrow> (tx_error + u64 \<times> bool) \<times> u64 \<times> StateDB"
  ex_ApplyDAOHardFork :: "StateDB \<Rightarrow> StateDB"

definition Tx_Hash :: "crypto \<Rightarrow> Transaction \<Rightarrow> hash" where
  "Tx_Hash cr tx = rlpHash cr
     [RU64 (tx_AccountNonce tx), RBig (tx_Price tx), RU64 (tx_GasLimit tx),
      (case tx_Recipient tx of None \<Rightarrow> RBytes [] | Some a \<Rightarrow> RAddress a), RBig (tx_Amount tx), RBytes (tx_Payload tx),
      RBig (tx_V tx), RBig (tx_R tx), RBig (tx_S tx)]"

text \<open>\<^verbatim>\<open>V.BitLen() <= 8\<close>: below 256 in absolute value.\<close>

definition Protected :: "Transaction \<Rightarrow> bool" where
  "Protected tx \<longleftrightarrow> (if \<bar>tx_V tx\<bar> < 256 then \<bar>tx_V tx\<bar> \<noteq> 27 \<and> \<bar>tx_V tx\<bar> \<noteq> 28 else True)"

definition CreateAddress :: "crypto \<Rightarrow> address \<Rightarrow> u64 \<Rightarrow> address" where
  "CreateAddress cr b nonce =
     BytesToAddress (drop 12 (word_bytes 32 (Keccak256 cr (EncodeToBytes cr (RList [RAddress b, RU64 nonce])))))"

definition NewReceipt :: "bytes \<Rightarrow> bool \<Rightarrow> u64 \<Rightarrow> Receipt" where
  "NewReceipt root failed cumulativeGasUsed =
     \<lparr>rc_PostState = root, rc_Status = (if failed then 0 else 1), rc_CumulativeGasUsed = cumulativeGasUsed, rc_Bloom = 0,
      rc_Logs = [], rc_TxHash = 0, rc_ContractAddress = 0, rc_GasUsed = 0\<rparr>"

type_synonym applied = "(tx_error + Receipt) \<times> u64 \<times> u64 \<times> tracked"

text \<open>The result: the error or the receipt, the gas pool, the gas used so far and the state.\<close>

definition ApplyTransaction ::
    "chain \<Rightarrow> crypto \<Rightarrow> ChainConfig \<Rightarrow> executor \<Rightarrow> address option \<Rightarrow> Header \<Rightarrow> Transaction \<Rightarrow> u64 \<Rightarrow> u64 \<Rightarrow> tracked \<Rightarrow> applied option" where
  "ApplyTransaction ch cr config ex author header tx gp usedGas ts =
     (case ex_sender ex tx of
        None \<Rightarrow> Some (Inl OtherTxError, gp, usedGas, ts)
      | Some from \<Rightarrow>
          let beneficiary = (case author of None \<Rightarrow> h_Coinbase header | Some a \<Rightarrow> a);
              (result, gp, s) = ex_ApplyMessage ex header beneficiary tx from gp (snd ts)
          in case result of
               Inl err \<Rightarrow> Some (Inl err, gp, usedGas, (fst ts, s))
             | Inr (gas, failed) \<Rightarrow>
                 let byzantium = IsByzantium config (h_Number header);
                     ts = Finalise_tracked cr (if byzantium then True else IsEIP158 config (h_Number header)) (fst ts, s);
                     root = (if byzantium then [] else word_bytes 32 (trie_Hash ch (sdb_trie (snd ts))));
                     usedGas = usedGas + gas;
                     receipt = (NewReceipt root failed usedGas)\<lparr>rc_TxHash := Tx_Hash cr tx, rc_GasUsed := gas\<rparr>;
                     receipt = (if tx_Recipient tx = None
                                then receipt\<lparr>rc_ContractAddress := CreateAddress cr from (tx_AccountNonce tx)\<rparr> else receipt);
                     receipt = receipt\<lparr>rc_Logs := GetLogs (snd ts) (Tx_Hash cr tx)\<rparr>
                 in map_option (\<lambda>bloom. (Inr (receipt\<lparr>rc_Bloom := bloom\<rparr>), gp, usedGas, ts)) (CreateBloom cr [receipt]))"

fun process_txs ::
    "chain \<Rightarrow> crypto \<Rightarrow> ChainConfig \<Rightarrow> executor \<Rightarrow> Header \<Rightarrow> hash \<Rightarrow> nat \<Rightarrow> Transaction list \<Rightarrow> u64 \<Rightarrow> u64 \<Rightarrow> MortgageContractCounter
      \<Rightarrow> Receipt list \<Rightarrow> tracked \<Rightarrow> (tx_error + Receipt list \<times> u64 \<times> MortgageContractCounter \<times> tracked) option" where
  "process_txs ch cr config ex header bhash i [] gp usedGas counter receipts ts = Some (Inr (receipts, usedGas, counter, ts))"
| "process_txs ch cr config ex header bhash i (tx # txs) gp usedGas counter receipts ts =
     (let ts = (fst ts, Prepare (Tx_Hash cr tx) bhash (of_nat i) (snd ts))
      in case ApplyTransaction ch cr config ex None header tx gp usedGas ts of
           None \<Rightarrow> None
         | Some (Inl err, _) \<Rightarrow> Some (Inl err)
         | Some (Inr receipt, gp, usedGas, ts) \<Rightarrow>
             process_txs ch cr config ex header bhash (Suc i) txs gp usedGas (ProcessTx cr (snd ts) tx counter)
               (receipts @ [receipt]) ts)"

text \<open>The gas pool starts at the block's limit; \<^verbatim>\<open>AddGas\<close> on the empty pool cannot overflow.\<close>

definition Process ::
    "chain \<Rightarrow> crypto \<Rightarrow> ChainConfig \<Rightarrow> executor \<Rightarrow> Block \<Rightarrow> tracked
      \<Rightarrow> (tx_error + Receipt list \<times> u64 \<times> MortgageContractCounter \<times> tracked) option" where
  "Process ch cr config ex block ts =
     (case process_txs ch cr config ex (b_header block) (Block_Hash cr block) 0 (b_transactions block)
             (h_GasLimit (b_header block)) 0 [] []
             (if cc_DAOForkSupport config \<and> cc_DAOForkBlock config = Some (h_Number (b_header block))
              then (fst ts, ex_ApplyDAOHardFork ex (snd ts)) else ts) of
        None \<Rightarrow> None
      | Some (Inl err) \<Rightarrow> Some (Inl err)
      | Some (Inr (receipts, usedGas, counter, ts)) \<Rightarrow>
          map_option (\<lambda>(_, ts). Inr (receipts, usedGas, counter, ts))
            (Algorand_Finalize ch cr config (b_header block) ts (b_transactions block) (b_uncles block) receipts))"

section \<open>The proposer's selection\<close>

definition commitTransaction ::
    "chain \<Rightarrow> crypto \<Rightarrow> ChainConfig \<Rightarrow> executor \<Rightarrow> Header \<Rightarrow> Transaction \<Rightarrow> u64 \<Rightarrow> tracked
      \<Rightarrow> ((tx_error + Receipt) \<times> u64 \<times> Header \<times> tracked) option" where
  "commitTransaction ch cr config ex header tx gp ts =
     (let (snap, s) = Snapshot (snd ts)
      in case ApplyTransaction ch cr config ex (Some (h_Coinbase header)) header tx gp (h_GasUsed header) (fst ts, s) of
           None \<Rightarrow> None
         | Some (Inl err, gp, _, ts) \<Rightarrow>
             map_option (\<lambda>s. (Inl err, gp, header, (fst ts, s))) (RevertToSnapshot snap (snd ts))
         | Some (Inr receipt, gp, usedGas, ts) \<Rightarrow> Some (Inr receipt, gp, header\<lparr>h_GasUsed := usedGas\<rparr>, ts))"

record selection =
  sel_txs :: "Transaction list"
  sel_receipts :: "Receipt list"
  sel_counter :: MortgageContractCounter
  sel_header :: Header
  sel_state :: tracked

text \<open>
  The loop with its gas pool \<open>gp\<close> and its counter of turns, in which \<open>quit\<close> says whether the quit
  channel is closed and \<open>signer\<close> the signer of the queue.  The event about pending logs that is posted at the end is not modelled.
\<close>

function commit_loop ::
    "(nat \<Rightarrow> bool) \<Rightarrow> sender \<Rightarrow> chain \<Rightarrow> crypto \<Rightarrow> ChainConfig \<Rightarrow> executor \<Rightarrow> nat \<Rightarrow> u64 \<Rightarrow> TransactionsByPriceAndNonce \<Rightarrow> selection
      \<Rightarrow> selection option" where
  "commit_loop quit signer ch cr config ex turn gp txs sel =
     (if quit turn then Some sel
      else if gp < TxGas then Some sel
      else case Peek txs of
             None \<Rightarrow> Some sel
           | Some tx \<Rightarrow>
               if Protected tx \<and> \<not> IsEIP155 config (h_Number (sel_header sel)) then
                 commit_loop quit signer ch cr config ex (Suc turn) gp (Pop txs) sel
               else
                 let ts = sel_state sel;
                     ts = (fst ts, Prepare (Tx_Hash cr tx) 0 (of_nat (length (sel_txs sel))) (snd ts));
                     sel = sel\<lparr>sel_counter := ProcessTx cr (snd ts) tx (sel_counter sel)\<rparr>
                 in case commitTransaction ch cr config ex (sel_header sel) tx gp ts of
                      None \<Rightarrow> None
                    | Some (result, gp, header, ts) \<Rightarrow>
                        let sel = sel\<lparr>sel_header := header, sel_state := ts\<rparr> in
                        (case result of
                           Inl ErrGasLimitReached \<Rightarrow> commit_loop quit signer ch cr config ex (Suc turn) gp (Pop txs) sel
                         | Inl ErrNonceTooLow \<Rightarrow> commit_loop quit signer ch cr config ex (Suc turn) gp (Shift signer txs) sel
                         | Inl ErrNonceTooHigh \<Rightarrow> commit_loop quit signer ch cr config ex (Suc turn) gp (Pop txs) sel
                         | Inl OtherTxError \<Rightarrow> commit_loop quit signer ch cr config ex (Suc turn) gp (Shift signer txs) sel
                         | Inr receipt \<Rightarrow>
                             commit_loop quit signer ch cr config ex (Suc turn) gp (Shift signer txs)
                               (sel\<lparr>sel_txs := sel_txs sel @ [tx], sel_receipts := sel_receipts sel @ [receipt]\<rparr>)))"
  by pat_completeness auto
termination
  by (relation "measure (\<lambda>(quit, signer, ch, cr, config, ex, turn, gp, txs, sel). pending_left txs)")
    (simp_all add: Pop_left Shift_left)

declare commit_loop.simps [simp del]

definition commitTransactions ::
    "(nat \<Rightarrow> bool) \<Rightarrow> sender \<Rightarrow> chain \<Rightarrow> crypto \<Rightarrow> ChainConfig \<Rightarrow> executor \<Rightarrow> TransactionsByPriceAndNonce \<Rightarrow> tracked \<Rightarrow> Header \<Rightarrow> selection option" where
  "commitTransactions quit signer ch cr config ex txs ts header =
     commit_loop quit signer ch cr config ex 0 (h_GasLimit header) txs
       \<lparr>sel_txs = [], sel_receipts = [], sel_counter = [], sel_header = header, sel_state = ts\<rparr>"

end
