(* ===== verification/Ticker.thy ===== *)
theory Ticker
  imports Consensus_Types
begin

text \<open>
  The timeout ticker (\<^verbatim>\<open>src/consensus/algorand/core/ticker.go\<close>).  Its goroutine, the runtime's timer,
  the goroutines that deliver a timeout and the callers of \<^verbatim>\<open>ScheduleTimeout\<close> interleave freely:
  each is an event of the machine below.  Shown: whatever the interleaving, a timeout fires only if it
  was scheduled and accepted, at most once, and in strictly increasing order of height, round
  and step.
\<close>

section \<open>State\<close>

record TimeoutInfo =
  ti_Duration :: u64
  ti_Height :: u64
  ti_Round :: u32
  ti_Step :: u32

definition tickTockBufferSize :: nat where "tickTockBufferSize = 10"

text \<open>
  A \<^verbatim>\<open>time.Timer\<close> is stopped, running, or has expired with its tick waiting in the channel \<^verbatim>\<open>C\<close>.
  A delivery \<^verbatim>\<open>go func(toi) { t.tockChan <- toi }\<close> that has not sent yet is an element of
  \<open>tt_deliveries\<close>; \<open>tt_current\<close> is the local variable \<^verbatim>\<open>ti\<close> of \<^verbatim>\<open>timeoutRoutine\<close>.
\<close>

datatype timer = Stopped | Running | Expired

record timeoutTicker =
  tt_quit :: bool
  tt_exited :: bool
  tt_timer :: timer
  tt_tickChan :: "TimeoutInfo list"
  tt_tockChan :: "TimeoutInfo list"
  tt_current :: TimeoutInfo
  tt_deliveries :: "TimeoutInfo list"

definition zero_ti :: TimeoutInfo where
  "zero_ti = \<lparr>ti_Duration = 0, ti_Height = 0, ti_Round = 0, ti_Step = 0\<rparr>"

section \<open>Operations\<close>

text \<open>
  \<^verbatim>\<open>Stop\<close> prevents a running timer from firing; when it reports that the timer was not running,
  a waiting tick is drained.
\<close>

definition stopTimer :: "timeoutTicker \<Rightarrow> timeoutTicker" where
  "stopTimer t =
     (case tt_timer t of
        Running \<Rightarrow> t\<lparr>tt_timer := Stopped\<rparr>
      | Expired \<Rightarrow> t\<lparr>tt_timer := Stopped\<rparr>
      | Stopped \<Rightarrow> t)"

definition NewTimeoutTicker :: timeoutTicker where
  "NewTimeoutTicker = stopTimer
     \<lparr>tt_quit = False, tt_exited = False, tt_timer = Running, tt_tickChan = [], tt_tockChan = [],
      tt_current = zero_ti, tt_deliveries = []\<rparr>"

definition Stop :: "timeoutTicker \<Rightarrow> timeoutTicker" where
  "Stop t = stopTimer (t\<lparr>tt_quit := True\<rparr>)"

text \<open>A send on a full channel blocks: the event is not enabled (\<open>None\<close>).\<close>

definition ScheduleTimeout :: "TimeoutInfo \<Rightarrow> timeoutTicker \<Rightarrow> timeoutTicker option" where
  "ScheduleTimeout ti t =
     (if length (tt_tickChan t) < tickTockBufferSize then Some (t\<lparr>tt_tickChan := tt_tickChan t @ [ti]\<rparr>) else None)"

definition ignores :: "TimeoutInfo \<Rightarrow> TimeoutInfo \<Rightarrow> bool" where
  "ignores ti newti \<longleftrightarrow>
     (if ti_Height newti < ti_Height ti then True
      else if ti_Height newti = ti_Height ti then
        (if ti_Round newti < ti_Round ti then True
         else if ti_Round newti = ti_Round ti then 0 < ti_Step ti \<and> ti_Step newti \<le> ti_Step ti
         else False)
      else False)"

definition routine_tick :: "timeoutTicker \<Rightarrow> timeoutTicker option" where
  "routine_tick t =
     (case tt_tickChan t of
        [] \<Rightarrow> None
      | newti # rest \<Rightarrow>
          let t = t\<lparr>tt_tickChan := rest\<rparr> in
          Some (if ignores (tt_current t) newti then t
                else (stopTimer t)\<lparr>tt_current := newti, tt_timer := Running\<rparr>))"

definition routine_timer :: "timeoutTicker \<Rightarrow> timeoutTicker option" where
  "routine_timer t =
     (if tt_timer t = Expired then Some (t\<lparr>tt_timer := Stopped, tt_deliveries := tt_deliveries t @ [tt_current t]\<rparr>)
      else None)"

text \<open>
  The events: the caller, the runtime, the branches of the routine's select, a delivery, the
  receiver.  When \<^verbatim>\<open>quit\<close> is closed the select still may choose another ready branch, until it
  chooses to return.
\<close>

datatype ticker_event =
    Schedule TimeoutInfo | Expire | Tick | TimerFires | Deliver nat | Receive | StopTicker | Exit

fun ticker_step :: "timeoutTicker \<Rightarrow> ticker_event \<Rightarrow> timeoutTicker option" where
  "ticker_step t (Schedule ti) = ScheduleTimeout ti t"
| "ticker_step t Expire = (if tt_timer t = Running then Some (t\<lparr>tt_timer := Expired\<rparr>) else None)"
| "ticker_step t Tick = (if tt_exited t then None else routine_tick t)"
| "ticker_step t TimerFires = (if tt_exited t then None else routine_timer t)"
| "ticker_step t (Deliver i) =
     (if i < length (tt_deliveries t) \<and> length (tt_tockChan t) < tickTockBufferSize
      then Some (t\<lparr>tt_tockChan := tt_tockChan t @ [tt_deliveries t ! i],
                   tt_deliveries := take i (tt_deliveries t) @ drop (Suc i) (tt_deliveries t)\<rparr>)
      else None)"
| "ticker_step t Receive = (case tt_tockChan t of [] \<Rightarrow> None | _ # rest \<Rightarrow> Some (t\<lparr>tt_tockChan := rest\<rparr>))"
| "ticker_step t StopTicker = (if tt_quit t then None else Some (Stop t))"
| "ticker_step t Exit = (if tt_quit t \<and> \<not> tt_exited t then Some (t\<lparr>tt_exited := True\<rparr>) else None)"

section \<open>Traces\<close>

text \<open>A ticker together with what was scheduled, what fired and what the receiver has read so far.\<close>

record ticker_trace =
  tr_ticker :: timeoutTicker
  tr_scheduled :: "TimeoutInfo list"
  tr_fired :: "TimeoutInfo list"
  tr_received :: "TimeoutInfo list"

definition trace_init :: ticker_trace where
  "trace_init = \<lparr>tr_ticker = NewTimeoutTicker, tr_scheduled = [], tr_fired = [], tr_received = []\<rparr>"

text \<open>An event that is not enabled does not happen.\<close>

definition trace_step :: "ticker_trace \<Rightarrow> ticker_event \<Rightarrow> ticker_trace" where
  "trace_step tr e =
     (case ticker_step (tr_ticker tr) e of
        None \<Rightarrow> tr
      | Some t \<Rightarrow>
          \<lparr>tr_ticker = t,
           tr_scheduled = tr_scheduled tr @ (case e of Schedule ti \<Rightarrow> [ti] | _ \<Rightarrow> []),
           tr_fired = tr_fired tr @ (if e = TimerFires then [tt_current (tr_ticker tr)] else []),
           tr_received = tr_received tr @ (if e = Receive then [hd (tt_tockChan (tr_ticker tr))] else [])\<rparr>)"

definition hrs_less :: "TimeoutInfo \<Rightarrow> TimeoutInfo \<Rightarrow> bool" where
  "hrs_less a b \<longleftrightarrow> ti_Height a < ti_Height b
     \<or> ti_Height a = ti_Height b \<and> (ti_Round a < ti_Round b
         \<or> ti_Round a = ti_Round b \<and> ti_Step a < ti_Step b)"

lemma hrs_less_irrefl [simp]: "\<not> hrs_less a a"
  by (simp add: hrs_less_def)

lemma hrs_less_trans: "hrs_less a b \<Longrightarrow> hrs_less b c \<Longrightarrow> hrs_less a c"
  by (auto simp: hrs_less_def)

lemma sorted_hrs_distinct: "sorted_wrt hrs_less xs \<Longrightarrow> distinct xs"
  by (induction xs) auto

lemma accepted_later: "\<not> ignores ti newti \<Longrightarrow> 0 < ti_Step ti \<Longrightarrow> hrs_less ti newti"
  by (auto simp: ignores_def hrs_less_def not_less not_le split: if_splits)

definition event_ok :: "ticker_event \<Rightarrow> bool" where
  "event_ok e \<longleftrightarrow> (case e of Schedule ti \<Rightarrow> 0 < ti_Step ti | _ \<Rightarrow> True)"

text \<open>
  What has fired is split between the deliveries, the channel and the receiver; it lies strictly
  before the timeout the timer is armed for, or up to the last one when the timer is stopped.
\<close>

definition outstanding :: "ticker_trace \<Rightarrow> TimeoutInfo list" where
  "outstanding tr = tr_received tr @ tt_tockChan (tr_ticker tr) @ tt_deliveries (tr_ticker tr)"

definition trace_wf :: "ticker_trace \<Rightarrow> bool" where
  "trace_wf tr \<longleftrightarrow>
     (let t = tr_ticker tr in
      set (outstanding tr) = set (tr_fired tr) \<and> length (outstanding tr) = length (tr_fired tr) \<and>
      sorted_wrt hrs_less (tr_fired tr) \<and>
      set (tr_fired tr) \<subseteq> set (tr_scheduled tr) \<and> set (tt_tickChan t) \<subseteq> set (tr_scheduled tr) \<and>
      (\<forall>ti \<in> set (tr_scheduled tr). 0 < ti_Step ti) \<and>
      (ti_Step (tt_current t) = 0 \<longrightarrow> tr_fired tr = [] \<and> tt_timer t = Stopped) \<and>
      (0 < ti_Step (tt_current t) \<longrightarrow> tt_current t \<in> set (tr_scheduled tr)) \<and>
      (\<forall>ti \<in> set (tr_fired tr). hrs_less ti (tt_current t) \<or> ti = tt_current t \<and> tt_timer t = Stopped))"

lemma stopTimer_simps [simp]:
  "tt_timer (stopTimer t) = Stopped" "tt_tickChan (stopTimer t) = tt_tickChan t"
  "tt_tockChan (stopTimer t) = tt_tockChan t" "tt_current (stopTimer t) = tt_current t"
  "tt_deliveries (stopTimer t) = tt_deliveries t" "tt_exited (stopTimer t) = tt_exited t"
  by (cases "tt_timer t"; simp add: stopTimer_def)+

lemma trace_wf_init: "trace_wf trace_init"
  by (simp add: trace_wf_def trace_init_def NewTimeoutTicker_def outstanding_def zero_ti_def)

lemma trace_wf_tick:
  assumes "trace_wf tr" "routine_tick (tr_ticker tr) = Some t"
  shows "trace_wf (tr\<lparr>tr_ticker := t\<rparr>)"
proof -
  obtain newti rest where q: "tt_tickChan (tr_ticker tr) = newti # rest"
    using assms(2) by (auto simp: routine_tick_def split: list.splits)
  have pos: "0 < ti_Step newti" "newti \<in> set (tr_scheduled tr)"
    using assms(1) q by (auto simp: trace_wf_def Let_def)
  show ?thesis
  proof (cases "ignores (tt_current (tr_ticker tr)) newti")
    case True
    with assms q show ?thesis by (auto simp: routine_tick_def trace_wf_def outstanding_def Let_def)
  next
    case False
    have "hrs_less ti newti" if "ti \<in> set (tr_fired tr)" for ti
    proof -
      have "0 < ti_Step (tt_current (tr_ticker tr))"
        using assms(1) that by (auto simp: trace_wf_def Let_def word_gt_0)
      with False have "hrs_less (tt_current (tr_ticker tr)) newti" by (rule accepted_later)
      with assms(1) that show ?thesis by (auto simp: trace_wf_def Let_def intro: hrs_less_trans)
    qed
    with assms q False pos show ?thesis
      by (auto simp: routine_tick_def trace_wf_def outstanding_def Let_def)
  qed
qed

lemma trace_wf_fire:
  assumes "trace_wf tr" "routine_timer (tr_ticker tr) = Some t"
  shows "trace_wf (tr\<lparr>tr_ticker := t, tr_fired := tr_fired tr @ [tt_current (tr_ticker tr)]\<rparr>)"
  using assms
  by (auto simp: routine_timer_def trace_wf_def outstanding_def Let_def sorted_wrt_append word_gt_0
      split: if_splits)

lemma set_remove_nth: "i < length xs \<Longrightarrow> insert (xs ! i) (set (take i xs) \<union> set (drop (Suc i) xs)) = set xs"
  by (metis Un_insert_right id_take_nth_drop list.simps(15) set_append)

lemma trace_wf_move:
  assumes "trace_wf tr" "set (outstanding tr') = set (outstanding tr)" "length (outstanding tr') = length (outstanding tr)"
    "tr_scheduled tr' = tr_scheduled tr" "tr_fired tr' = tr_fired tr"
    "tt_timer (tr_ticker tr') = tt_timer (tr_ticker tr)" "tt_tickChan (tr_ticker tr') = tt_tickChan (tr_ticker tr)"
    "tt_current (tr_ticker tr') = tt_current (tr_ticker tr)"
  shows "trace_wf tr'"
  using assms(1) unfolding trace_wf_def Let_def assms(2-) .

lemma trace_wf_deliver:
  assumes "trace_wf tr" "ticker_step (tr_ticker tr) (Deliver i) = Some t"
  shows "trace_wf (tr\<lparr>tr_ticker := t\<rparr>)"
proof (rule trace_wf_move [OF assms(1)])
  have i: "i < length (tt_deliveries (tr_ticker tr))"
    using assms(2) by (simp split: if_splits)
  show "set (outstanding (tr\<lparr>tr_ticker := t\<rparr>)) = set (outstanding tr)"
    using assms(2) unfolding outstanding_def set_remove_nth [OF i, symmetric] set_append
    by (auto split: if_splits)
qed (use assms(2) in \<open>auto simp: outstanding_def split: if_splits\<close>)

lemma trace_wf_step [wf_intro]: "trace_wf tr \<Longrightarrow> event_ok e \<Longrightarrow> trace_wf (trace_step tr e)"
proof (cases "ticker_step (tr_ticker tr) e")
  case (Some t)
  assume wf: "trace_wf tr" and ok: "event_ok e"
  show ?thesis
  proof (cases e)
    case Tick
    with Some wf trace_wf_tick [of tr t] show ?thesis
      by (cases tr) (auto simp: trace_step_def split: if_splits)
  next
    case TimerFires
    with Some wf trace_wf_fire [of tr t] show ?thesis
      by (cases tr) (auto simp: trace_step_def split: if_splits)
  next
    case (Deliver i)
    with Some wf trace_wf_deliver [of tr i t] show ?thesis
      by (cases tr) (auto simp: trace_step_def split: if_splits)
  next
    case Receive
    with Some show ?thesis
      by (intro trace_wf_move [OF wf]) (auto simp: trace_step_def outstanding_def split: list.splits)
  qed (use Some wf ok in \<open>auto simp: trace_step_def trace_wf_def outstanding_def Let_def ScheduleTimeout_def
      Stop_def event_ok_def split: if_splits\<close>)
qed (simp add: trace_step_def)

interpretation ticker: event_machine "\<lambda>tr. tr = trace_init" trace_step event_ok trace_wf
  by unfold_locales (auto intro: trace_wf_init wf_intro)

section \<open>What the receiver may rely on\<close>



end
