(* ===== verification/Vote_Set.thy ===== *)
theory Vote_Set
  imports Consensus_Types
begin

text \<open>
  Vote counting, \<^verbatim>\<open>src/consensus/algorand/core/voteset.go\<close>: the votes of a height are kept per
  round, per step and per value; a value whose weight reaches the threshold becomes the step's
  major value, one that reaches half of it a potential value.  The mutexes of the source make
  each operation atomic; an operation here is one atomic step on the state.
\<close>

section \<open>State\<close>

text \<open>A \<^verbatim>\<open>UserSet\<close> is a map whose entries are all \<^verbatim>\<open>true\<close>: the list of its keys.\<close>

type_synonym UserSet = "address list"

definition UserSet_Has :: "UserSet \<Rightarrow> address \<Rightarrow> bool" where
  "UserSet_Has us user \<longleftrightarrow> user \<in> set us"

definition UserSet_Add :: "address \<Rightarrow> UserSet \<Rightarrow> UserSet" where
  "UserSet_Add user us = (if \<not> UserSet_Has us user then us @ [user] else us)"

record VoteSet =
  vs_Weight :: u64
  vs_Votes :: "VoteData list"

record StepVoteSet =
  svs_Values :: "(hash, VoteSet) gomap"
  svs_MajorValue :: hash
  svs_PotentialValue :: "hash list"
  svs_userSet :: UserSet

record RoundVoteSet =
  rvs_softVoteSet :: StepVoteSet
  rvs_certVoteSet :: StepVoteSet
  rvs_nextVoteSet :: "(u32, StepVoteSet) gomap"
  rvs_potentialValues :: "hash list"

type_synonym HeightVoteSet = "(u32, RoundVoteSet) gomap"

definition EmptyHash :: "hash \<Rightarrow> bool" where
  "EmptyHash h \<longleftrightarrow> h = 0"

definition NewStepVoteSet :: StepVoteSet where
  "NewStepVoteSet = \<lparr>svs_Values = [], svs_MajorValue = 0, svs_PotentialValue = [], svs_userSet = []\<rparr>"

definition NewRoundVoteSet :: RoundVoteSet where
  "NewRoundVoteSet =
    \<lparr>rvs_softVoteSet = NewStepVoteSet, rvs_certVoteSet = NewStepVoteSet,
     rvs_nextVoteSet = [], rvs_potentialValues = []\<rparr>"

definition NewHeightVoteSet :: HeightVoteSet where
  "NewHeightVoteSet = []"

text \<open>
  \<^verbatim>\<open>NewRoundVoteSetFromCertificates\<close> reads \<^verbatim>\<open>votes[0]\<close>: \<open>None\<close> is its panic on no votes.
\<close>

definition NewRoundVoteSetFromCertificates :: "VoteData list \<Rightarrow> u64 \<Rightarrow> RoundVoteSet option" where
  "NewRoundVoteSetFromCertificates votes threshold =
     (case votes of
        [] \<Rightarrow> None
      | v # _ \<Rightarrow>
          Some (NewRoundVoteSet\<lparr>rvs_certVoteSet := NewStepVoteSet
            \<lparr>svs_Values := [(v_Value v, \<lparr>vs_Weight = threshold, vs_Votes = votes\<rparr>)],
             svs_userSet := foldl (\<lambda>us c. UserSet_Add (v_Address c) us) [] votes\<rparr>\<rparr>))"

section \<open>Looking up and creating the votes of a step\<close>

definition getStepVoteSet :: "RoundVoteSet \<Rightarrow> u32 \<Rightarrow> StepVoteSet option" where
  "getStepVoteSet rvs step =
     (let voteType = VoteTypeOfStep step in
      if voteType = VoteTypeSoft then Some (rvs_softVoteSet rvs)
      else if voteType = VoteTypeCert then Some (rvs_certVoteSet rvs)
      else if voteType = VoteTypeNext then mget (rvs_nextVoteSet rvs) step
      else None)"

text \<open>The source mutates the step's set through its pointer; the model stores it back.\<close>

definition setStepVoteSet :: "u32 \<Rightarrow> StepVoteSet \<Rightarrow> RoundVoteSet \<Rightarrow> RoundVoteSet" where
  "setStepVoteSet step svs rvs =
     (let voteType = VoteTypeOfStep step in
      if voteType = VoteTypeSoft then rvs\<lparr>rvs_softVoteSet := svs\<rparr>
      else if voteType = VoteTypeCert then rvs\<lparr>rvs_certVoteSet := svs\<rparr>
      else if voteType = VoteTypeNext then rvs\<lparr>rvs_nextVoteSet := mput step svs (rvs_nextVoteSet rvs)\<rparr>
      else rvs)"

definition ensureStepVoteSet :: "RoundVoteSet \<Rightarrow> u32 \<Rightarrow> StepVoteSet option \<times> RoundVoteSet" where
  "ensureStepVoteSet rvs step =
     (case getStepVoteSet rvs step of
        Some svs \<Rightarrow> (Some svs, rvs)
      | None \<Rightarrow>
          if VoteTypeOfStep step = VoteTypeNext then
            (Some NewStepVoteSet, setStepVoteSet step NewStepVoteSet rvs)
          else (None, rvs))"

definition RoundVoteSet_HasVote :: "RoundVoteSet \<Rightarrow> u32 \<Rightarrow> address \<Rightarrow> bool" where
  "RoundVoteSet_HasVote rvs step user =
     (case getStepVoteSet rvs step of None \<Rightarrow> False | Some svs \<Rightarrow> UserSet_Has (svs_userSet svs) user)"

definition RoundVoteSet_SetHasVote :: "u32 \<Rightarrow> address \<Rightarrow> RoundVoteSet \<Rightarrow> RoundVoteSet" where
  "RoundVoteSet_SetHasVote step user rvs =
     (case ensureStepVoteSet rvs step of
        (None, rvs') \<Rightarrow> rvs'
      | (Some svs, rvs') \<Rightarrow>
          setStepVoteSet step (svs\<lparr>svs_userSet := UserSet_Add user (svs_userSet svs)\<rparr>) rvs')"

definition StepVoteSet_hasPotentialValue :: "StepVoteSet \<Rightarrow> hash \<Rightarrow> bool" where
  "StepVoteSet_hasPotentialValue svs value \<longleftrightarrow> value \<in> set (svs_PotentialValue svs)"

definition RoundVoteSet_hasPotentialValue :: "RoundVoteSet \<Rightarrow> hash \<Rightarrow> bool" where
  "RoundVoteSet_hasPotentialValue rvs value \<longleftrightarrow> value \<in> set (rvs_potentialValues rvs)"

section \<open>Adding a vote\<close>

datatype vote_error = BadVoteStep | DuplicateVote | MajorValueExists hash

record add_result =
  ar_added :: bool
  ar_newPotential :: bool
  ar_enough :: bool
  ar_err :: "vote_error option"

text \<open>
  The counting of \<^verbatim>\<open>AddVoteAndCount\<close> on the set of one step and the round's list of potential
  values; the round operation below looks the step up and stores it back.
\<close>

definition StepVoteSet_count ::
  "VoteData \<Rightarrow> u64 \<Rightarrow> StepVoteSet \<Rightarrow> hash list \<Rightarrow> add_result \<times> StepVoteSet \<times> hash list" where
  "StepVoteSet_count vote threshold svs potentials =
     (let voteValue = v_Value vote;
          voteSet = (case mget (svs_Values svs) voteValue of
                       None \<Rightarrow> \<lparr>vs_Weight = 0, vs_Votes = []\<rparr> | Some vs \<Rightarrow> vs);
          added = (vs_Weight voteSet < threshold);
          voteSet = (if added then voteSet\<lparr>vs_Votes := vs_Votes voteSet @ [vote],
                                           vs_Weight := vs_Weight voteSet + v_Weight vote\<rparr>
                     else voteSet);
          svs = svs\<lparr>svs_Values := mput voteValue voteSet (svs_Values svs)\<rparr>;
          svs = (if added then svs\<lparr>svs_userSet := UserSet_Add (v_Address vote) (svs_userSet svs)\<rparr> else svs);
          newPotential = (threshold + 1 \<le> vs_Weight voteSet * 2
                          \<and> \<not> StepVoteSet_hasPotentialValue svs voteValue);
          svs = (if newPotential then svs\<lparr>svs_PotentialValue := svs_PotentialValue svs @ [voteValue]\<rparr> else svs);
          potentials = (if newPotential \<and> voteValue \<notin> set potentials then potentials @ [voteValue] else potentials);
          enough = (threshold \<le> vs_Weight voteSet);
          svs = (if enough then svs\<lparr>svs_MajorValue := voteValue\<rparr> else svs)
      in (\<lparr>ar_added = added, ar_newPotential = newPotential, ar_enough = enough, ar_err = None\<rparr>,
          svs, potentials))"

definition RoundVoteSet_AddVoteAndCount ::
  "VoteData \<Rightarrow> u64 \<Rightarrow> RoundVoteSet \<Rightarrow> add_result \<times> RoundVoteSet" where
  "RoundVoteSet_AddVoteAndCount vote threshold rvs =
     (case ensureStepVoteSet rvs (v_Step vote) of
        (None, rvs) \<Rightarrow>
          (\<lparr>ar_added = False, ar_newPotential = False, ar_enough = False, ar_err = Some BadVoteStep\<rparr>, rvs)
      | (Some svs, rvs) \<Rightarrow>
          if UserSet_Has (svs_userSet svs) (v_Address vote) then
            (\<lparr>ar_added = False, ar_newPotential = False, ar_enough = False, ar_err = Some DuplicateVote\<rparr>, rvs)
          else if \<not> EmptyHash (svs_MajorValue svs) then
            (\<lparr>ar_added = False, ar_newPotential = True, ar_enough = True,
              ar_err = Some (MajorValueExists (svs_MajorValue svs))\<rparr>, rvs)
          else
            let (r, svs, potentials) = StepVoteSet_count vote threshold svs (rvs_potentialValues rvs)
            in (r, (setStepVoteSet (v_Step vote) svs rvs)\<lparr>rvs_potentialValues := potentials\<rparr>))"

section \<open>The votes of a height\<close>

definition EnsureRoundVoteSet :: "HeightVoteSet \<Rightarrow> u32 \<Rightarrow> RoundVoteSet \<times> HeightVoteSet" where
  "EnsureRoundVoteSet hvs round =
     (case mget hvs round of
        Some rvs \<Rightarrow> (rvs, hvs)
      | None \<Rightarrow> (NewRoundVoteSet, mput round NewRoundVoteSet hvs))"

definition HeightVoteSet_RoundVoteSet :: "HeightVoteSet \<Rightarrow> u32 \<Rightarrow> RoundVoteSet option" where
  "HeightVoteSet_RoundVoteSet hvs round = mget hvs round"

definition AddVoteAndCount :: "VoteData \<Rightarrow> u64 \<Rightarrow> HeightVoteSet \<Rightarrow> add_result \<times> HeightVoteSet" where
  "AddVoteAndCount vote threshold hvs =
     (let (rvs, hvs) = EnsureRoundVoteSet hvs (v_Round vote);
          (r, rvs) = RoundVoteSet_AddVoteAndCount vote threshold rvs
      in (r, mput (v_Round vote) rvs hvs))"

definition HasVote :: "HeightVoteSet \<Rightarrow> u32 \<Rightarrow> u32 \<Rightarrow> address \<Rightarrow> bool" where
  "HasVote hvs round step user =
     (case HeightVoteSet_RoundVoteSet hvs round of
        None \<Rightarrow> False | Some rvs \<Rightarrow> RoundVoteSet_HasVote rvs step user)"

definition SetHasVote :: "u32 \<Rightarrow> u32 \<Rightarrow> address \<Rightarrow> HeightVoteSet \<Rightarrow> HeightVoteSet" where
  "SetHasVote round step user hvs =
     (let (rvs, hvs) = EnsureRoundVoteSet hvs round
      in mput round (RoundVoteSet_SetHasVote step user rvs) hvs)"

definition GetSoftMajorValue :: "RoundVoteSet \<Rightarrow> hash" where
  "GetSoftMajorValue rvs = svs_MajorValue (rvs_softVoteSet rvs)"

definition GetCertMajorValue :: "RoundVoteSet \<Rightarrow> hash" where
  "GetCertMajorValue rvs = svs_MajorValue (rvs_certVoteSet rvs)"

definition GetPotentialSoftedValues :: "RoundVoteSet \<Rightarrow> hash list" where
  "GetPotentialSoftedValues rvs = svs_PotentialValue (rvs_softVoteSet rvs)"

definition GetPotentialCertifiedValues :: "RoundVoteSet \<Rightarrow> hash list" where
  "GetPotentialCertifiedValues rvs = svs_PotentialValue (rvs_certVoteSet rvs)"

definition RoundVoteSet_IsNextVoteEnoughForEmptyAtAnyStep :: "RoundVoteSet \<Rightarrow> hash \<Rightarrow> bool" where
  "RoundVoteSet_IsNextVoteEnoughForEmptyAtAnyStep rvs emptyValue =
     list_ex (\<lambda>(step, svs). svs_MajorValue svs = emptyValue) (rvs_nextVoteSet rvs)"

definition RoundVoteSet_GetCertVotesOfValue :: "RoundVoteSet \<Rightarrow> hash \<Rightarrow> VoteData list" where
  "RoundVoteSet_GetCertVotesOfValue rvs value =
     (case mget (svs_Values (rvs_certVoteSet rvs)) value of None \<Rightarrow> [] | Some vv \<Rightarrow> vs_Votes vv)"

text \<open>
  \<^verbatim>\<open>rounds\<close> is filled with the round numbers and sorted, but \<^verbatim>\<open>rvsMap\<close> is keyed by the position
  in the iteration, not by the round: the lookup \<^verbatim>\<open>rvsMap[round]\<close> yields nil for a round that is
  not also a position, and the method call on it panics (\<open>None\<close>).  The order of the iteration over
  the Go map is the order of the association list.
\<close>

fun soft_search :: "(nat, RoundVoteSet) gomap \<Rightarrow> hash \<Rightarrow> u32 list \<Rightarrow> (bool \<times> hash) option" where
  "soft_search rvsMap emptyValue [] = Some (False, emptyValue)"
| "soft_search rvsMap emptyValue (round # rounds) =
     (case mget rvsMap (unat round) of
        None \<Rightarrow> None
      | Some rvs \<Rightarrow>
          let value = GetSoftMajorValue rvs in
          if \<not> EmptyHash value \<and> value \<noteq> emptyValue then Some (True, value)
          else soft_search rvsMap emptyValue rounds)"

definition IsSoftVoteEnoughForNonEmptyForAnyRound ::
  "HeightVoteSet \<Rightarrow> hash \<Rightarrow> (bool \<times> hash) option" where
  "IsSoftVoteEnoughForNonEmptyForAnyRound hvs emptyValue =
     (let rounds = sort (map fst hvs);
          rvsMap = zip [0..<length hvs] (map snd hvs)
      in soft_search rvsMap emptyValue rounds)"

definition IsSoftVoteEnoughForNonEmpty :: "HeightVoteSet \<Rightarrow> hash \<Rightarrow> u32 \<Rightarrow> bool \<times> hash" where
  "IsSoftVoteEnoughForNonEmpty hvs emptyValue round =
     (case HeightVoteSet_RoundVoteSet hvs round of
        None \<Rightarrow> (False, emptyValue)
      | Some rvs \<Rightarrow>
          let value = GetSoftMajorValue rvs in
          if \<not> EmptyHash value \<and> value \<noteq> emptyValue then (True, value) else (False, emptyValue))"

definition IsNextVoteEnoughForEmptyAtAnyStep :: "HeightVoteSet \<Rightarrow> u32 \<Rightarrow> hash \<Rightarrow> bool" where
  "IsNextVoteEnoughForEmptyAtAnyStep hvs round emptyValue =
     (case HeightVoteSet_RoundVoteSet hvs round of
        None \<Rightarrow> False
      | Some rvs \<Rightarrow> RoundVoteSet_IsNextVoteEnoughForEmptyAtAnyStep rvs emptyValue)"

definition GetCertVotesOfValue :: "HeightVoteSet \<Rightarrow> u32 \<Rightarrow> hash \<Rightarrow> VoteData list" where
  "GetCertVotesOfValue hvs round value =
     (case HeightVoteSet_RoundVoteSet hvs round of
        None \<Rightarrow> [] | Some rvs \<Rightarrow> RoundVoteSet_GetCertVotesOfValue rvs value)"

definition GetCertVoteStorage :: "HeightVoteSet \<Rightarrow> u32 \<Rightarrow> hash \<Rightarrow> CertVoteStorage list" where
  "GetCertVoteStorage hvs round value =
     map (\<lambda>vote. \<lparr>cvs_ESignValue = v_ESignValue vote,
                  cvs_Credential = \<lparr>cs_Address = v_Address vote, cs_Proof = cr_Proof (v_Credential vote)\<rparr>\<rparr>)
       (GetCertVotesOfValue hvs round value)"

definition IsPotentialValue :: "HeightVoteSet \<Rightarrow> u32 \<Rightarrow> hash \<Rightarrow> bool" where
  "IsPotentialValue hvs round value =
     (case HeightVoteSet_RoundVoteSet hvs round of
        None \<Rightarrow> False | Some rvs \<Rightarrow> RoundVoteSet_hasPotentialValue rvs value)"

section \<open>Picking votes for a peer\<close>

text \<open>
  \<^verbatim>\<open>rand.Intn(n)\<close> is an argument \<open>intn\<close>; the order in which Go iterates over the map of values is an
  argument \<open>ord\<close>, a permutation of its entries.
\<close>

definition RandomSelect :: "(nat \<Rightarrow> nat) \<Rightarrow> VoteData list \<Rightarrow> VoteData option" where
  "RandomSelect intn from = (if from = [] then None else Some (from ! intn (length from)))"

definition appendNotIn :: "VoteData list \<Rightarrow> VoteData list \<Rightarrow> UserSet option \<Rightarrow> VoteData list" where
  "appendNotIn tmp votes userSet =
     foldl (\<lambda>tmp vote. case userSet of
              None \<Rightarrow> tmp @ [vote]
            | Some us \<Rightarrow> if \<not> UserSet_Has us (v_Address vote) then tmp @ [vote] else tmp) tmp votes"

type_synonym value_order = "(hash, VoteSet) gomap \<Rightarrow> (hash, VoteSet) gomap"

text \<open>
  A potential or major value always has an entry in \<^verbatim>\<open>Values\<close>; reading the votes of a value that
  has none would be a nil dereference.
\<close>

definition votes_of :: "StepVoteSet \<Rightarrow> hash \<Rightarrow> VoteData list option" where
  "votes_of svs value = map_option vs_Votes (mget (svs_Values svs) value)"

fun collect_potential ::
  "StepVoteSet \<Rightarrow> UserSet option \<Rightarrow> VoteData list \<Rightarrow> hash list \<Rightarrow> VoteData list option" where
  "collect_potential svs us tmp [] = Some tmp"
| "collect_potential svs us tmp (v # vs) =
     (case votes_of svs v of
        None \<Rightarrow> None | Some votes \<Rightarrow> collect_potential svs us (appendNotIn tmp votes us) vs)"

definition RandomNotIn ::
  "(nat \<Rightarrow> nat) \<Rightarrow> value_order \<Rightarrow> StepVoteSet \<Rightarrow> StepVoteSet option \<Rightarrow> VoteData option option" where
  "RandomNotIn intn ord svs other =
     (if svs_Values svs = [] then Some None
      else
        let otherUserSet = map_option svs_userSet other;
            others = foldl (\<lambda>tmp (v, self). appendNotIn tmp (vs_Votes self) otherUserSet) [] (ord (svs_Values svs))
        in do {
          majorTmp \<leftarrow> (if \<not> EmptyHash (svs_MajorValue svs)
                      then map_option (\<lambda>votes. appendNotIn [] votes otherUserSet) (votes_of svs (svs_MajorValue svs))
                      else Some []);
          if majorTmp \<noteq> [] then Some (RandomSelect intn majorTmp)
          else do {
            potTmp \<leftarrow> collect_potential svs otherUserSet [] (svs_PotentialValue svs);
            if potTmp \<noteq> [] then Some (RandomSelect intn potTmp)
            else Some (RandomSelect intn others)
          }
        })"

fun pick_steps ::
  "(nat \<Rightarrow> nat) \<Rightarrow> value_order \<Rightarrow> RoundVoteSet \<Rightarrow> RoundVoteSet \<Rightarrow> u32 list \<Rightarrow> VoteData option option" where
  "pick_steps intn ord rvs other [] = Some None"
| "pick_steps intn ord rvs other (step # steps) =
     (case mget (rvs_nextVoteSet rvs) step of
        None \<Rightarrow> None
      | Some svs \<Rightarrow> do {
          vote \<leftarrow> RandomNotIn intn ord svs (mget (rvs_nextVoteSet other) step);
          if vote \<noteq> None then Some vote else pick_steps intn ord rvs other steps
        })"

definition pickNextVoteToSend ::
  "(nat \<Rightarrow> nat) \<Rightarrow> value_order \<Rightarrow> RoundVoteSet \<Rightarrow> RoundVoteSet \<Rightarrow> VoteData option option" where
  "pickNextVoteToSend intn ord rvs other =
     pick_steps intn ord rvs other (sort (map fst (rvs_nextVoteSet rvs)))"

definition PickNextVoteToSend ::
  "(nat \<Rightarrow> nat) \<Rightarrow> value_order \<Rightarrow> RoundVoteSet option \<Rightarrow> RoundVoteSet option \<Rightarrow> VoteData option option" where
  "PickNextVoteToSend intn ord rvs other =
     (case rvs of
        None \<Rightarrow> Some None
      | Some rvs \<Rightarrow>
          pickNextVoteToSend intn ord rvs (case other of None \<Rightarrow> NewRoundVoteSet | Some o' \<Rightarrow> o'))"

definition PickVoteToSend ::
  "(nat \<Rightarrow> nat) \<Rightarrow> value_order \<Rightarrow> RoundVoteSet option \<Rightarrow> RoundVoteSet option \<Rightarrow> VoteData option option" where
  "PickVoteToSend intn ord rvs other =
     (case rvs of
        None \<Rightarrow> Some None
      | Some rvs \<Rightarrow>
          let other = (case other of None \<Rightarrow> NewRoundVoteSet | Some o' \<Rightarrow> o') in do {
            vote \<leftarrow> RandomNotIn intn ord (rvs_certVoteSet rvs) (Some (rvs_certVoteSet other));
            if vote \<noteq> None then Some vote
            else do {
              vote \<leftarrow> RandomNotIn intn ord (rvs_softVoteSet rvs) (Some (rvs_softVoteSet other));
              if vote \<noteq> None then Some vote else pickNextVoteToSend intn ord rvs other
            }
          })"

end
