(* ===== verification/Vote_Counting.thy ===== *)
theory Vote_Counting
  imports Vote_Set
begin

text \<open>
  What vote counting guarantees: the well-formedness of the vote sets under
  \<^verbatim>\<open>AddVoteAndCount\<close>, the uniqueness and stability of a step's major value, quorum
  intersection between the vote sets of two nodes, and the completeness of the choice of votes
  for a peer.
\<close>

section \<open>Reading the votes of a height\<close>

text \<open>
  The set of a round and step, empty when it has not been created yet: the abstract state of the
  component, in which creating an empty set is invisible.
\<close>

definition round_view :: "RoundVoteSet \<Rightarrow> u32 \<Rightarrow> StepVoteSet" where
  "round_view rvs step = (case getStepVoteSet rvs step of None \<Rightarrow> NewStepVoteSet | Some svs \<Rightarrow> svs)"

definition step_view :: "HeightVoteSet \<Rightarrow> u32 \<Rightarrow> u32 \<Rightarrow> StepVoteSet" where
  "step_view hvs round step =
     (case mget hvs round of
        None \<Rightarrow> NewStepVoteSet
      | Some rvs \<Rightarrow> round_view rvs step)"

definition major_of :: "HeightVoteSet \<Rightarrow> u32 \<Rightarrow> u32 \<Rightarrow> hash" where
  "major_of hvs round step = svs_MajorValue (step_view hvs round step)"

definition all_votes :: "StepVoteSet \<Rightarrow> VoteData list" where
  "all_votes svs = concat (map (vs_Votes \<circ> snd) (svs_Values svs))"

abbreviation is_vote_step :: "u32 \<Rightarrow> bool" where
  "is_vote_step step \<equiv> VoteTypeOfStep step \<noteq> BadStep"

lemma vote_step_cases:
  assumes "is_vote_step step"
  obtains "step = RoundStep2Filtering" | "step = RoundStep3Certifying"
    | "RoundStep4FirstFinishing \<le> step" "step \<noteq> RoundStep2Filtering" "step \<noteq> RoundStep3Certifying"
  using assms by (auto simp: VoteTypeOfStep_def split: if_splits)

lemma getStepVoteSet_setStepVoteSet [simp]:
  assumes "is_vote_step step"
  shows "getStepVoteSet (setStepVoteSet step svs rvs) step' =
    (if step' = step then Some svs else getStepVoteSet rvs step')"
  using assms
  by (cases step rule: vote_step_cases)
    (auto simp: getStepVoteSet_def setStepVoteSet_def Let_def VoteTypeOfStep_cases)

lemma getStepVoteSet_potentials [simp]:
  "getStepVoteSet (rvs\<lparr>rvs_potentialValues := p\<rparr>) step = getStepVoteSet rvs step"
  by (simp add: getStepVoteSet_def Let_def)

lemma getStepVoteSet_New:
  "getStepVoteSet NewRoundVoteSet step =
    (if step = RoundStep2Filtering \<or> step = RoundStep3Certifying then Some NewStepVoteSet else None)"
  by (auto simp: getStepVoteSet_def NewRoundVoteSet_def Let_def VoteTypeOfStep_cases)

lemma getStepVoteSet_type: "getStepVoteSet rvs step = Some svs \<Longrightarrow> is_vote_step step"
  by (auto simp: getStepVoteSet_def Let_def split: if_splits)

text \<open>Creating a missing step changes nothing but that step, which starts empty.\<close>

lemma ensureStepVoteSet_None: "ensureStepVoteSet rvs step = (None, rvs') \<Longrightarrow> \<not> is_vote_step step \<and> rvs' = rvs"
  by (auto simp: ensureStepVoteSet_def getStepVoteSet_def VoteTypeOfStep_def Let_def
      split: option.splits if_splits)

lemma ensureStepVoteSet_Some:
  assumes "ensureStepVoteSet rvs step = (Some svs, rvs')"
  shows "is_vote_step step"
    and "getStepVoteSet rvs step = Some svs \<and> rvs' = rvs
       \<or> getStepVoteSet rvs step = None \<and> svs = NewStepVoteSet \<and> rvs' = setStepVoteSet step NewStepVoteSet rvs"
    and "getStepVoteSet rvs' step = Some svs"
    and "rvs_potentialValues rvs' = rvs_potentialValues rvs"
proof -
  show t: "is_vote_step step"
    using assms by (auto simp: ensureStepVoteSet_def split: option.splits if_splits dest: getStepVoteSet_type)
  show "getStepVoteSet rvs step = Some svs \<and> rvs' = rvs
       \<or> getStepVoteSet rvs step = None \<and> svs = NewStepVoteSet \<and> rvs' = setStepVoteSet step NewStepVoteSet rvs"
    using assms by (auto simp: ensureStepVoteSet_def split: option.splits if_splits)
  then show "getStepVoteSet rvs' step = Some svs"
    using t by auto
  show "rvs_potentialValues rvs' = rvs_potentialValues rvs"
    using assms by (auto simp: ensureStepVoteSet_def setStepVoteSet_def Let_def split: option.splits if_splits)
qed

section \<open>Well-formed vote sets\<close>

text \<open>
  For a step with threshold \<open>thr\<close>: the votes stored under a value are for that value, and its
  weight is the sum of theirs; no address votes twice in the step, and every voter is known to
  the user set; a potential value has reached half of the threshold, the major value the whole
  of it, and (the zero hash apart, which stands for "none") no other value has.
\<close>

definition votes_at :: "StepVoteSet \<Rightarrow> hash \<Rightarrow> VoteData list" where
  "votes_at svs value = (case mget (svs_Values svs) value of None \<Rightarrow> [] | Some vs \<Rightarrow> vs_Votes vs)"

definition weight_at :: "StepVoteSet \<Rightarrow> hash \<Rightarrow> u64" where
  "weight_at svs value = (case mget (svs_Values svs) value of None \<Rightarrow> 0 | Some vs \<Rightarrow> vs_Weight vs)"

definition voters_at :: "StepVoteSet \<Rightarrow> hash \<Rightarrow> address set" where
  "voters_at svs value = v_Address ` set (votes_at svs value)"

definition svs_wf :: "u64 \<Rightarrow> StepVoteSet \<Rightarrow> bool" where
  "svs_wf thr svs \<longleftrightarrow>
     is_map (svs_Values svs) \<and>
     (\<forall>value. \<forall>v \<in> set (votes_at svs value). v_Value v = value) \<and>
     (\<forall>value. unat (weight_at svs value) = sum_list (map (unat \<circ> v_Weight) (votes_at svs value))) \<and>
     (\<forall>value. unat (weight_at svs value) < 2 ^ 63) \<and>
     (\<forall>value. distinct (map v_Address (votes_at svs value))) \<and>
     (\<forall>v w. v \<noteq> w \<longrightarrow> voters_at svs v \<inter> voters_at svs w = {}) \<and>
     (\<forall>value. voters_at svs value \<subseteq> set (svs_userSet svs)) \<and>
     distinct (svs_PotentialValue svs) \<and>
     (\<forall>value. value \<in> set (svs_PotentialValue svs) \<longleftrightarrow> unat thr + 1 \<le> 2 * unat (weight_at svs value)) \<and>
     (svs_MajorValue svs \<noteq> 0 \<longrightarrow> thr \<le> weight_at svs (svs_MajorValue svs)) \<and>
     (\<forall>value. value \<noteq> 0 \<longrightarrow> thr \<le> weight_at svs value \<longrightarrow> svs_MajorValue svs = value)"

lemmas at_defs = votes_at_def weight_at_def voters_at_def

lemma svs_wfD:
  assumes "svs_wf thr svs"
  shows "is_map (svs_Values svs)"
    and "v \<in> set (votes_at svs x) \<Longrightarrow> v_Value v = x"
    and "unat (weight_at svs x) = sum_list (map (unat \<circ> v_Weight) (votes_at svs x))"
    and "unat (weight_at svs x) < 2 ^ 63"
    and "distinct (map v_Address (votes_at svs x))"
    and "x \<noteq> y \<Longrightarrow> voters_at svs x \<inter> voters_at svs y = {}"
    and "voters_at svs x \<subseteq> set (svs_userSet svs)"
    and "distinct (svs_PotentialValue svs)"
    and "x \<in> set (svs_PotentialValue svs) \<longleftrightarrow> unat thr + 1 \<le> 2 * unat (weight_at svs x)"
    and "svs_MajorValue svs \<noteq> 0 \<Longrightarrow> thr \<le> weight_at svs (svs_MajorValue svs)"
    and "x \<noteq> 0 \<Longrightarrow> thr \<le> weight_at svs x \<Longrightarrow> svs_MajorValue svs = x"
  using assms unfolding svs_wf_def by blast+

lemma svs_wf_New [simp]: "0 < thr \<Longrightarrow> svs_wf thr NewStepVoteSet"
  by (auto simp: svs_wf_def NewStepVoteSet_def at_defs)

text \<open>
  The sum of a threshold and a vote's weight stays far below the 64-bit range (a committee has
  at most a few thousand members), so that no addition of the counting wraps around.
\<close>

definition small_vote :: "u64 \<Rightarrow> VoteData \<Rightarrow> bool" where
  "small_vote thr vote \<longleftrightarrow> 0 < thr \<and> unat thr + unat (v_Weight vote) < 2 ^ 63"

lemma UserSet_Add_set [simp]: "set (UserSet_Add u us) = insert u (set us)"
  by (auto simp: UserSet_Add_def UserSet_Has_def)

lemma VoteSet_update [simp]: "(a :: VoteSet)\<lparr>vs_Votes := x, vs_Weight := y\<rparr> = \<lparr>vs_Weight = y, vs_Votes = x\<rparr>"
  by (cases a) simp

lemma VoteSet_eta [simp]: "\<lparr>vs_Weight = vs_Weight a, vs_Votes = vs_Votes a\<rparr> = (a :: VoteSet)"
  by (cases a) simp

text \<open>One counted vote, as a change of the step's fields.\<close>

lemma StepVoteSet_count_eq:
  assumes "value = v_Value vote" "w = weight_at svs value" "added = (w < thr)"
    and "w' = (if added then w + v_Weight vote else w)"
    and "newPotential = (thr + 1 \<le> w' * 2 \<and> value \<notin> set (svs_PotentialValue svs))"
    and "enough = (thr \<le> w')"
  shows "StepVoteSet_count vote thr svs pots =
    (\<lparr>ar_added = added, ar_newPotential = newPotential, ar_enough = enough, ar_err = None\<rparr>,
     svs\<lparr>svs_Values := mput value \<lparr>vs_Weight = w',
            vs_Votes = votes_at svs value @ (if added then [vote] else [])\<rparr> (svs_Values svs),
         svs_userSet := (if added then UserSet_Add (v_Address vote) (svs_userSet svs) else svs_userSet svs),
         svs_PotentialValue := svs_PotentialValue svs @ (if newPotential then [value] else []),
         svs_MajorValue := (if enough then value else svs_MajorValue svs)\<rparr>,
     pots @ (if newPotential \<and> value \<notin> set pots then [value] else []))"
  using assms
  by (cases "mget (svs_Values svs) value"; cases added; cases newPotential; cases enough;
      cases "value \<in> set pots")
    (simp_all add: StepVoteSet_count_def Let_def at_defs StepVoteSet_hasPotentialValue_def)

lemma votes_at_mput:
  "svs_Values svs' = mput k vs (svs_Values svs) \<Longrightarrow>
     votes_at svs' x = (if x = k then vs_Votes vs else votes_at svs x)"
  by (simp add: votes_at_def)

lemma weight_at_mput:
  "svs_Values svs' = mput k vs (svs_Values svs) \<Longrightarrow>
     weight_at svs' x = (if x = k then vs_Weight vs else weight_at svs x)"
  by (simp add: weight_at_def)

text \<open>The votes, weights and voters after one counted vote.\<close>

lemma count_at:
  assumes "StepVoteSet_count vote thr svs pots = (r, svs', pots')"
  shows "votes_at svs' x = votes_at svs x @ (if x = v_Value vote \<and> ar_added r then [vote] else [])"
    and "weight_at svs' x = weight_at svs x + (if x = v_Value vote \<and> ar_added r then v_Weight vote else 0)"
    and "voters_at svs' x = voters_at svs x \<union> (if x = v_Value vote \<and> ar_added r then {v_Address vote} else {})"
    and "ar_added r \<longleftrightarrow> weight_at svs (v_Value vote) < thr"
    and "ar_enough r \<longleftrightarrow> thr \<le> weight_at svs' (v_Value vote)"
    and "svs_MajorValue svs' = (if ar_enough r then v_Value vote else svs_MajorValue svs)"
    and "ar_newPotential r \<longleftrightarrow> thr + 1 \<le> weight_at svs' (v_Value vote) * 2
      \<and> v_Value vote \<notin> set (svs_PotentialValue svs)"
    and "svs_PotentialValue svs' = svs_PotentialValue svs @ (if ar_newPotential r then [v_Value vote] else [])"
    and "svs_userSet svs' = (if ar_added r then UserSet_Add (v_Address vote) (svs_userSet svs) else svs_userSet svs)"
    and "is_map (svs_Values svs) \<Longrightarrow> is_map (svs_Values svs')"
    and "ar_err r = None"
    and "pots' = pots @ (if ar_newPotential r \<and> v_Value vote \<notin> set pots then [v_Value vote] else [])"
proof -
  let ?v = "v_Value vote"
  let ?w = "weight_at svs ?v"
  let ?w' = "if ?w < thr then ?w + v_Weight vote else ?w"
  note e = StepVoteSet_count_eq [OF refl refl refl refl refl refl, of vote thr svs pots]
  have vals: "svs_Values svs' = mput ?v \<lparr>vs_Weight = ?w',
      vs_Votes = votes_at svs ?v @ (if ?w < thr then [vote] else [])\<rparr> (svs_Values svs)"
    using assms unfolding e by auto
  show added: "ar_added r \<longleftrightarrow> weight_at svs (v_Value vote) < thr"
    using assms unfolding e by auto
  show votes: "votes_at svs' x = votes_at svs x @ (if x = v_Value vote \<and> ar_added r then [vote] else [])" for x
    by (simp add: votes_at_mput [OF vals] added)
  have weight: "weight_at svs' x = weight_at svs x + (if x = v_Value vote \<and> ar_added r then v_Weight vote else 0)" for x
    by (simp add: weight_at_mput [OF vals] added)
  show "weight_at svs' x = weight_at svs x + (if x = v_Value vote \<and> ar_added r then v_Weight vote else 0)"
    by (rule weight)
  show "voters_at svs' x = voters_at svs x \<union> (if x = v_Value vote \<and> ar_added r then {v_Address vote} else {})"
    by (auto simp: voters_at_def votes)
  have w': "weight_at svs' ?v = ?w'" by (simp add: weight added)
  show "ar_enough r \<longleftrightarrow> thr \<le> weight_at svs' (v_Value vote)"
    "ar_newPotential r \<longleftrightarrow> thr + 1 \<le> weight_at svs' (v_Value vote) * 2
      \<and> v_Value vote \<notin> set (svs_PotentialValue svs)"
    using assms unfolding e w' by auto
  show "svs_MajorValue svs' = (if ar_enough r then v_Value vote else svs_MajorValue svs)"
    "svs_PotentialValue svs' = svs_PotentialValue svs @ (if ar_newPotential r then [v_Value vote] else [])"
    "svs_userSet svs' = (if ar_added r then UserSet_Add (v_Address vote) (svs_userSet svs) else svs_userSet svs)"
    "ar_err r = None"
    "pots' = pots @ (if ar_newPotential r \<and> v_Value vote \<notin> set pots then [v_Value vote] else [])"
    using assms unfolding e by auto
  show "is_map (svs_Values svs) \<Longrightarrow> is_map (svs_Values svs')" by (simp add: vals)
qed

lemma count_no_wrap:
  assumes "svs_wf thr svs" "small_vote thr vote"
    and "StepVoteSet_count vote thr svs pots = (r, svs', pots')"
  shows "unat (weight_at svs' x) = unat (weight_at svs x) +
      (if x = v_Value vote \<and> ar_added r then unat (v_Weight vote) else 0)"
    and "unat (weight_at svs' x) < 2 ^ 63"
proof -
  have old: "unat (weight_at svs x) < 2 ^ 63" using assms(1) by (rule svs_wfD)
  have add: "ar_added r \<Longrightarrow> unat (weight_at svs (v_Value vote)) + unat (v_Weight vote) < 2 ^ 63"
    using count_at(4) [OF assms(3)] assms(2) by (auto simp: small_vote_def word_less_nat_alt)
  show eq: "unat (weight_at svs' x) = unat (weight_at svs x) +
      (if x = v_Value vote \<and> ar_added r then unat (v_Weight vote) else 0)"
    using add old by (auto simp: count_at(2) [OF assms(3)] unat_word_ariths)
  show "unat (weight_at svs' x) < 2 ^ 63"
    using old add by (auto simp: eq)
qed

lemma twice_ge_iff:
  fixes w thr :: u64
  assumes "unat w < 2 ^ 63" "unat thr < 2 ^ 63"
  shows "thr + 1 \<le> w * 2 \<longleftrightarrow> unat thr + 1 \<le> 2 * unat w"
  using assms by (simp add: word_le_nat_alt unat_word_ariths mult.commute)

lemma svs_wf_count [wf_intro]:
  assumes wf: "svs_wf thr svs" and small: "small_vote thr vote"
    and major: "svs_MajorValue svs = 0" and fresh: "v_Address vote \<notin> set (svs_userSet svs)"
    and c: "StepVoteSet_count vote thr svs pots = (r, svs', pots')"
  shows "svs_wf thr svs'"
proof -
  note at = count_at [OF c] and nw = count_no_wrap [OF wf small c] and D = svs_wfD [OF wf]
  have thr: "unat thr < 2 ^ 63" "0 < thr" using small by (auto simp: small_vote_def)
  have new: "v_Address vote \<notin> voters_at svs x" for x
    using D(7) fresh by blast
  have dist: "distinct (map v_Address (votes_at svs' x))" for x
    using D(5) [of x] new [of x] by (auto simp: at(1) voters_at_def)
  have disj: "voters_at svs' x \<inter> voters_at svs' y = {}" if "x \<noteq> y" for x y
    using D(6) [OF that] new that by (auto simp: at(3))
  have pot: "x \<in> set (svs_PotentialValue svs') \<longleftrightarrow> unat thr + 1 \<le> 2 * unat (weight_at svs' x)" for x
  proof (cases "x = v_Value vote")
    case True
    have "x \<in> set (svs_PotentialValue svs) \<Longrightarrow> unat thr + 1 \<le> 2 * unat (weight_at svs' x)"
      using D(9) [of x] nw(1) [of x] by simp
    then show ?thesis
      using True twice_ge_iff [OF nw(2) thr(1), of x] by (auto simp: at(7,8))
  next
    case False
    then show ?thesis using D(9) [of x] nw(1) [of x] by (simp add: at(8))
  qed
  have none: "x = 0" if "thr \<le> weight_at svs x" for x
    using D(11) [of x] major that by auto
  have maj: "svs_MajorValue svs' = x" if "x \<noteq> 0" "thr \<le> weight_at svs' x" for x
  proof -
    have "x = v_Value vote"
      using that none [of x] at(2) [of x] by (auto split: if_splits)
    with that show ?thesis by (simp add: at(5,6))
  qed
  have sum: "unat (weight_at svs' x) = sum_list (map (unat \<circ> v_Weight) (votes_at svs' x))" for x
    using D(3) [of x] nw(1) [of x] by (auto simp: at(1))
  have vals: "\<forall>v \<in> set (votes_at svs' x). v_Value v = x" for x
    using D(2) [of _ x] by (auto simp: at(1) split: if_splits)
  have users: "voters_at svs' x \<subseteq> set (svs_userSet svs')" for x
    using D(7) [of x] by (auto simp: at(3,9))
  have dp: "distinct (svs_PotentialValue svs')"
    using D(8) by (auto simp: at(7,8))
  have mj: "svs_MajorValue svs' \<noteq> 0 \<longrightarrow> thr \<le> weight_at svs' (svs_MajorValue svs')"
    using major by (simp add: at(5,6))
  show ?thesis
    unfolding svs_wf_def
    using at(10) [OF D(1)] vals sum nw(2) dist disj users dp pot mj maj by blast
qed

section \<open>The votes of a height as a table of steps\<close>

definition tally :: "VoteData \<Rightarrow> u64 \<Rightarrow> StepVoteSet \<Rightarrow> StepVoteSet" where
  "tally vote thr svs = fst (snd (StepVoteSet_count vote thr svs []))"

definition counts :: "StepVoteSet \<Rightarrow> VoteData \<Rightarrow> bool" where
  "counts svs vote \<longleftrightarrow> is_vote_step (v_Step vote) \<and> v_Address vote \<notin> set (svs_userSet svs)
     \<and> svs_MajorValue svs = 0"

lemma count_tally:
  "fst (StepVoteSet_count vote thr svs pots) = fst (StepVoteSet_count vote thr svs [])"
  "fst (snd (StepVoteSet_count vote thr svs pots)) = tally vote thr svs"
  unfolding tally_def StepVoteSet_count_def Let_def by simp_all

lemma step_view_empty [simp]: "step_view [] round step = NewStepVoteSet"
  by (simp add: step_view_def)

lemma step_view_bad: "\<not> is_vote_step step \<Longrightarrow> step_view hvs round step = NewStepVoteSet"
  by (auto simp: step_view_def round_view_def split: option.splits dest: getStepVoteSet_type)

text \<open>Adding a vote is a step of the abstract table: at most the vote's own entry changes.\<close>

lemma round_view_set [simp]:
  "is_vote_step step \<Longrightarrow> round_view (setStepVoteSet step svs rvs) step' = (if step' = step then svs else round_view rvs step')"
  "round_view (rvs\<lparr>rvs_potentialValues := p\<rparr>) step' = round_view rvs step'"
  by (simp_all add: round_view_def)

lemma ensure_view:
  assumes "is_vote_step step"
  obtains rvs0 where "ensureStepVoteSet rvs step = (Some (round_view rvs step), rvs0)"
    "round_view rvs0 = round_view rvs" "rvs_potentialValues rvs0 = rvs_potentialValues rvs"
proof (cases "ensureStepVoteSet rvs step")
  case (Pair o' rvs0)
  with assms obtain s where o': "o' = Some s" using ensureStepVoteSet_None by (cases o') auto
  note E = ensureStepVoteSet_Some [OF Pair [unfolded o']]
  have "s = round_view rvs step" using E(2) by (auto simp: round_view_def)
  moreover have "round_view rvs0 = round_view rvs"
    using E(2) assms by (auto simp: fun_eq_iff) (simp add: round_view_def)
  ultimately show thesis using that Pair o' E(4) by simp
qed

lemma ensure_bad: "\<not> is_vote_step step \<Longrightarrow> ensureStepVoteSet rvs step = (None, rvs)"
  using ensureStepVoteSet_None ensureStepVoteSet_Some(1) by (metis option.exhaust surj_pair)

lemma round_add_ok:
  assumes "ensureStepVoteSet rvs (v_Step vote) = (Some svs, rvs0)"
  shows "RoundVoteSet_AddVoteAndCount vote thr rvs =
    (if v_Address vote \<in> set (svs_userSet svs) then
       (\<lparr>ar_added = False, ar_newPotential = False, ar_enough = False, ar_err = Some DuplicateVote\<rparr>, rvs0)
     else if svs_MajorValue svs \<noteq> 0 then
       (\<lparr>ar_added = False, ar_newPotential = True, ar_enough = True,
         ar_err = Some (MajorValueExists (svs_MajorValue svs))\<rparr>, rvs0)
     else (fst (StepVoteSet_count vote thr svs []),
       (setStepVoteSet (v_Step vote) (tally vote thr svs) rvs0)
       \<lparr>rvs_potentialValues := snd (snd (StepVoteSet_count vote thr svs (rvs_potentialValues rvs0)))\<rparr>))"
  unfolding RoundVoteSet_AddVoteAndCount_def assms
  by (simp add: UserSet_Has_def EmptyHash_def case_prod_beta
      count_tally [of vote thr svs "rvs_potentialValues rvs0"])

lemma round_add:
  assumes "RoundVoteSet_AddVoteAndCount vote thr rvs = (r, rvs')"
  defines "svs \<equiv> round_view rvs (v_Step vote)"
  shows "round_view rvs' step =
      (if step = v_Step vote \<and> counts svs vote then tally vote thr svs else round_view rvs step)"
    and "r = (if \<not> is_vote_step (v_Step vote)
              then \<lparr>ar_added = False, ar_newPotential = False, ar_enough = False, ar_err = Some BadVoteStep\<rparr>
              else if v_Address vote \<in> set (svs_userSet svs)
              then \<lparr>ar_added = False, ar_newPotential = False, ar_enough = False, ar_err = Some DuplicateVote\<rparr>
              else if svs_MajorValue svs \<noteq> 0
              then \<lparr>ar_added = False, ar_newPotential = True, ar_enough = True,
                    ar_err = Some (MajorValueExists (svs_MajorValue svs))\<rparr>
              else fst (StepVoteSet_count vote thr svs []))"
    and "rvs_potentialValues rvs' = (if counts svs vote
           then snd (snd (StepVoteSet_count vote thr svs (rvs_potentialValues rvs)))
           else rvs_potentialValues rvs)"
proof -
  have bad: "r = \<lparr>ar_added = False, ar_newPotential = False, ar_enough = False, ar_err = Some BadVoteStep\<rparr>"
    "rvs' = rvs" "\<not> counts svs vote" if "\<not> is_vote_step (v_Step vote)"
    using assms(1) that by (simp_all add: RoundVoteSet_AddVoteAndCount_def ensure_bad counts_def)
  have ok: "\<exists>rvs0. ensureStepVoteSet rvs (v_Step vote) = (Some svs, rvs0) \<and>
      round_view rvs0 = round_view rvs \<and> rvs_potentialValues rvs0 = rvs_potentialValues rvs"
    if "is_vote_step (v_Step vote)"
    using ensure_view [OF that, of rvs] unfolding svs_def by blast
  show "round_view rvs' step =
      (if step = v_Step vote \<and> counts svs vote then tally vote thr svs else round_view rvs step)"
  proof (cases "is_vote_step (v_Step vote)")
    case True
    with ok obtain rvs0 where e: "ensureStepVoteSet rvs (v_Step vote) = (Some svs, rvs0)"
      "round_view rvs0 = round_view rvs" by blast
    from assms(1) True e(2) show ?thesis
      unfolding round_add_ok [OF e(1)] counts_def by (simp split: if_splits) auto
  qed (simp add: bad)
  show "r = (if \<not> is_vote_step (v_Step vote)
              then \<lparr>ar_added = False, ar_newPotential = False, ar_enough = False, ar_err = Some BadVoteStep\<rparr>
              else if v_Address vote \<in> set (svs_userSet svs)
              then \<lparr>ar_added = False, ar_newPotential = False, ar_enough = False, ar_err = Some DuplicateVote\<rparr>
              else if svs_MajorValue svs \<noteq> 0
              then \<lparr>ar_added = False, ar_newPotential = True, ar_enough = True,
                    ar_err = Some (MajorValueExists (svs_MajorValue svs))\<rparr>
              else fst (StepVoteSet_count vote thr svs []))"
  proof (cases "is_vote_step (v_Step vote)")
    case True
    with ok obtain rvs0 where e: "ensureStepVoteSet rvs (v_Step vote) = (Some svs, rvs0)" by blast
    from assms(1) True show ?thesis unfolding round_add_ok [OF e] by (simp split: if_splits)
  qed (simp add: bad)
  show "rvs_potentialValues rvs' = (if counts svs vote
           then snd (snd (StepVoteSet_count vote thr svs (rvs_potentialValues rvs)))
           else rvs_potentialValues rvs)"
  proof (cases "is_vote_step (v_Step vote)")
    case True
    with ok obtain rvs0 where e: "ensureStepVoteSet rvs (v_Step vote) = (Some svs, rvs0)"
      "rvs_potentialValues rvs0 = rvs_potentialValues rvs" by blast
    from assms(1) True e(2) show ?thesis
      unfolding round_add_ok [OF e(1)] counts_def by (auto split: if_splits)
  qed (simp add: bad)
qed

lemma round_view_New [simp]: "round_view NewRoundVoteSet step = NewStepVoteSet"
  by (simp add: round_view_def getStepVoteSet_New)

lemma potentials_New [simp]: "rvs_potentialValues NewRoundVoteSet = []"
  by (simp add: NewRoundVoteSet_def)

lemma ensure_round:
  assumes "EnsureRoundVoteSet hvs round = (rvs, hvs')"
  shows "round_view rvs step = step_view hvs round step"
    and "x \<noteq> round \<Longrightarrow> mget hvs' x = mget hvs x"
    and "rvs_potentialValues rvs = (case mget hvs round of None \<Rightarrow> [] | Some rvs \<Rightarrow> rvs_potentialValues rvs)"
  using assms by (auto simp: EnsureRoundVoteSet_def step_view_def split: option.splits)

lemma height_add:
  assumes "AddVoteAndCount vote thr hvs = (r, hvs')"
  defines "svs \<equiv> step_view hvs (v_Round vote) (v_Step vote)"
  shows "step_view hvs' round step =
      (if round = v_Round vote \<and> step = v_Step vote \<and> counts svs vote then tally vote thr svs
       else step_view hvs round step)"
    and "r = (if \<not> is_vote_step (v_Step vote)
              then \<lparr>ar_added = False, ar_newPotential = False, ar_enough = False, ar_err = Some BadVoteStep\<rparr>
              else if v_Address vote \<in> set (svs_userSet svs)
              then \<lparr>ar_added = False, ar_newPotential = False, ar_enough = False, ar_err = Some DuplicateVote\<rparr>
              else if svs_MajorValue svs \<noteq> 0
              then \<lparr>ar_added = False, ar_newPotential = True, ar_enough = True,
                    ar_err = Some (MajorValueExists (svs_MajorValue svs))\<rparr>
              else fst (StepVoteSet_count vote thr svs []))"
proof -
  obtain rvs hvs0 where e: "EnsureRoundVoteSet hvs (v_Round vote) = (rvs, hvs0)" by force
  obtain r' rvs' where add: "RoundVoteSet_AddVoteAndCount vote thr rvs = (r', rvs')" by force
  have r: "r' = r" "hvs' = mput (v_Round vote) rvs' hvs0"
    using assms(1) by (simp_all add: AddVoteAndCount_def e add)
  note R = round_add [OF add, unfolded ensure_round(1) [OF e], folded svs_def]
  show "step_view hvs' round step =
      (if round = v_Round vote \<and> step = v_Step vote \<and> counts svs vote then tally vote thr svs
       else step_view hvs round step)"
    using R(1) [of step] ensure_round(2) [OF e]
    by (cases "round = v_Round vote") (auto simp: step_view_def r)
  show "r = (if \<not> is_vote_step (v_Step vote)
              then \<lparr>ar_added = False, ar_newPotential = False, ar_enough = False, ar_err = Some BadVoteStep\<rparr>
              else if v_Address vote \<in> set (svs_userSet svs)
              then \<lparr>ar_added = False, ar_newPotential = False, ar_enough = False, ar_err = Some DuplicateVote\<rparr>
              else if svs_MajorValue svs \<noteq> 0
              then \<lparr>ar_added = False, ar_newPotential = True, ar_enough = True,
                    ar_err = Some (MajorValueExists (svs_MajorValue svs))\<rparr>
              else fst (StepVoteSet_count vote thr svs []))"
    using R(2) unfolding r .
qed

lemma tally_at:
  fixes vote thr svs
  defines "r \<equiv> fst (StepVoteSet_count vote thr svs [])"
  shows "votes_at (tally vote thr svs) x = votes_at svs x @ (if x = v_Value vote \<and> ar_added r then [vote] else [])"
    and "ar_added r \<longleftrightarrow> weight_at svs (v_Value vote) < thr"
    and "ar_enough r \<longleftrightarrow> thr \<le> weight_at (tally vote thr svs) (v_Value vote)"
    and "svs_MajorValue (tally vote thr svs) = (if ar_enough r then v_Value vote else svs_MajorValue svs)"
    and "svs_userSet (tally vote thr svs) =
      (if ar_added r then UserSet_Add (v_Address vote) (svs_userSet svs) else svs_userSet svs)"
    and "svs_PotentialValue (tally vote thr svs) =
      svs_PotentialValue svs @ (if ar_newPotential r then [v_Value vote] else [])"
proof -
  obtain pots' where c: "StepVoteSet_count vote thr svs [] = (r, tally vote thr svs, pots')"
    unfolding r_def tally_def by (metis prod.collapse)
  show "votes_at (tally vote thr svs) x = votes_at svs x @ (if x = v_Value vote \<and> ar_added r then [vote] else [])"
    "ar_added r \<longleftrightarrow> weight_at svs (v_Value vote) < thr"
    "ar_enough r \<longleftrightarrow> thr \<le> weight_at (tally vote thr svs) (v_Value vote)"
    "svs_MajorValue (tally vote thr svs) = (if ar_enough r then v_Value vote else svs_MajorValue svs)"
    "svs_userSet (tally vote thr svs) =
      (if ar_added r then UserSet_Add (v_Address vote) (svs_userSet svs) else svs_userSet svs)"
    "svs_PotentialValue (tally vote thr svs) =
      svs_PotentialValue svs @ (if ar_newPotential r then [v_Value vote] else [])"
    using count_at [OF c] by simp_all
qed

lemma svs_wf_tally [wf_intro]:
  assumes "svs_wf thr svs" "small_vote thr vote" "counts svs vote"
  shows "svs_wf thr (tally vote thr svs)"
proof -
  obtain r pots' where "StepVoteSet_count vote thr svs [] = (r, tally vote thr svs, pots')"
    unfolding tally_def by (metis prod.collapse)
  then show ?thesis using assms svs_wf_count [of thr svs vote "[]"] by (simp add: counts_def)
qed

section \<open>Runs of the counter\<close>

text \<open>
  \<^verbatim>\<open>handleVote\<close> passes the threshold of the vote's step.  A height's votes are counted one after
  the other, from the empty set of \<^verbatim>\<open>NewHeightVoteSet\<close>.
\<close>

definition threshold_of :: "u64 \<Rightarrow> u32 \<Rightarrow> u64" where
  "threshold_of height step = fst (GetCommitteeNumber height step)"

definition count_vote :: "u64 \<Rightarrow> HeightVoteSet \<Rightarrow> VoteData \<Rightarrow> HeightVoteSet" where
  "count_vote height hvs vote = snd (AddVoteAndCount vote (threshold_of height (v_Step vote)) hvs)"

definition count_result :: "u64 \<Rightarrow> HeightVoteSet \<Rightarrow> VoteData \<Rightarrow> add_result" where
  "count_result height hvs vote = fst (AddVoteAndCount vote (threshold_of height (v_Step vote)) hvs)"

definition light_vote :: "VoteData \<Rightarrow> bool" where
  "light_vote vote \<longleftrightarrow> v_Weight vote < 2 ^ 62"

definition hvs_wf :: "u64 \<Rightarrow> HeightVoteSet \<Rightarrow> bool" where
  "hvs_wf height hvs \<longleftrightarrow>
     (\<forall>round step. svs_wf (threshold_of height step) (step_view hvs round step)) \<and>
     (\<forall>round step x. \<forall>v \<in> set (votes_at (step_view hvs round step) x). v_Round v = round \<and> v_Step v = step)"

lemma threshold_bounds: "0 < threshold_of height step" "unat (threshold_of height step) < 2 ^ 32"
  by (simp_all add: threshold_of_def GetCommitteeNumber_def CommitteeConfigv1_def)

lemma light_small: "light_vote vote \<Longrightarrow> small_vote (threshold_of height step) vote"
  using threshold_bounds [of height step] by (simp add: light_vote_def small_vote_def word_less_nat_alt)

lemmas height_step = height_add [OF prod.collapse [symmetric]]

lemma hvs_wf_New: "hvs_wf height NewHeightVoteSet"
  by (simp add: hvs_wf_def NewHeightVoteSet_def threshold_bounds)
    (simp add: NewStepVoteSet_def votes_at_def)

lemma count_vote_view:
  "step_view (count_vote height hvs vote) round step =
    (if round = v_Round vote \<and> step = v_Step vote \<and> counts (step_view hvs round step) vote
     then tally vote (threshold_of height step) (step_view hvs round step)
     else step_view hvs round step)"
  by (auto simp: count_vote_def height_step(1))

lemma hvs_wf_count_vote [wf_intro]:
  assumes "hvs_wf height hvs" "light_vote vote"
  shows "hvs_wf height (count_vote height hvs vote)"
  using assms svs_wf_tally light_small
  by (auto simp: hvs_wf_def count_vote_view tally_at(1) split: if_splits)

interpretation height_votes: event_machine
  "\<lambda>hvs. hvs = NewHeightVoteSet" "count_vote height" light_vote "hvs_wf height" for height
  by unfold_locales (auto intro: hvs_wf_New wf_intro)

text \<open>
  What the state machine relies on: a round and step that has decided stays decided for the same
  value, and accepts no further vote.
\<close>

locale quorum_tally =
  fixes count :: "'s \<Rightarrow> 'v \<Rightarrow> 's"
    and accepts :: "'s \<Rightarrow> 'v \<Rightarrow> bool"
    and key :: "'v \<Rightarrow> 'k"
    and decided :: "'s \<Rightarrow> 'k \<Rightarrow> 'x :: zero"
  assumes decided_step: "decided s k \<noteq> 0 \<Longrightarrow> decided (count s v) k = decided s k"
    and decided_closed: "decided s (key v) \<noteq> 0 \<Longrightarrow> \<not> accepts s v"
begin

lemma decided_run: "decided s k \<noteq> 0 \<Longrightarrow> decided (foldl count s vs) k = decided s k"
  by (induction vs arbitrary: s) (simp_all add: decided_step)

lemma closed_run: "decided s (key v) \<noteq> 0 \<Longrightarrow> \<not> accepts (foldl count s vs) v"
  using decided_run [of s "key v" vs] by (intro decided_closed) simp

lemma at_most_once:
  assumes "decided (count s v) (key v) \<noteq> 0" and "key v' = key v"
  shows "\<not> accepts (foldl count (count s v) vs) v'"
  using closed_run [of "count s v" v'] assms by simp

end

lemma count_result_eq:
  "ar_added (count_result height hvs vote) \<longleftrightarrow>
     counts (step_view hvs (v_Round vote) (v_Step vote)) vote \<and>
     weight_at (step_view hvs (v_Round vote) (v_Step vote)) (v_Value vote) < threshold_of height (v_Step vote)"
  by (auto simp: count_result_def height_step(2) counts_def tally_at(2))

interpretation vote_tally: quorum_tally "count_vote height"
  "\<lambda>hvs vote. ar_added (count_result height hvs vote)" "\<lambda>vote. (v_Round vote, v_Step vote)"
  "\<lambda>hvs (round, step). major_of hvs round step" for height
  by unfold_locales (auto simp: major_of_def count_vote_view count_result_eq counts_def split: if_splits)

section \<open>What a node's count promises\<close>

abbreviation counted :: "u64 \<Rightarrow> VoteData list \<Rightarrow> HeightVoteSet" where
  "counted height votes \<equiv> foldl (count_vote height) NewHeightVoteSet votes"

lemma counted_wf: "\<forall>v \<in> set votes. light_vote v \<Longrightarrow> hvs_wf height (counted height votes)"
  by (rule height_votes.run_inv) simp_all

lemma counted_step_wf:
  "\<forall>v \<in> set votes. light_vote v \<Longrightarrow> svs_wf (threshold_of height step) (step_view (counted height votes) round step)"
  using counted_wf [of votes height] by (simp add: hvs_wf_def)

text \<open>Only votes that were received are stored, under their own round, step and value.\<close>

lemma stored_received:
  "v \<in> set (votes_at (step_view (counted height votes) round step) x) \<Longrightarrow> v \<in> set votes"
proof (induction votes rule: rev_induct)
  case Nil
  then show ?case by (simp add: NewHeightVoteSet_def NewStepVoteSet_def votes_at_def)
next
  case (snoc vote votes)
  then show ?case by (auto simp: count_vote_view tally_at(1) split: if_splits)
qed

lemma stored_vote:
  assumes "\<forall>v \<in> set votes. light_vote v"
    and "v \<in> set (votes_at (step_view (counted height votes) round step) x)"
  shows "v \<in> set votes \<and> v_Round v = round \<and> v_Step v = step \<and> v_Value v = x"
  using counted_wf [OF assms(1), of height] stored_received [OF assms(2)] assms(2)
    svs_wfD(2) [OF counted_step_wf [OF assms(1)] assms(2)]
  by (auto simp: hvs_wf_def)

text \<open>The weight a value has reached is the weight of the addresses that voted for it.\<close>

lemma weight_of_voters:
  assumes "svs_wf thr svs" and "\<And>v. v \<in> set (votes_at svs x) \<Longrightarrow> unat (v_Weight v) = w (v_Address v)"
  shows "unat (weight_at svs x) = sum w (voters_at svs x)"
  unfolding svs_wfD(3) [OF assms(1)] voters_at_def
  using svs_wfD(5) [OF assms(1)] assms(2) by (intro sum_list_distinct_keys) simp_all

lemma major_weight:
  assumes "\<forall>v \<in> set votes. light_vote v"
    and "\<forall>v \<in> set votes. v_Round v = round \<longrightarrow> v_Step v = step \<longrightarrow> unat (v_Weight v) = w (v_Address v)"
    and "major_of (counted height votes) round step = x" "x \<noteq> 0"
  shows "unat (threshold_of height step) \<le> sum w (voters_at (step_view (counted height votes) round step) x)"
proof -
  let ?svs = "step_view (counted height votes) round step"
  have "unat (weight_at ?svs x) = sum w (voters_at ?svs x)"
    using assms(2) stored_vote [OF assms(1)]
    by (intro weight_of_voters [OF counted_step_wf [OF assms(1)]]) blast
  moreover have "threshold_of height step \<le> weight_at ?svs x"
    using svs_wfD(10) [OF counted_step_wf [OF assms(1)], of height round step] assms(3,4)
    by (simp add: major_of_def)
  ultimately show ?thesis by (simp add: word_le_nat_alt)
qed

text \<open>
  C8. After counting any votes of bounded weight, in any order and with repetitions, the vote set of every
  round and step is well-formed: votes are filed under their own round, step and value, the
  64-bit weight of a value is the exact sum of its voters' weights, nobody is counted twice in a
  step, a value is potential exactly when it has more than half of the threshold, and a non-zero
  value is the major value exactly when it has reached the threshold.
\<close>

theorem votes_well_formed:
  assumes "\<forall>v \<in> set votes. light_vote v"
  shows "hvs_wf height (foldl (count_vote height) NewHeightVoteSet votes)"
  by (rule counted_wf) (rule assms)

text \<open>
  C5. Quorum intersection.  Two nodes count votes for the same height, in their own order and with
  their own losses; every address has the same sortition weight at both.  If they decide a round
  and step for different values, then the addresses that voted for both values carry at least
  the weight by which two thresholds exceed the whole committee.
\<close>

theorem quorum_intersection:
  fixes w :: "address \<Rightarrow> nat"
  assumes "\<forall>v \<in> set (votes1 @ votes2). light_vote v"
    and "\<forall>v \<in> set (votes1 @ votes2). v_Round v = round \<longrightarrow> v_Step v = step \<longrightarrow>
           v_Address v \<in> U \<and> unat (v_Weight v) = w (v_Address v)"
    and "finite U"
    and "major_of (foldl (count_vote height) NewHeightVoteSet votes1) round step = x"
    and "major_of (foldl (count_vote height) NewHeightVoteSet votes2) round step = y"
    and "x \<noteq> 0" "y \<noteq> 0" "x \<noteq> y"
  shows "2 * unat (threshold_of height step) \<le> sum w U +
    sum w {a. \<exists>v \<in> set votes1. \<exists>v' \<in> set votes2. v_Address v = a \<and> v_Address v' = a \<and>
              v_Round v = round \<and> v_Round v' = round \<and> v_Step v = step \<and> v_Step v' = step \<and>
              v_Value v = x \<and> v_Value v' = y}"
    (is "_ \<le> _ + sum w ?E")
proof -
  let ?A = "voters_at (step_view (counted height votes1) round step) x"
  let ?B = "voters_at (step_view (counted height votes2) round step) y"
  have l: "\<forall>v \<in> set votes1. light_vote v" "\<forall>v \<in> set votes2. light_vote v" using assms(1) by auto
  note s1 = stored_vote [OF l(1), of _ height round step x] and s2 = stored_vote [OF l(2), of _ height round step y]
  have A: "unat (threshold_of height step) \<le> sum w ?A"
    using assms by (intro major_weight) auto
  have B: "unat (threshold_of height step) \<le> sum w ?B"
    using assms by (intro major_weight) auto
  have "?A \<subseteq> U" "?B \<subseteq> U" using s1 s2 assms(2) by (auto simp: voters_at_def)
  then have "sum w ?A + sum w ?B \<le> sum w U + sum w (?A \<inter> ?B)"
    by (rule inclusion_exclusion_bound [OF assms(3)])
  moreover have "sum w (?A \<inter> ?B) \<le> sum w ?E"
  proof (rule sum_mono2)
    have "?E \<subseteq> v_Address ` set votes1" by auto
    then show "finite ?E" by (rule finite_subset) simp
    show "?A \<inter> ?B \<subseteq> ?E"
    proof
      fix a assume "a \<in> ?A \<inter> ?B"
      then obtain v v' where "v \<in> set (votes_at (step_view (counted height votes1) round step) x)"
        "v' \<in> set (votes_at (step_view (counted height votes2) round step) y)"
        "a = v_Address v" "a = v_Address v'" by (auto simp: voters_at_def)
      with s1 [of v] s2 [of v'] show "a \<in> ?E" by auto
    qed
  qed simp
  ultimately show ?thesis using A B by linarith
qed

text \<open>
  C9. A decision is final and is reported once: when a vote for a non-zero value is added and
  completes the quorum of its round and step, then after any further votes the major value of that
  round and step is still this value, and no vote of that round and step is added any more.
\<close>

theorem decision_final:
  assumes "ar_added (count_result height hvs vote)" and "ar_enough (count_result height hvs vote)"
    and "v_Value vote \<noteq> 0"
    and "v_Round vote' = v_Round vote" and "v_Step vote' = v_Step vote"
  shows "major_of (foldl (count_vote height) (count_vote height hvs vote) votes) (v_Round vote) (v_Step vote)
      = v_Value vote
    \<and> \<not> ar_added (count_result height (foldl (count_vote height) (count_vote height hvs vote) votes) vote')"
proof -
  let ?svs = "step_view hvs (v_Round vote) (v_Step vote)"
  have c: "counts ?svs vote" using assms(1) by (simp add: count_result_eq)
  then have "count_result height hvs vote = fst (StepVoteSet_count vote (threshold_of height (v_Step vote)) ?svs [])"
    by (simp add: count_result_def height_step(2) counts_def)
  with assms(2) have "svs_MajorValue (tally vote (threshold_of height (v_Step vote)) ?svs) = v_Value vote"
    by (simp add: tally_at(4))
  with c have m: "major_of (count_vote height hvs vote) (v_Round vote) (v_Step vote) = v_Value vote"
    by (simp add: major_of_def count_vote_view)
  then show ?thesis
    using vote_tally.decided_run [of "count_vote height hvs vote" "(v_Round vote, v_Step vote)" height votes]
      vote_tally.at_most_once [of height hvs vote vote' votes] assms(3-5)
    by simp
qed

section \<open>Potential values\<close>

lemma sum_disjoint_bound:
  fixes w :: "'a \<Rightarrow> nat"
  assumes "distinct xs" "finite U" "\<And>x. x \<in> set xs \<Longrightarrow> V x \<subseteq> U"
    "\<And>x y. x \<in> set xs \<Longrightarrow> y \<in> set xs \<Longrightarrow> x \<noteq> y \<Longrightarrow> V x \<inter> V y = {}"
  shows "(\<Sum>x\<leftarrow>xs. sum w (V x)) \<le> sum w U"
proof -
  have fin: "\<forall>x \<in> set xs. finite (V x)" using assms(2,3) finite_subset by blast
  have "(\<Sum>x\<leftarrow>xs. sum w (V x)) = (\<Sum>x \<in> set xs. sum w (V x))"
    by (rule sum_list_distinct_conv_sum_set [OF assms(1)])
  also have "\<dots> = sum w (\<Union> (V ` set xs))"
    using fin assms(4) by (intro sum.UNION_disjoint [symmetric]) auto
  also have "\<dots> \<le> sum w U" using assms(2,3) by (intro sum_mono2) auto
  finally show ?thesis .
qed

lemma sum_list_lower: "(\<And>x. x \<in> set xs \<Longrightarrow> c \<le> f x) \<Longrightarrow> length xs * c \<le> (\<Sum>x\<leftarrow>xs. f x)" for c :: nat
  by (induction xs) (auto simp: add_mono)

text \<open>
  The number of potential values of a step is bounded by the weight of its committee, not by a
  constant: each of them needs more than half of the threshold, so \<open>n\<close> of them need
  \<open>n * (threshold + 1)\<close> half votes.  With a soft committee of the expected weight 2990 that is
  at most 2.
\<close>

theorem potential_values_bounded:
  fixes w :: "address \<Rightarrow> nat"
  assumes "\<forall>v \<in> set votes. light_vote v" and "finite U"
    and "\<forall>v \<in> set votes. v_Round v = round \<longrightarrow> v_Step v = step \<longrightarrow>
           v_Address v \<in> U \<and> unat (v_Weight v) = w (v_Address v)"
  shows "length (svs_PotentialValue (step_view (foldl (count_vote height) NewHeightVoteSet votes) round step))
      * (unat (threshold_of height step) + 1) \<le> 2 * sum w U"
proof -
  let ?svs = "step_view (counted height votes) round step"
  note wf = counted_step_wf [OF assms(1), of height step round]
  have weight: "unat (weight_at ?svs x) = sum w (voters_at ?svs x)" for x
    using assms(3) stored_vote [OF assms(1)] by (intro weight_of_voters [OF wf]) blast
  have "length (svs_PotentialValue ?svs) * (unat (threshold_of height step) + 1)
      \<le> (\<Sum>x\<leftarrow>svs_PotentialValue ?svs. 2 * sum w (voters_at ?svs x))"
    using svs_wfD(9) [OF wf] weight by (intro sum_list_lower) simp
  also have "\<dots> = 2 * (\<Sum>x\<leftarrow>svs_PotentialValue ?svs. sum w (voters_at ?svs x))"
    by (simp add: sum_list_const_mult)
  also have "(\<Sum>x\<leftarrow>svs_PotentialValue ?svs. sum w (voters_at ?svs x)) \<le> sum w U"
  proof (rule sum_disjoint_bound)
    show "distinct (svs_PotentialValue ?svs)" by (rule svs_wfD(8) [OF wf])
    show "voters_at ?svs x \<subseteq> U" for x
      using stored_vote [OF assms(1), of _ height round step x] assms(3) by (auto simp: voters_at_def)
    show "voters_at ?svs x \<inter> voters_at ?svs y = {}" if "x \<noteq> y" for x y
      by (rule svs_wfD(6) [OF wf that])
  qed (rule assms(2))
  finally show ?thesis by simp
qed

section \<open>Choosing a vote for a peer\<close>

definition missing :: "StepVoteSet option \<Rightarrow> VoteData \<Rightarrow> bool" where
  "missing other v \<longleftrightarrow> (case other of None \<Rightarrow> True | Some o' \<Rightarrow> v_Address v \<notin> set (svs_userSet o'))"

lemma appendNotIn_filter:
  "appendNotIn tmp votes (map_option svs_userSet other) = tmp @ filter (missing other) votes"
  unfolding appendNotIn_def
  by (induction votes arbitrary: tmp) (auto simp: missing_def UserSet_Has_def split: option.splits)

lemma foldl_appendNotIn:
  "foldl (\<lambda>tmp (v, self). tmp @ filter P (vs_Votes self)) tmp vals
    = tmp @ filter P (concat (map (vs_Votes \<circ> snd) vals))"
  by (induction vals arbitrary: tmp) auto

lemma collect_potential_eq:
  "\<forall>v \<in> set vs. votes_of svs v \<noteq> None \<Longrightarrow>
    collect_potential svs (map_option svs_userSet other) tmp vs =
      Some (tmp @ filter (missing other) (concat (map (votes_at svs) vs)))"
  by (induction vs arbitrary: tmp)
    (auto simp: appendNotIn_filter votes_of_def votes_at_def split: option.splits)

lemma RandomSelect_cases:
  assumes "\<forall>n > 0. intn n < n"
  shows "RandomSelect intn xs = None \<longleftrightarrow> xs = []"
    and "RandomSelect intn xs = Some v \<Longrightarrow> v \<in> set xs"
  using assms by (auto simp: RandomSelect_def split: if_splits)

lemma all_votes_at:
  assumes "is_map (svs_Values svs)"
  shows "set (all_votes svs) = (\<Union>x. set (votes_at svs x))"
proof -
  have "(x, vs) \<in> set (svs_Values svs) \<longleftrightarrow> mget (svs_Values svs) x = Some vs" for x vs
    using assms by (rule is_map_mget)
  then show ?thesis
    by (auto simp: all_votes_def votes_at_def split: option.splits) (metis snd_conv)+
qed

lemma weight_has_votes: "weight_at svs x \<noteq> 0 \<Longrightarrow> votes_of svs x = Some (votes_at svs x)"
  by (auto simp: weight_at_def votes_of_def votes_at_def split: option.splits)

lemma wf_votes_of:
  assumes "svs_wf thr svs" "0 < thr"
  shows "svs_MajorValue svs \<noteq> 0 \<Longrightarrow> votes_of svs (svs_MajorValue svs) = Some (votes_at svs (svs_MajorValue svs))"
    and "x \<in> set (svs_PotentialValue svs) \<Longrightarrow> votes_of svs x = Some (votes_at svs x)"
  using svs_wfD(9,10) [OF assms(1)] assms(2)
  by (auto intro!: weight_has_votes)

lemma RandomNotIn_spec:
  fixes other :: "StepVoteSet option"
  assumes wf: "svs_wf thr svs" "0 < thr"
    and intn: "\<forall>n > 0. intn n < n" and ord: "\<forall>m. set (ord m) = set m"
  defines "major \<equiv> if svs_MajorValue svs = 0 then [] else filter (missing other) (votes_at svs (svs_MajorValue svs))"
    and "pot \<equiv> filter (missing other) (concat (map (votes_at svs) (svs_PotentialValue svs)))"
  obtains others where "set others = {v \<in> set (all_votes svs). missing other v}"
    "RandomNotIn intn ord svs other =
       Some (RandomSelect intn (if major \<noteq> [] then major else if pot \<noteq> [] then pot else others))"
proof
  let ?others = "filter (missing other) (concat (map (vs_Votes \<circ> snd) (ord (svs_Values svs))))"
  show "set ?others = {v \<in> set (all_votes svs). missing other v}"
    by (auto simp: all_votes_def ord)
  show "RandomNotIn intn ord svs other =
       Some (RandomSelect intn (if major \<noteq> [] then major else if pot \<noteq> [] then pot else ?others))"
  proof (cases "svs_Values svs = []")
    case True
    then have "\<forall>x. votes_at svs x = []" "ord [] = []"
      using ord by (simp_all add: votes_at_def) (metis set_empty)
    with True show ?thesis by (simp add: RandomNotIn_def RandomSelect_def major_def pot_def)
  next
    case False
    have "collect_potential svs (map_option svs_userSet other) [] (svs_PotentialValue svs) = Some pot"
      using wf_votes_of(2) [OF wf] by (simp add: collect_potential_eq pot_def)
    with False show ?thesis
      by (simp add: RandomNotIn_def wf_votes_of(1) [OF wf] appendNotIn_filter foldl_appendNotIn EmptyHash_def major_def)
  qed
qed

text \<open>
  C13. The choice of a vote for a peer never dereferences a missing entry, only offers a stored vote
  whose voter the peer is not known to have, prefers votes for the decided value, and offers
  nothing exactly when the peer has a vote of every voter.  This holds for every vote set that
  counting produces, every result of the random generator and every iteration order of the map.
\<close>

theorem RandomNotIn_correct:
  assumes "\<forall>v \<in> set votes. light_vote v"
    and "\<forall>n > 0. intn n < n" and "\<forall>m. set (ord m) = set m"
    and "svs = step_view (foldl (count_vote height) NewHeightVoteSet votes) round step"
  shows "\<exists>res. RandomNotIn intn ord svs other = Some res
    \<and> (\<forall>v. res = Some v \<longrightarrow> v \<in> set (all_votes svs) \<and> missing other v)
    \<and> (res = None \<longleftrightarrow> (\<forall>v \<in> set (all_votes svs). \<not> missing other v))
    \<and> (svs_MajorValue svs \<noteq> 0 \<longrightarrow> (\<exists>v \<in> set (votes_at svs (svs_MajorValue svs)). missing other v)
        \<longrightarrow> (\<exists>v. res = Some v \<and> v_Value v = svs_MajorValue svs))"
proof -
  have wf: "svs_wf (threshold_of height step) svs"
    using counted_step_wf [OF assms(1)] assms(4) by simp
  define major where "major = (if svs_MajorValue svs = 0 then []
    else filter (missing other) (votes_at svs (svs_MajorValue svs)))"
  define pot where "pot = filter (missing other) (concat (map (votes_at svs) (svs_PotentialValue svs)))"
  obtain others where o: "set others = {v \<in> set (all_votes svs). missing other v}"
    and r: "RandomNotIn intn ord svs other =
       Some (RandomSelect intn (if major \<noteq> [] then major else if pot \<noteq> [] then pot else others))"
    using RandomNotIn_spec [where intn = intn and ord = ord and other = other, OF wf threshold_bounds(1) assms(2,3)]
    unfolding major_def pot_def by blast
  let ?xs = "if major \<noteq> [] then major else if pot \<noteq> [] then pot else others"
  have sub: "set major \<subseteq> set others" "set pot \<subseteq> set others"
    by (auto simp: major_def pot_def o all_votes_at [OF svs_wfD(1) [OF wf]])
  note sel = RandomSelect_cases [of intn ?xs, OF assms(2)]
  have "?xs = [] \<longleftrightarrow> others = []" using sub by auto
  then have 1: "RandomSelect intn ?xs = None \<longleftrightarrow> (\<forall>v \<in> set (all_votes svs). \<not> missing other v)"
    using o unfolding sel(1) by (metis (no_types, lifting) Collect_empty_eq set_empty)
  have 2: "v \<in> set (all_votes svs) \<and> missing other v" if "RandomSelect intn ?xs = Some v" for v
    using sel(2) [OF that] sub o by (auto split: if_splits)
  have 3: "\<exists>v. RandomSelect intn ?xs = Some v \<and> v_Value v = svs_MajorValue svs"
    if "svs_MajorValue svs \<noteq> 0" "\<exists>v \<in> set (votes_at svs (svs_MajorValue svs)). missing other v"
  proof -
    from that have ne: "major \<noteq> []" by (auto simp: major_def filter_empty_conv)
    then obtain v where v: "RandomSelect intn major = Some v" by (auto simp: RandomSelect_def)
    then have "v \<in> set major" by (rule RandomSelect_cases(2) [OF assms(2)])
    with that(1) svs_wfD(2) [OF wf] have "v_Value v = svs_MajorValue svs" by (simp add: major_def)
    with v ne show ?thesis by simp
  qed
  show ?thesis
    unfolding r using 1 2 3 by blast
qed

section \<open>Bookkeeping of the voters a peer knows\<close>

lemma HasVote_view: "HasVote hvs round step user \<longleftrightarrow> user \<in> set (svs_userSet (step_view hvs round step))"
  by (auto simp: HasVote_def HeightVoteSet_RoundVoteSet_def RoundVoteSet_HasVote_def step_view_def
      round_view_def UserSet_Has_def NewStepVoteSet_def split: option.splits)

lemma round_SetHasVote:
  "round_view (RoundVoteSet_SetHasVote step user rvs) step' =
    (if step' = step \<and> is_vote_step step
     then (round_view rvs step)\<lparr>svs_userSet := UserSet_Add user (svs_userSet (round_view rvs step))\<rparr>
     else round_view rvs step')"
proof (cases "is_vote_step step")
  case True
  then obtain rvs0 where "ensureStepVoteSet rvs step = (Some (round_view rvs step), rvs0)"
    "round_view rvs0 = round_view rvs" by (rule ensure_view)
  with True show ?thesis by (simp add: RoundVoteSet_SetHasVote_def)
qed (simp add: RoundVoteSet_SetHasVote_def ensure_bad)

text \<open>
  Recording that a peer has a vote is an insertion into a set of (round, step, voter) triples:
  afterwards exactly the recorded voter is known in addition, in that round and step only, and a
  step in which nobody votes records nothing.
\<close>

theorem SetHasVote_HasVote:
  "HasVote (SetHasVote round step user hvs) round' step' user' \<longleftrightarrow>
     HasVote hvs round' step' user'
     \<or> is_vote_step step \<and> round' = round \<and> step' = step \<and> user' = user"
proof -
  obtain rvs hvs0 where e: "EnsureRoundVoteSet hvs round = (rvs, hvs0)" by force
  have s: "SetHasVote round step user hvs = mput round (RoundVoteSet_SetHasVote step user rvs) hvs0"
    by (simp add: SetHasVote_def e)
  have "step_view (SetHasVote round step user hvs) round' step' =
      (if round' = round then round_view (RoundVoteSet_SetHasVote step user rvs) step'
       else step_view hvs round' step')"
    using ensure_round(2) [OF e] by (simp add: s step_view_def)
  then show ?thesis
    using ensure_round(1) [OF e]
    by (auto simp: HasVote_view round_SetHasVote UserSet_Add_def UserSet_Has_def)
qed

section \<open>The potential values of a round\<close>

definition round_potentials :: "HeightVoteSet \<Rightarrow> u32 \<Rightarrow> hash list" where
  "round_potentials hvs round = (case mget hvs round of None \<Rightarrow> [] | Some rvs \<Rightarrow> rvs_potentialValues rvs)"

lemma count_potentials:
  "set (snd (snd (StepVoteSet_count vote thr svs pots)))
    = set pots \<union> set (svs_PotentialValue (tally vote thr svs))"
  if "set (svs_PotentialValue svs) \<subseteq> set pots"
proof -
  obtain r svs' pots' where c: "StepVoteSet_count vote thr svs pots = (r, svs', pots')" by (metis prod.collapse)
  then have "svs' = tally vote thr svs" using count_tally(2) [of vote thr svs pots] by simp
  with count_at(8,12) [OF c] c that show ?thesis by auto
qed

lemma round_potentials_count:
  "round_potentials (count_vote height hvs vote) round =
    (if round = v_Round vote \<and> counts (step_view hvs round (v_Step vote)) vote
     then snd (snd (StepVoteSet_count vote (threshold_of height (v_Step vote))
            (step_view hvs round (v_Step vote)) (round_potentials hvs round)))
     else round_potentials hvs round)"
proof -
  let ?thr = "threshold_of height (v_Step vote)"
  obtain rvs hvs0 where e: "EnsureRoundVoteSet hvs (v_Round vote) = (rvs, hvs0)" by force
  obtain r rvs' where add: "RoundVoteSet_AddVoteAndCount vote ?thr rvs = (r, rvs')" by force
  have "count_vote height hvs vote = mput (v_Round vote) rvs' hvs0"
    by (simp add: count_vote_def AddVoteAndCount_def e add)
  then show ?thesis
    using round_add(3) [OF add] ensure_round [OF e] by (auto simp: round_potentials_def)
qed

lemma ex_updated_entry:
  "P k \<subseteq> T \<Longrightarrow> (\<exists>i. x \<in> (if i = k then T else P i)) \<longleftrightarrow> x \<in> T \<or> (\<exists>i. x \<in> P i)"
  by (auto split: if_splits)

lemma round_potentials_run:
  "x \<in> set (round_potentials (counted height votes) round) \<longleftrightarrow>
     (\<exists>step. x \<in> set (svs_PotentialValue (step_view (counted height votes) round step)))"
proof (induction votes arbitrary: x rule: rev_induct)
  case Nil
  then show ?case by (simp add: round_potentials_def NewHeightVoteSet_def NewStepVoteSet_def)
next
  case (snoc vote votes)
  let ?h = "counted height votes" and ?st = "v_Step vote"
  let ?svs = "step_view ?h round ?st"
  show ?case
  proof (cases "round = v_Round vote \<and> counts ?svs vote")
    case False
    then have "step_view (count_vote height ?h vote) round = step_view ?h round"
      by (auto simp: fun_eq_iff count_vote_view)
    with False snoc show ?thesis by (auto simp: round_potentials_count)
  next
    case True
    have sub: "set (svs_PotentialValue ?svs) \<subseteq> set (round_potentials ?h round)" using snoc by blast
    have mono: "set (svs_PotentialValue ?svs) \<subseteq> set (svs_PotentialValue (tally vote (threshold_of height ?st) ?svs))"
      by (simp add: tally_at(6))
    have "set (round_potentials (count_vote height ?h vote) round)
        = set (round_potentials ?h round) \<union> set (svs_PotentialValue (tally vote (threshold_of height ?st) ?svs))"
      using count_potentials [OF sub, of vote "threshold_of height ?st"] True
      by (auto simp: round_potentials_count)
    moreover have "set (svs_PotentialValue (step_view (count_vote height ?h vote) round step)) =
        (if step = ?st then set (svs_PotentialValue (tally vote (threshold_of height ?st) ?svs))
         else set (svs_PotentialValue (step_view ?h round step)))" for step
      using True by (auto simp: count_vote_view)
    moreover have "x \<in> set (round_potentials ?h round) \<longleftrightarrow>
        (\<exists>step. x \<in> set (svs_PotentialValue (step_view ?h round step)))" by (rule snoc)
    ultimately show ?thesis
      using ex_updated_entry [where P = "\<lambda>i. set (svs_PotentialValue (step_view ?h round i))" and k = ?st and x = x,
          OF mono] by auto
  qed
qed

text \<open>
  The list of potential values a round keeps for the gossip and for the second finishing step is
  exact: a value is in it precisely when it is potential in some step of that round.
\<close>

theorem IsPotentialValue_exact:
  "IsPotentialValue (foldl (count_vote height) NewHeightVoteSet votes) round x \<longleftrightarrow>
     (\<exists>step. x \<in> set (svs_PotentialValue
        (step_view (foldl (count_vote height) NewHeightVoteSet votes) round step)))"
  unfolding round_potentials_run [symmetric]
  by (simp add: IsPotentialValue_def HeightVoteSet_RoundVoteSet_def RoundVoteSet_hasPotentialValue_def
      round_potentials_def split: option.splits)

section \<open>The search over all rounds\<close>

lemma soft_search_panics:
  assumes "\<forall>i rvs. mget m i = Some rvs \<longrightarrow> GetSoftMajorValue rvs = 0 \<or> GetSoftMajorValue rvs = e"
    and "\<exists>r \<in> set rounds. mget m (unat r) = None"
  shows "soft_search m e rounds = None"
  using assms(2)
proof (induction rounds)
  case (Cons r rounds)
  then show ?case
    using assms(1) by (cases "mget m (unat r)") (auto simp: EmptyHash_def Let_def)
qed simp

lemma round_beyond_count:
  fixes xs :: "u32 list"
  assumes "distinct xs" "xs \<noteq> []" "0 \<notin> set xs"
  shows "\<exists>x \<in> set xs. length xs \<le> unat x"
proof (rule ccontr)
  assume "\<not> ?thesis"
  then have "unat ` set xs \<subseteq> {1..<length xs}"
    using assms(3) by (auto simp: not_le Suc_le_eq unat_gt_0)
  then have "card (unat ` set xs) \<le> length xs - 1"
    using card_mono [of "{1..<length xs}"] by force
  moreover have "card (unat ` set xs) = length xs"
    using assms(1) by (subst card_image) (auto simp: inj_on_def distinct_card word_unat_eq_iff)
  ultimately show False using assms(2) by (cases xs) auto
qed

text \<open>
  C16. \<^verbatim>\<open>IsSoftVoteEnoughForNonEmptyForAnyRound\<close> keys its table by position and looks it up by round
  number: on a height with at least one round, none of them decided, it dereferences nil.
\<close>

theorem any_round_search_panics:
  assumes "is_map hvs" and "hvs \<noteq> []" and "BadRound \<notin> set (map fst hvs)"
    and "\<forall>(round, rvs) \<in> set hvs. GetSoftMajorValue rvs = 0 \<or> GetSoftMajorValue rvs = emptyValue"
  shows "IsSoftVoteEnoughForNonEmptyForAnyRound hvs emptyValue = None"
proof -
  let ?m = "zip [0..<length hvs] (map snd hvs)"
  obtain r where r: "r \<in> set (map fst hvs)" "length hvs \<le> unat r"
    using round_beyond_count [of "map fst hvs"] assms(1-3) by (auto simp: is_map_def BadRound_def)
  have "mget ?m (unat r) = None"
    using r(2) by (auto simp: map_of_eq_None_iff set_zip)
  moreover have "\<forall>i rvs. mget ?m i = Some rvs \<longrightarrow> GetSoftMajorValue rvs = 0 \<or> GetSoftMajorValue rvs = emptyValue"
  proof (intro allI impI)
    fix i rvs assume "mget ?m i = Some rvs"
    then have "rvs \<in> set (map snd hvs)" by (rule set_zip_rightD [OF map_of_SomeD])
    with assms(4) show "GetSoftMajorValue rvs = 0 \<or> GetSoftMajorValue rvs = emptyValue" by auto
  qed
  ultimately show ?thesis
    using r(1) unfolding IsSoftVoteEnoughForNonEmptyForAnyRound_def Let_def
    by (intro soft_search_panics) (auto intro!: bexI [of _ r])
qed

section \<open>Witnesses\<close>

text \<open>Votes of the certifying step, whose threshold is 1112.\<close>

definition sample_vote :: "address \<Rightarrow> hash \<Rightarrow> u64 \<Rightarrow> VoteData" where
  "sample_vote user x weight =
     \<lparr>v_Value = x,
      v_ESignValue = zero_signature,
      v_Credential = \<lparr>cr_Address = user, cr_Height = 7, cr_Round = 1, cr_Step = RoundStep3Certifying,
                      cr_Proof = 0, cr_Weight = weight\<rparr>\<rparr>"

lemma sample_vote_simps [simp]:
  "v_Value (sample_vote a x n) = x" "v_Address (sample_vote a x n) = a" "v_Round (sample_vote a x n) = 1"
  "v_Step (sample_vote a x n) = RoundStep3Certifying" "v_Weight (sample_vote a x n) = n"
  "light_vote (sample_vote a x n) \<longleftrightarrow> n < 2 ^ 62"
  by (simp_all add: sample_vote_def light_vote_def)

lemma sample_major:
  "major_of (counted 7 [sample_vote 1 5 1112]) 1 RoundStep3Certifying = 5"
  "major_of (counted 7 [sample_vote 1 6 1112]) 1 RoundStep3Certifying = 6"
  by code_simp+

theorem votes_well_formed_witness:
  "hvs_wf 7 (foldl (count_vote 7) NewHeightVoteSet [sample_vote 1 5 600, sample_vote 1 6 600, sample_vote 2 5 600])"
  using votes_well_formed [of "[sample_vote 1 5 600, sample_vote 1 6 600, sample_vote 2 5 600]" 7] by simp

theorem quorum_intersection_witness:
  "2 * unat (threshold_of 7 RoundStep3Certifying) \<le> 1112 + (1112 :: nat)"
proof -
  have "{a. \<exists>v \<in> set [sample_vote 1 5 1112]. \<exists>v' \<in> set [sample_vote 1 6 1112].
          v_Address v = a \<and> v_Address v' = a \<and> v_Round v = 1 \<and> v_Round v' = 1 \<and>
          v_Step v = RoundStep3Certifying \<and> v_Step v' = RoundStep3Certifying \<and>
          v_Value v = 5 \<and> v_Value v' = 6} = {1 :: address}" by auto
  with quorum_intersection [of "[sample_vote 1 5 1112]" "[sample_vote 1 6 1112]" 1 RoundStep3Certifying
      "{1}" "\<lambda>_. 1112" 7 5 6] sample_major
  show ?thesis by simp
qed

theorem decision_final_witness:
  "major_of (foldl (count_vote 7) (count_vote 7 NewHeightVoteSet (sample_vote 1 5 1112))
      [sample_vote 2 6 1112]) 1 RoundStep3Certifying = 5
   \<and> \<not> ar_added (count_result 7 (foldl (count_vote 7) (count_vote 7 NewHeightVoteSet (sample_vote 1 5 1112))
      [sample_vote 2 6 1112]) (sample_vote 3 6 1112))"
proof -
  have "ar_added (count_result 7 NewHeightVoteSet (sample_vote 1 5 1112))"
    "ar_enough (count_result 7 NewHeightVoteSet (sample_vote 1 5 1112))" by code_simp+
  from decision_final [OF this, of "sample_vote 3 6 1112" "[sample_vote 2 6 1112]"] show ?thesis by simp
qed

theorem potential_values_bounded_witness:
  "length (svs_PotentialValue (step_view (foldl (count_vote 7) NewHeightVoteSet
      [sample_vote 1 5 600, sample_vote 2 6 600]) 1 RoundStep3Certifying))
    * (unat (threshold_of 7 RoundStep3Certifying) + 1) \<le> 2 * 1200"
proof -
  have "(\<Sum>a \<in> {1, 2 :: address}. 600) = (1200 :: nat)" by simp
  with potential_values_bounded [of "[sample_vote 1 5 600, sample_vote 2 6 600]" "{1, 2}" 1
      RoundStep3Certifying "\<lambda>_. 600" 7]
  show ?thesis by simp
qed

theorem RandomNotIn_correct_witness:
  "\<exists>v. RandomNotIn (\<lambda>n. 0) id
     (step_view (foldl (count_vote 7) NewHeightVoteSet [sample_vote 1 5 1112]) 1 RoundStep3Certifying)
     None = Some (Some v) \<and> v_Value v = 5"
proof -
  let ?svs = "step_view (foldl (count_vote 7) NewHeightVoteSet [sample_vote 1 5 1112]) 1 RoundStep3Certifying"
  have m: "svs_MajorValue ?svs = 5" by code_simp
  have "votes_at ?svs 5 = [sample_vote 1 5 1112]" by code_simp
  then have "\<exists>v \<in> set (votes_at ?svs (svs_MajorValue ?svs)). missing None v"
    unfolding m by (simp add: missing_def)
  with m RandomNotIn_correct [of "[sample_vote 1 5 1112]" "\<lambda>n. 0" id ?svs 7 1 RoundStep3Certifying None]
  show ?thesis by auto
qed

theorem any_round_search_panics_witness:
  "IsSoftVoteEnoughForNonEmptyForAnyRound [(1, NewRoundVoteSet)] 9 = None"
  using any_round_search_panics [of "[(1, NewRoundVoteSet)]" 9]
  by (simp add: is_map_def BadRound_def GetSoftMajorValue_def NewRoundVoteSet_def NewStepVoteSet_def)

end
