(* ===== verification/Consensus_Context.thy ===== *)
theory Consensus_Context
  imports Block_Building Ticker Vote_Counting "HOL-Library.Monad_Syntax"
begin

text \<open>
  The context of the consensus state machine (\<^verbatim>\<open>consensus/algorand/core/context.go\<close>) and the verifier
  of proposed blocks (\<^verbatim>\<open>consensus/algorand/core/verifier.go\<close>): the state of a height, its caches of
  leaders, blocks and verification results, what the node sends, its timers, its sortition and the
  blocks it builds and inserts.  The states that drive it are in \<open>State_Machine\<close>.
\<close>

section \<open>Messages and effects\<close>

text \<open>
  A message with its code.  \<^verbatim>\<open>HandshakeMsg\<close> never reaches the state machine, and \<^verbatim>\<open>TimeoutMsg\<close> is used in
  the journal only.
\<close>

datatype msg =
  StatusMsg StatusData | ProposalLeaderMsg ProposalLeaderData | ProposalBlockMsg ProposalBlockData
| VoteMsg VoteData | HasVoteMsg HasVoteData | HasProposalLeaderMsg HasProposalData | HasProposalBlockMsg HasProposalData

type_synonym message = "msg \<times> string"

definition fromMe :: string where "fromMe = ''me''"

definition msgChanSize :: nat where "msgChanSize = 4096"

text \<open>
  What the machine does to its surroundings is logged: the messages it sends to itself, the timeouts
  it schedules, the calls of the broadcaster and of the block chain.
\<close>

datatype effect =
  SelfMsg msg | Schedule TimeoutInfo | Sub bytes u64 | UnSub bytes | Publish bytes msg | RequestBlock bytes hash
| InsertChain Block | WriteBlock Block | PostMined Block | PostChainEvents Block bool
| UpdateMortgage u64 MortgageContractCounter

section \<open>Surroundings\<close>

text \<open>
  The parameters of a node that do not change, and the answers of the rest of the node while one event
  is handled: the chain and its states, the EVM, the pending transactions, the clock, the proofs of
  stake entries, and the results of inserting a block (whether the head has changed).  \<open>bk_stopped\<close> says
  whether mining has been stopped while transactions were selected.
\<close>

record env =
  en_crypto :: crypto
  en_binomial :: binomial
  en_config :: ChainConfig
  en_gasFloor :: u64
  en_gasCeil :: u64
  en_signer :: sender

record backend =
  bk_chain :: chain
  bk_executor :: executor
  bk_StateAt :: "hash \<Rightarrow> StateDB option"
  bk_GetBlock :: "hash \<Rightarrow> u64 \<Rightarrow> Block option"
  bk_GetHeaderByNumber :: "u64 \<Rightarrow> Header option"
  bk_CurrentBlock :: Block
  bk_Pending :: "(address, Transaction list) gomap option"
  bk_now :: u64
  bk_quit :: "nat \<Rightarrow> bool"
  bk_stopped :: bool
  bk_BuildProof :: "StateDB \<Rightarrow> hash \<Rightarrow> u64 \<Rightarrow> address \<Rightarrow> CertVoteStorage list \<Rightarrow> bytes list option"
  bk_InsertChain :: "Block \<Rightarrow> engine_error option"
  bk_WriteBlock :: "Block \<Rightarrow> Receipt list \<Rightarrow> StateDB \<Rightarrow> engine_error + bool"

section \<open>State\<close>

datatype verify_error = BodyInvalid engine_error | StateMissing | ProcessFailed tx_error | StateInvalid engine_error

record blockState =
  bs_err :: "verify_error option"
  bs_statedb :: "tracked option"
  bs_receipts :: "Receipt list"
  bs_counter :: MortgageContractCounter

record StateBase =
  sb_weight :: u64
  sb_hash :: vrf_output
  sb_proof :: vrf_proof

definition zeroBase :: StateBase where "zeroBase = \<lparr>sb_weight = 0, sb_hash = 0, sb_proof = 0\<rparr>"

datatype State =
  StateNewHeight Block
| StateProposal StateBase u32 hash
| StateFiltering StateBase
| StateCertifying StateBase hash
| StateFirstFinishing StateBase
| StateSecondFinishing StateBase hash

text \<open>
  \<open>c_out\<close> is the log of effects.  A running verification has a channel of capacity one, whose content
  is the list in \<open>c_verifing\<close>.  \<open>c_parent\<close> and the fields derived from it are set when a height is
  entered and read only afterwards.  \<open>c_journals\<close> are the journal files by height and \<open>c_journal\<close> the
  current one.  \<^verbatim>\<open>header\<close> is a local variable of \<^verbatim>\<open>NewBlock\<close> in effect, and the start time is only logged.
\<close>

datatype journal_entry = JournalMsg msg string | JournalTimeout TimeoutInfo

record Context =
  c_extra :: bytes
  c_mining :: bool
  c_recover :: bool
  c_mkm :: MinerKeyManager
  c_currentMiner :: address
  c_nextMiner :: address
  c_state :: "State option"
  c_parent :: Block
  c_parentStatedb :: StateDB
  c_parentRoundVoteSet :: "RoundVoteSet option"
  c_parentCertVoteRound :: u32
  c_parentProposalBlockData :: "ProposalBlockData option"
  c_Height :: u64
  c_Round :: u32
  c_Step :: u32
  c_EmptyValue :: hash
  c_StartingValue :: hash
  c_counter :: HeightVoteSet
  c_ProposalLeader :: "(u32, ProposalLeaderData) gomap"
  c_ReceivedProposalBlock :: "(hash, ProposalBlockData) gomap"
  c_verifing :: "(hash, blockState list) gomap"
  c_verified :: "(hash, blockState) gomap"
  c_WaitingBlockForValue :: hash
  c_WaitingBlockForRound :: u32
  c_statedb :: "tracked option"
  c_receipts :: "Receipt list"
  c_mortgageContractCounter :: MortgageContractCounter
  c_newBlock :: "Block option"
  c_msgChan :: "message list"
  c_broadcastMsgCh :: "message list"
  c_journals :: "(u64, journal_entry list) gomap"
  c_journal :: "u64 option"
  c_out :: "effect list"

abbreviation emit :: "effect \<Rightarrow> Context \<Rightarrow> Context" where
  "emit e c \<equiv> c\<lparr>c_out := c_out c @ [e]\<rparr>"

abbreviation c_Seed :: "Context \<Rightarrow> vrf_output" where "c_Seed c \<equiv> Seed (b_header (c_parent c))"
abbreviation c_Total :: "Context \<Rightarrow> int" where "c_Total c \<equiv> h_TotalBalanceOfMiners (b_header (c_parent c))"

section \<open>Sending\<close>

text \<open>A send on a full channel drops the message.\<close>

definition sendToMessageChan :: "message \<Rightarrow> message list \<Rightarrow> message list" where
  "sendToMessageChan m ch = (if length ch < msgChanSize then ch @ [m] else ch)"

definition OnReceive :: "msg \<Rightarrow> string \<Rightarrow> Context \<Rightarrow> Context" where
  "OnReceive m from c = c\<lparr>c_msgChan := sendToMessageChan (m, from) (c_msgChan c)\<rparr>"

definition sendToSelf :: "msg \<Rightarrow> Context \<Rightarrow> Context" where
  "sendToSelf m c = emit (SelfMsg m) (c\<lparr>c_msgChan := sendToMessageChan (m, fromMe) (c_msgChan c)\<rparr>)"

definition broadcastMsg :: "msg \<Rightarrow> Context \<Rightarrow> Context" where
  "broadcastMsg m c =
     (if c_recover c then c else c\<lparr>c_broadcastMsgCh := sendToMessageChan (m, fromMe) (c_broadcastMsgCh c)\<rparr>)"

definition makeChanId :: "u64 \<Rightarrow> u32 \<Rightarrow> bytes" where
  "makeChanId height round' = word_bytes 8 height @ word_bytes 4 round'"

section \<open>Timers\<close>

definition increaseFromRound :: u32 where "increaseFromRound = 3"
definition increaseFromStep :: u32 where "increaseFromStep = 8"

text \<open>\<^verbatim>\<open>math.Pow\<close> of two is exact or infinite, and is cut at 30.\<close>

definition timer_factor :: "u32 \<Rightarrow> u32 \<Rightarrow> u64" where
  "timer_factor round' step =
     (let factor = 1;
          factor = (if increaseFromRound \<le> round'
                    then factor * of_nat (min 30 (2 ^ unat (round' - increaseFromRound + 1))) else factor)
      in if increaseFromStep \<le> step then
           (let s = ucast ((step - increaseFromStep) div 2 + 1) in factor * (if 10 < s then 10 else s))
         else factor)"

definition startTimer :: "env \<Rightarrow> Context \<Rightarrow> Context" where
  "startTimer en c =
     (let ti = \<lparr>ti_Duration = TimeoutTwoLambdaDuration (cc_Algorand (en_config en)) * timer_factor (c_Round c) (c_Step c),
                ti_Height = c_Height c, ti_Round = c_Round c, ti_Step = c_Step c\<rparr>;
          c = (case c_state c of
                 Some (StateProposal _ _ _) \<Rightarrow> emit (Sub (makeChanId (c_Height c) (c_Round c)) (ti_Duration ti * 2)) c
               | _ \<Rightarrow> c)
      in emit (Schedule ti) c)"

definition clearTimer :: "Context \<Rightarrow> Context" where
  "clearTimer c =
     (case c_state c of
        Some (StateCertifying _ _) \<Rightarrow> emit (UnSub (makeChanId (c_Height c) (c_Round c))) c
      | _ \<Rightarrow> c)"

section \<open>Leaders, blocks and verification results\<close>

definition getProposalLeader :: "u32 \<Rightarrow> Context \<Rightarrow> ProposalLeaderData option" where
  "getProposalLeader round' c = (if round' = BadRound then None else mget (c_ProposalLeader c) round')"

definition GetProposalLeader :: "u64 \<Rightarrow> u32 \<Rightarrow> Context \<Rightarrow> ProposalLeaderData option" where
  "GetProposalLeader height round' c =
     (if c_Height c \<noteq> height \<or> round' = BadRound then None else mget (c_ProposalLeader c) round')"

definition UpdateProposalLeader :: "ProposalLeaderData \<Rightarrow> Context \<Rightarrow> Context" where
  "UpdateProposalLeader value' c = c\<lparr>c_ProposalLeader := mput (pl_Round value') value' (c_ProposalLeader c)\<rparr>"

definition getProposalBlock :: "hash \<Rightarrow> Context \<Rightarrow> ProposalBlockData option" where
  "getProposalBlock value' c = mget (c_ReceivedProposalBlock c) value'"

definition GetProposalBlock :: "u64 \<Rightarrow> hash \<Rightarrow> Context \<Rightarrow> ProposalBlockData option" where
  "GetProposalBlock height value' c = (if c_Height c \<noteq> height then None else mget (c_ReceivedProposalBlock c) value')"

definition SaveProposalBlock :: "crypto \<Rightarrow> ProposalBlockData \<Rightarrow> Context \<Rightarrow> Context" where
  "SaveProposalBlock cr data c =
     c\<lparr>c_ReceivedProposalBlock := mput (Block_Hash cr (pb_Block data)) data (c_ReceivedProposalBlock c)\<rparr>"

definition dropProposalBlock :: "crypto \<Rightarrow> Block \<Rightarrow> Context \<Rightarrow> Context" where
  "dropProposalBlock cr block c = c\<lparr>c_ReceivedProposalBlock := mdel (Block_Hash cr block) (c_ReceivedProposalBlock c)\<rparr>"

definition saveVerifiedBlockState :: "hash \<Rightarrow> blockState \<Rightarrow> Context \<Rightarrow> Context" where
  "saveVerifiedBlockState value' cache c = c\<lparr>c_verified := mput value' cache (c_verified c)\<rparr>"

definition getVerifiedBlockState :: "hash \<Rightarrow> Context \<Rightarrow> blockState option" where
  "getVerifiedBlockState value' c = mget (c_verified c) value'"

definition isNextVoteEnoughForEmpty :: "u32 \<Rightarrow> Context \<Rightarrow> bool" where
  "isNextVoteEnoughForEmpty round' c = IsNextVoteEnoughForEmptyAtAnyStep (c_counter c) round' (c_EmptyValue c)"

definition GetParentRoundVoteSet :: "u64 \<Rightarrow> Context \<Rightarrow> RoundVoteSet option \<times> u32" where
  "GetParentRoundVoteSet height c =
     (if c_Height c - 1 \<noteq> height then (None, BadRound) else (c_parentRoundVoteSet c, c_parentCertVoteRound c))"

definition GetParentProposalBlockData :: "u64 \<Rightarrow> Context \<Rightarrow> ProposalBlockData option" where
  "GetParentProposalBlockData height c = (if c_Height c - 1 \<noteq> height then None else c_parentProposalBlockData c)"

definition Context_RoundVoteSet :: "u64 \<Rightarrow> u32 \<Rightarrow> Context \<Rightarrow> RoundVoteSet option" where
  "Context_RoundVoteSet height round' c =
     (if c_Height c \<noteq> height then None else HeightVoteSet_RoundVoteSet (c_counter c) round')"

section \<open>Verification of proposed blocks\<close>

text \<open>
  The worker's result; a missing parent is a nil dereference.  The worker reads only the block and the
  state of its parent, so it is run when it is started and its result waits in its channel.
\<close>

definition verifyBlockWorker :: "env \<Rightarrow> backend \<Rightarrow> Block \<Rightarrow> blockState option" where
  "verifyBlockWorker en bk block =
     (let failed = (\<lambda>err. \<lparr>bs_err = Some err, bs_statedb = None, bs_receipts = [], bs_counter = []\<rparr>);
          body = ValidateBody (bk_chain bk) (en_crypto en) block
      in if body \<noteq> None \<and> body \<noteq> Some ErrKnownBlock then Some (failed (BodyInvalid (the body)))
         else case bk_GetBlock bk (h_ParentHash (b_header block)) (Block_Number block - 1) of
                None \<Rightarrow> None
              | Some parent \<Rightarrow>
                  (case bk_StateAt bk (h_Root (b_header parent)) of
                     None \<Rightarrow> Some (failed StateMissing)
                   | Some statedb \<Rightarrow> do {
                       ts \<leftarrow> EnableMinerTracker (cc_Algorand (en_config en)) (Block_Number block)
                               (h_TotalBalanceOfMiners (b_header parent)) (None, statedb);
                       result \<leftarrow> Process (bk_chain bk) (en_crypto en) (en_config en) (bk_executor bk) block ts;
                       (case result of
                          Inl err \<Rightarrow> Some (failed (ProcessFailed err))
                        | Inr (receipts, usedGas, counter, ts) \<Rightarrow> do {
                            (err, ts) \<leftarrow> ValidateState (bk_chain bk) (en_crypto en) (en_config en) block ts receipts usedGas;
                            (case err of
                               Some err \<Rightarrow> Some (failed (StateInvalid err))
                             | None \<Rightarrow> Some \<lparr>bs_err = None, bs_statedb = Some ts, bs_receipts = receipts, bs_counter = counter\<rparr>)
                          })
                     }))"

definition verifyBlockAsync :: "env \<Rightarrow> backend \<Rightarrow> Block \<Rightarrow> Context \<Rightarrow> Context option" where
  "verifyBlockAsync en bk block c =
     (let key = Block_Hash (en_crypto en) block
      in if mget (c_verified c) key \<noteq> None \<or> mget (c_verifing c) key \<noteq> None then Some c
         else map_option (\<lambda>result. c\<lparr>c_verifing := mput key [result] (c_verifing c)\<rparr>) (verifyBlockWorker en bk block))"

text \<open>The result is received from the worker's channel; an empty channel blocks the machine for ever.\<close>

definition verifyBlockSync :: "env \<Rightarrow> backend \<Rightarrow> Block \<Rightarrow> Context \<Rightarrow> (verify_error option \<times> Context) option" where
  "verifyBlockSync en bk block c =
     (let key = Block_Hash (en_crypto en) block
      in case mget (c_verified c) key of
           Some result \<Rightarrow> Some (bs_err result, c)
         | None \<Rightarrow> do {
             c \<leftarrow> verifyBlockAsync en bk block c;
             (case mget (c_verifing c) key of
                Some (result # rest) \<Rightarrow>
                  let c = saveVerifiedBlockState key result (c\<lparr>c_verifing := mput key rest (c_verifing c)\<rparr>);
                      c = (if bs_err result \<noteq> None then dropProposalBlock (en_crypto en) block c else c)
                  in Some (bs_err result, c)
              | _ \<Rightarrow> None)
           })"

definition isSoftVoteEnoughForNonEmptyValueWhoseBlockIsReceivedAndValid ::
    "env \<Rightarrow> backend \<Rightarrow> u32 \<Rightarrow> Context \<Rightarrow> ((bool \<times> hash) \<times> Context) option" where
  "isSoftVoteEnoughForNonEmptyValueWhoseBlockIsReceivedAndValid en bk round' c =
     (let (exists', nonEmptyValue) = IsSoftVoteEnoughForNonEmpty (c_counter c) (c_EmptyValue c) round'
      in if exists' then
           (case getProposalBlock nonEmptyValue c of
              None \<Rightarrow> Some ((False, 0), c)
            | Some block \<Rightarrow> do {
                (err, c) \<leftarrow> verifyBlockSync en bk (pb_Block block) c;
                Some (if err = None then (True, nonEmptyValue) else (False, 0), c)
              })
         else Some ((False, 0), c))"

section \<open>The parent\<close>

definition resetParentRoundVoteSet :: "Context \<Rightarrow> Context option" where
  "resetParentRoundVoteSet c =
     (let parent = c_parent c; certificate = Block_Certificate parent
      in if Block_Number parent = 0 then Some c
         else map_option (\<lambda>rvs. c\<lparr>c_parentRoundVoteSet := Some rvs, c_parentCertVoteRound := ct_Round certificate\<rparr>)
                (NewRoundVoteSetFromCertificates
                   (map (\<lambda>certVote. NewVoteDataFromCertVoteStorage certVote (Block_Number parent) (ct_Round certificate)
                          (ct_Value certificate)) (ct_CertVoteSet certificate))
                   (fst (GetCommitteeNumber (Block_Number parent) RoundStep3Certifying))))"

definition resetParentProposalBlockData :: "env \<Rightarrow> backend \<Rightarrow> Context \<Rightarrow> Context option" where
  "resetParentProposalBlockData en bk c =
     (let parent = c_parent c
      in if Block_Number parent = 0 then Some c
         else map_option (\<lambda>weight. c\<lparr>c_parentProposalBlockData :=
                  Some (NewProposalBlockDataFromProposalStorage (ct_Proposal (Block_Certificate parent)) parent weight)\<rparr>)
                (GetSortitionWeight (en_crypto en) (en_binomial en) (cc_Algorand (en_config en)) (bk_GetHeaderByNumber bk)
                   (bk_StateAt bk) (Block_Number parent) (Header_Proof (b_header parent)) (Proposer (b_header parent))))"

section \<open>Sortition, proposals and votes\<close>

text \<open>After an error of the key or of the sortition the weight is zero and nothing else is read.\<close>

definition Context_sortition :: "env \<Rightarrow> Context \<Rightarrow> (StateBase \<times> Context) option" where
  "Context_sortition en c =
     (if \<not> c_mining c then Some (zeroBase, c)
      else let (key, mkm) = GetMinerKey (c_currentMiner c) (c_Height c) (c_mkm c); c = c\<lparr>c_mkm := mkm\<rparr>
           in case key of
                Inl _ \<Rightarrow> Some (zeroBase, c)
              | Inr mk \<Rightarrow>
                  (case MinerKey_Sortition (en_crypto en) (en_binomial en) mk (c_Height c) (c_Round c) (c_Step c)
                          (c_Seed c) (c_parentStatedb c) (c_Total c) of
                     None \<Rightarrow> None
                   | Some (Inl _) \<Rightarrow> Some (zeroBase, c)
                   | Some (Inr (h, proof, j)) \<Rightarrow> Some (\<lparr>sb_weight = j, sb_hash = h, sb_proof = proof\<rparr>, c)))"

definition own_credential :: "u32 \<Rightarrow> StateBase \<Rightarrow> Context \<Rightarrow> Credential" where
  "own_credential step sb c =
     \<lparr>cr_Address = c_currentMiner c, cr_Height = c_Height c, cr_Round = c_Round c, cr_Step = step,
      cr_Proof = sb_proof sb, cr_Weight = sb_weight sb\<rparr>"

definition sendProposal :: "env \<Rightarrow> hash \<Rightarrow> StateBase \<Rightarrow> Context \<Rightarrow> Context option" where
  "sendProposal en value' sb c =
     (if c_recover c then Some c
      else let (key, mkm) = GetMinerKey (c_currentMiner c) (c_Height c) (c_mkm c); c = c\<lparr>c_mkm := mkm\<rparr>
           in case key of
                Inl _ \<Rightarrow> Some c
              | Inr mk \<Rightarrow>
                  let credential = own_credential RoundStep1Proposal sb c
                  in case MinerKey_Sign (en_crypto en) mk (c_Height c) (word_bytes 32 value') of
                       None \<Rightarrow> None
                     | Some (Inl _) \<Rightarrow> Some c
                     | Some (Inr sig) \<Rightarrow>
                         let leader = ProposalLeaderMsg \<lparr>pl_Value = value', pl_ESignValue = sig, pl_Credential = credential\<rparr>;
                             c = broadcastMsg leader (sendToSelf leader c)
                         in (case c_newBlock c of
                               None \<Rightarrow> Some c
                             | Some b \<Rightarrow>
                                 if value' = Block_Hash (en_crypto en) b then
                                   let m = ProposalBlockMsg \<lparr>pb_Block = b, pb_ESignValue = sig, pb_Credential = credential\<rparr>
                                   in Some (emit (Publish (makeChanId (c_Height c) (c_Round c)) m) (sendToSelf m c))
                                 else Some c))"

text \<open>A vote whose type does not match the step panics.\<close>

definition sendVote :: "env \<Rightarrow> u32 \<Rightarrow> hash \<Rightarrow> StateBase \<Rightarrow> Context \<Rightarrow> Context option" where
  "sendVote en voteType value' sb c =
     (if c_recover c then Some c
      else if voteType \<noteq> VoteTypeOfStep (c_Step c) then None
      else let (key, mkm) = GetMinerKey (c_currentMiner c) (c_Height c) (c_mkm c); c = c\<lparr>c_mkm := mkm\<rparr>
           in case key of
                Inl _ \<Rightarrow> Some c
              | Inr mk \<Rightarrow>
                  (case MinerKey_Sign (en_crypto en) mk (c_Height c) (word_bytes 32 value') of
                     None \<Rightarrow> None
                   | Some (Inl _) \<Rightarrow> Some c
                   | Some (Inr sig) \<Rightarrow>
                       let vote = VoteMsg \<lparr>v_Value = value', v_ESignValue = sig,
                                           v_Credential = own_credential (c_Step c) sb c\<rparr>
                       in Some (broadcastMsg vote (sendToSelf vote c))))"

section \<open>Building a block\<close>

text \<open>
  The header of a new block before its transactions.  The time is the clock's, or one second after the
  parent; the machine sleeps when that is in the future.
\<close>

definition new_header :: "env \<Rightarrow> backend \<Rightarrow> MinerVerifier \<Rightarrow> Context \<Rightarrow> Header" where
  "new_header en bk mv c =
     (let parent = b_header (c_parent c)
      in SetVersion ConsensusVersion
         \<lparr>h_ParentHash = Header_Hash (en_crypto en) parent, h_UncleHash = 0, h_Coinbase = mv_coinbase mv, h_Root = 0,
          h_TxHash = 0, h_ReceiptHash = 0, h_Bloom = 0, h_Difficulty = 0, h_Number = h_Number parent + 1,
          h_GasLimit = CalcGasLimit parent (en_gasFloor en) (en_gasCeil en), h_GasUsed = 0,
          h_Time = (if bk_now bk \<le> h_Time parent then h_Time parent + 1 else bk_now bk), h_Extra = c_extra c,
          h_MixDigest = 0, h_Nonce = 0, h_TotalBalanceOfMiners = 0, h_Certificate = emptyCertificate\<rparr>)"

text \<open>The state with the tracker of the miners enabled, the selection of transactions and the block.\<close>

definition select_and_finalize ::
    "env \<Rightarrow> backend \<Rightarrow> Header \<Rightarrow> StateDB \<Rightarrow> Context \<Rightarrow> (engine_error option \<times> Context) option" where
  "select_and_finalize en bk header statedb c = do {
     ts \<leftarrow> EnableMinerTracker (cc_Algorand (en_config en)) (NumberU64 header) (c_Total c) (None, statedb);
     let c = c\<lparr>c_statedb := Some ts\<rparr>;
     (case bk_Pending bk of
        None \<Rightarrow> Some (Some ProcessError, c)
      | Some pending \<Rightarrow> do {
          txs \<leftarrow> NewTransactionsByPriceAndNonce (en_signer en) pending;
          sel \<leftarrow> commitTransactions (bk_quit bk) (en_signer en) (bk_chain bk) (en_crypto en) (en_config en) (bk_executor bk)
                   txs ts header;
          let c = c\<lparr>c_statedb := Some (sel_state sel)\<rparr>;
          (if bk_stopped bk \<or> \<not> c_mining c then Some (Some errStopped, c)
           else do {
             (block, ts) \<leftarrow> Algorand_Finalize (bk_chain bk) (en_crypto en) (en_config en) (sel_header sel) (sel_state sel)
                              (sel_txs sel) [] (sel_receipts sel);
             Some (None, c\<lparr>c_statedb := Some ts, c_newBlock := Some block, c_receipts := sel_receipts sel,
                           c_mortgageContractCounter := sel_counter sel\<rparr>)
           })
        })
   }"

definition NewBlock :: "env \<Rightarrow> backend \<Rightarrow> Context \<Rightarrow> (engine_error option \<times> Context) option" where
  "NewBlock en bk c =
     (let c = c\<lparr>c_statedb := None, c_receipts := [], c_mortgageContractCounter := [], c_newBlock := None\<rparr>;
          parent = b_header (c_parent c); cr = en_crypto en
      in case bk_StateAt bk (h_Root parent) of
           None \<Rightarrow> Some (Some StateUnavailable, c)
         | Some statedb \<Rightarrow>
             let height = of_int (h_Number parent + 1);
                 mv = GetMinerVerifier cr (cc_Algorand (en_config en)) (c_parentStatedb c) (c_currentMiner c) height;
                 header = new_header en bk mv c;
                 (key, mkm) = GetMinerKey (c_currentMiner c) height (c_mkm c);
                 c = c\<lparr>c_mkm := mkm\<rparr>
             in (case key of
                   Inl _ \<Rightarrow> Some (Some NoMinerKey, c)
                 | Inr mk \<Rightarrow>
                     (case MinerKey_Seed cr mk height (Seed parent) (Header_Hash cr parent) of
                        Inl err \<Rightarrow> Some (Some (BadSeedProof err), c)
                      | Inr (seed, proof) \<Rightarrow>
                          let header = (SetSeed seed header)\<lparr>h_Certificate :=
                                Certificate_SetProposer (c_currentMiner c) (Certificate_SetSeedProof proof emptyCertificate)\<rparr>
                          in (case Algorand_Prepare (bk_chain bk) header of
                                Inl err \<Rightarrow> Some (Some err, c)
                              | Inr header \<Rightarrow> select_and_finalize en bk header statedb c))))"

section \<open>Inserting a sealed block\<close>

datatype insert_error = InsertFailed engine_error | InsertInvalid verify_error

definition with_block_hash :: "hash \<Rightarrow> Receipt list \<Rightarrow> Receipt list" where
  "with_block_hash h receipts = map (\<lambda>r. r\<lparr>rc_Logs := map (\<lambda>l. l\<lparr>lg_BlockHash := h\<rparr>) (rc_Logs r)\<rparr>) receipts"

definition logs_with_block_hash :: "hash \<Rightarrow> StateDB \<Rightarrow> StateDB" where
  "logs_with_block_hash h s = s\<lparr>sdb_logs := map (\<lambda>(t, ls). (t, map (\<lambda>l. l\<lparr>lg_BlockHash := h\<rparr>) ls)) (sdb_logs s)\<rparr>"

definition insertIntoBlockChain :: "env \<Rightarrow> backend \<Rightarrow> Block \<Rightarrow> Context \<Rightarrow> (insert_error option \<times> Context) option" where
  "insertIntoBlockChain en bk block c =
     (let sealedValue = Block_Hash (en_crypto en) block
      in case getVerifiedBlockState sealedValue c of
           None \<Rightarrow>
             let c = emit (InsertChain block) c
             in (case bk_InsertChain bk block of
                   None \<Rightarrow> Some (None, emit (PostMined block) c)
                 | Some err \<Rightarrow> Some (Some (InsertFailed err), c))
         | Some cache \<Rightarrow>
             (case bs_err cache of
                Some err \<Rightarrow> Some (Some (InsertInvalid err), c)
              | None \<Rightarrow>
                  (case bs_statedb cache of
                     None \<Rightarrow> None
                   | Some (_, statedb) \<Rightarrow>
                       let c = emit (WriteBlock block) c
                       in (case bk_WriteBlock bk block (with_block_hash sealedValue (bs_receipts cache))
                                  (logs_with_block_hash sealedValue statedb) of
                             Inl err \<Rightarrow> Some (Some (InsertFailed err), c)
                           | Inr canonical \<Rightarrow>
                               let c = emit (PostMined block) c;
                                   c = (if canonical then emit (UpdateMortgage (Block_Number block) (bs_counter cache)) c else c)
                               in Some (None, emit (PostChainEvents block canonical) c)))))"

section \<open>Settings\<close>

definition SetExtra :: "bytes \<Rightarrow> Context \<Rightarrow> Context" where "SetExtra extra c = c\<lparr>c_extra := extra\<rparr>"

definition SetMiner :: "address \<Rightarrow> Context \<Rightarrow> Context" where
  "SetMiner address c =
     (let c = c\<lparr>c_nextMiner := address\<rparr> in if \<not> c_mining c then c\<lparr>c_currentMiner := address\<rparr> else c)"

definition StartMining :: "Context \<Rightarrow> Context" where "StartMining c = c\<lparr>c_mining := True\<rparr>"
definition StopMining :: "Context \<Rightarrow> Context" where "StopMining c = c\<lparr>c_mining := False\<rparr>"

text \<open>The node's own weight on the latest state.\<close>

definition Stake :: "env \<Rightarrow> backend \<Rightarrow> Context \<Rightarrow> u64 option" where
  "Stake en bk c =
     (if \<not> c_mining c then Some 0
      else let currentBlock = bk_CurrentBlock bk; config = cc_Algorand (en_config en)
           in case bk_StateAt bk (h_Root (b_header currentBlock)) of
                None \<Rightarrow> Some 0
              | Some stateDb \<Rightarrow>
                  if \<not> IsMinerOf (en_crypto en) config stateDb (Block_Number currentBlock) (c_currentMiner c) then Some 0
                  else map_option fst
                         (GetWeight (en_crypto en) config (c_currentMiner c) stateDb
                            (h_TotalBalanceOfMiners (b_header currentBlock)) (push_bit 248 0x80)))"

end
