(* ===== verification/State_Machine.thy ===== *)
theory State_Machine
  imports Consensus_Context
begin

text \<open>
  The states of the consensus (\<^verbatim>\<open>consensus/algorand/core/state.go\<close>) and the handlers of messages,
  timeouts and chain heads that drive them (\<^verbatim>\<open>consensus/algorand/core/context.go\<close>).  Entering a state
  may enter the next one; these chains are finite (new height, proposal; filtering, certifying; first
  finishing, second finishing), so each state's entry is defined after the ones it calls.
  \<^const>\<open>None\<close> is a panic or a deadlock of the node.
\<close>

section \<open>Entering states\<close>

definition OnExit :: "Context \<Rightarrow> Context option" where
  "OnExit c =
     (case c_state c of
        None \<Rightarrow> None
      | Some (StateProposal _ _ _) \<Rightarrow> Some (clearTimer c)
      | Some (StateCertifying _ _) \<Rightarrow> Some (clearTimer c)
      | Some (StateSecondFinishing _ _) \<Rightarrow> Some (clearTimer c)
      | Some _ \<Rightarrow> Some c)"

definition switchState :: "State \<Rightarrow> Context \<Rightarrow> Context option" where
  "switchState newState c = map_option (\<lambda>c. c\<lparr>c_state := Some newState\<rparr>) (OnExit c)"

definition SecondFinishing_OnEnter :: "env \<Rightarrow> backend \<Rightarrow> Context \<Rightarrow> Context option" where
  "SecondFinishing_OnEnter en bk c =
     (let c = startTimer en (c\<lparr>c_Step := c_Step c + 1\<rparr>)
      in map_option (\<lambda>(sb, c). c\<lparr>c_state := Some (StateSecondFinishing sb 0)\<rparr>) (Context_sortition en c))"

definition gotoSecondFinishing :: "env \<Rightarrow> backend \<Rightarrow> Context \<Rightarrow> Context option" where
  "gotoSecondFinishing en bk c = do {
     c \<leftarrow> switchState (StateSecondFinishing zeroBase 0) c;
     SecondFinishing_OnEnter en bk c
   }"

definition FirstFinishing_OnEnter :: "env \<Rightarrow> backend \<Rightarrow> Context \<Rightarrow> Context option" where
  "FirstFinishing_OnEnter en bk c = do {
     (sb, c) \<leftarrow> Context_sortition en (c\<lparr>c_Step := c_Step c + 1\<rparr>);
     let c = c\<lparr>c_state := Some (StateFirstFinishing sb)\<rparr>;
     if sb_weight sb = 0 then gotoSecondFinishing en bk c
     else do {
       ((exists', value'), c) \<leftarrow> isSoftVoteEnoughForNonEmptyValueWhoseBlockIsReceivedAndValid en bk (c_Round c) c;
       c \<leftarrow> (if exists' then sendVote en VoteTypeNext value' sb c
             else if 2 \<le> c_Round c \<and> isNextVoteEnoughForEmpty (c_Round c - 1) c
             then sendVote en VoteTypeNext (c_EmptyValue c) sb c
             else sendVote en VoteTypeNext (c_StartingValue c) sb c);
       gotoSecondFinishing en bk c
     }
   }"

definition gotoFirstFinishing :: "env \<Rightarrow> backend \<Rightarrow> Context \<Rightarrow> Context option" where
  "gotoFirstFinishing en bk c = do {
     c \<leftarrow> switchState (StateFirstFinishing zeroBase) c;
     FirstFinishing_OnEnter en bk c
   }"

text \<open>The state's certificate vote, or the value it waits for.\<close>

definition tryCertValue :: "env \<Rightarrow> backend \<Rightarrow> StateBase \<Rightarrow> hash \<Rightarrow> Context \<Rightarrow> Context option" where
  "tryCertValue en bk sb value' c =
     (case getProposalBlock value' c of
        Some data \<Rightarrow> do {
          (err, c) \<leftarrow> verifyBlockSync en bk (pb_Block data) c;
          if err \<noteq> None then Some c else sendVote en VoteTypeCert value' sb c
        }
      | None \<Rightarrow>
          Some (emit (RequestBlock (makeChanId (c_Height c) (c_Round c)) value')
                  (c\<lparr>c_state := Some (StateCertifying sb value')\<rparr>)))"

definition Certifying_OnEnter :: "env \<Rightarrow> backend \<Rightarrow> Context \<Rightarrow> Context option" where
  "Certifying_OnEnter en bk c = do {
     (sb, c) \<leftarrow> Context_sortition en (startTimer en (c\<lparr>c_Step := RoundStep3Certifying\<rparr>));
     let c = c\<lparr>c_state := Some (StateCertifying sb 0)\<rparr>;
     if sb_weight sb = 0 then Some c
     else let (exists', nonEmptyValue) = IsSoftVoteEnoughForNonEmpty (c_counter c) (c_EmptyValue c) (c_Round c)
          in if exists' then tryCertValue en bk sb nonEmptyValue c else Some c
   }"

definition gotoCertifying :: "env \<Rightarrow> backend \<Rightarrow> Context \<Rightarrow> Context option" where
  "gotoCertifying en bk c = do {
     c \<leftarrow> switchState (StateCertifying zeroBase 0) c;
     Certifying_OnEnter en bk c
   }"

definition Filtering_OnEnter :: "env \<Rightarrow> backend \<Rightarrow> Context \<Rightarrow> Context option" where
  "Filtering_OnEnter en bk c = do {
     (sb, c) \<leftarrow> Context_sortition en (c\<lparr>c_Step := RoundStep2Filtering\<rparr>);
     let c = c\<lparr>c_state := Some (StateFiltering sb)\<rparr>;
     if sb_weight sb = 0 then gotoCertifying en bk c
     else do {
       c \<leftarrow> (if c_Round c = 1 \<or> isNextVoteEnoughForEmpty (c_Round c - 1) c then
               (case getProposalLeader (c_Round c) c of
                  Some value' \<Rightarrow> sendVote en VoteTypeSoft (pl_Value value') sb c
                | None \<Rightarrow> Some c)
             else sendVote en VoteTypeSoft (c_StartingValue c) sb c);
       gotoCertifying en bk c
     }
   }"

definition gotoFiltering :: "env \<Rightarrow> backend \<Rightarrow> Context \<Rightarrow> Context option" where
  "gotoFiltering en bk c = do {
     c \<leftarrow> switchState (StateFiltering zeroBase) c;
     Filtering_OnEnter en bk c
   }"

definition Proposal_OnEnter :: "env \<Rightarrow> backend \<Rightarrow> u32 \<Rightarrow> hash \<Rightarrow> Context \<Rightarrow> Context option" where
  "Proposal_OnEnter en bk stateRound stateStartingValue c = do {
     let c = c\<lparr>c_Round := stateRound, c_StartingValue := stateStartingValue, c_Step := RoundStep1Proposal\<rparr>;
     let c = broadcastMsg (StatusMsg \<lparr>sd_Height = c_Height c, sd_Round = c_Round c\<rparr>) c;
     (sb, c) \<leftarrow> Context_sortition en (startTimer en c);
     let c = c\<lparr>c_state := Some (StateProposal sb stateRound stateStartingValue)\<rparr>;
     if sb_weight sb = 0 then Some c
     else if c_Round c = 1 \<or> isNextVoteEnoughForEmpty (c_Round c - 1) c then do {
       (err, c) \<leftarrow> NewBlock en bk c;
       (case err of
          Some e \<Rightarrow> if e = errStopped then Some c else None
        | None \<Rightarrow>
            (case c_newBlock c of
               None \<Rightarrow> None
             | Some b \<Rightarrow> sendProposal en (Block_Hash (en_crypto en) b) sb c))
     } else sendProposal en (c_StartingValue c) sb c
   }"

definition gotoProposal :: "env \<Rightarrow> backend \<Rightarrow> u32 \<Rightarrow> hash \<Rightarrow> Context \<Rightarrow> Context option" where
  "gotoProposal en bk stateRound stateStartingValue c = do {
     c \<leftarrow> switchState (StateProposal zeroBase stateRound stateStartingValue) c;
     Proposal_OnEnter en bk stateRound stateStartingValue c
   }"

text \<open>Files of heights more than a thousand blocks back are removed.\<close>

definition NewHeight_init :: "env \<Rightarrow> StateDB \<Rightarrow> Block \<Rightarrow> Context \<Rightarrow> Context" where
  "NewHeight_init en parentStatedb parent c =
     (let number = h_Number (b_header parent) + 1;
          emptyValue = AlgorandEmptyValue (en_crypto en) (Block_Hash (en_crypto en) parent) number
      in c\<lparr>c_currentMiner := c_nextMiner c, c_parent := parent, c_parentStatedb := parentStatedb,
           c_Height := of_int number, c_Round := BadRound, c_Step := BadStep,
           c_EmptyValue := emptyValue, c_StartingValue := emptyValue, c_counter := NewHeightVoteSet,
           c_ProposalLeader := [], c_ReceivedProposalBlock := [], c_verifing := [], c_verified := [],
           c_WaitingBlockForValue := emptyValue, c_WaitingBlockForRound := BadRound,
           c_statedb := None, c_receipts := [], c_mortgageContractCounter := [], c_newBlock := None,
           c_journals := (if 1000 < Block_Number parent then mdel (Block_Number parent - 1000) (c_journals c) else c_journals c)\<rparr>)"

definition NewHeight_OnEnter :: "env \<Rightarrow> backend \<Rightarrow> Block \<Rightarrow> Context \<Rightarrow> Context option" where
  "NewHeight_OnEnter en bk parent c = do {
     parentStatedb \<leftarrow> bk_StateAt bk (h_Root (b_header parent));
     c \<leftarrow> resetParentRoundVoteSet (NewHeight_init en parentStatedb parent c);
     c \<leftarrow> resetParentProposalBlockData en bk c;
     gotoProposal en bk 1 (c_EmptyValue c) c
   }"

definition gotoNewHeight :: "env \<Rightarrow> backend \<Rightarrow> Block \<Rightarrow> Context \<Rightarrow> Context option" where
  "gotoNewHeight en bk chainHeadBlock c = do {
     c \<leftarrow> switchState (StateNewHeight chainHeadBlock) c;
     NewHeight_OnEnter en bk chainHeadBlock c
   }"

definition startStateMachine :: "env \<Rightarrow> backend \<Rightarrow> Block \<Rightarrow> Context \<Rightarrow> Context option" where
  "startStateMachine en bk canonicalBlock c =
     (if c_state c \<noteq> None then None
      else NewHeight_OnEnter en bk canonicalBlock (c\<lparr>c_state := Some (StateNewHeight canonicalBlock)\<rparr>))"

section \<open>Reactions\<close>

definition OnTimeout :: "env \<Rightarrow> backend \<Rightarrow> Context \<Rightarrow> Context option" where
  "OnTimeout en bk c =
     (case c_state c of
        Some (StateProposal _ _ _) \<Rightarrow> gotoFiltering en bk c
      | Some (StateCertifying _ _) \<Rightarrow> gotoFirstFinishing en bk c
      | Some (StateSecondFinishing _ _) \<Rightarrow> gotoFirstFinishing en bk c
      | _ \<Rightarrow> Some c)"

definition OnPotentialVoteEnough :: "env \<Rightarrow> backend \<Rightarrow> hash \<Rightarrow> Context \<Rightarrow> Context option" where
  "OnPotentialVoteEnough en bk value' c =
     (case getProposalBlock value' c of
        Some blockData \<Rightarrow> verifyBlockAsync en bk (pb_Block blockData) c
      | None \<Rightarrow> Some c)"

datatype StateEvent = Unchanged | NewRound | HeightEnd

text \<open>\<^verbatim>\<open>sort.Sort\<close> of the votes of a certificate, whose addresses differ.\<close>

fun insert_cert :: "CertVoteStorage \<Rightarrow> CertVoteStorage list \<Rightarrow> CertVoteStorage list" where
  "insert_cert x [] = [x]"
| "insert_cert x (y # ys) = (if CertVoteStorage_Less y x then y # insert_cert x ys else x # y # ys)"

definition sort_certs :: "CertVoteStorage list \<Rightarrow> CertVoteStorage list" where
  "sort_certs xs = foldr insert_cert xs []"

definition seal_block :: "ProposalBlockData \<Rightarrow> u32 \<Rightarrow> hash \<Rightarrow> CertVoteStorage list \<Rightarrow> bytes list \<Rightarrow> Block" where
  "seal_block blockData round' value' cvs proof =
     WithSeal (pb_Block blockData) ((b_header (pb_Block blockData))\<lparr>h_Certificate :=
       \<lparr>ct_Height = Block_Number (pb_Block blockData), ct_Round = round', ct_Value = value',
        ct_Proposal = ToProposalStorage blockData, ct_CertVoteSet = cvs, ct_TrieProof = proof\<rparr>\<rparr>)"

definition OnCertVoteEnough :: "env \<Rightarrow> backend \<Rightarrow> hash \<Rightarrow> u32 \<Rightarrow> Context \<Rightarrow> (StateEvent \<times> Context) option" where
  "OnCertVoteEnough en bk value' round' c =
     (case getProposalBlock value' c of
        None \<Rightarrow> Some (Unchanged, c\<lparr>c_WaitingBlockForValue := value', c_WaitingBlockForRound := round'\<rparr>)
      | Some blockData \<Rightarrow>
          let cvs = sort_certs (GetCertVoteStorage (c_counter c) round' value')
          in if cvs = [] then None
             else do {
               proof \<leftarrow> bk_BuildProof bk (c_parentStatedb c) (h_Root (b_header (c_parent c)))
                 (Block_Number (pb_Block blockData)) (cr_Address (pb_Credential blockData)) cvs;
               (err, c) \<leftarrow> insertIntoBlockChain en bk (seal_block blockData round' value' cvs proof) c;
               if err = None \<or> err = Some (InsertFailed ErrKnownBlock) then Some (HeightEnd, c) else None
             })"

definition OnSoftVoteEnough :: "env \<Rightarrow> backend \<Rightarrow> hash \<Rightarrow> u32 \<Rightarrow> Context \<Rightarrow> Context option" where
  "OnSoftVoteEnough en bk value' round' c =
     (case c_state c of
        Some (StateCertifying sb _) \<Rightarrow>
          if 0 < sb_weight sb \<and> round' = c_Round c \<and> value' \<noteq> c_EmptyValue c then tryCertValue en bk sb value' c else Some c
      | Some (StateSecondFinishing sb _) \<Rightarrow>
          if 0 < sb_weight sb \<and> round' = c_Round c \<and> value' \<noteq> c_EmptyValue c then
            (case getProposalBlock value' c of
               None \<Rightarrow> Some (c\<lparr>c_state := Some (StateSecondFinishing sb value')\<rparr>)
             | Some block \<Rightarrow> do {
                 (err, c) \<leftarrow> verifyBlockSync en bk (pb_Block block) c;
                 if err \<noteq> None then Some c else sendVote en VoteTypeNext value' sb c
               })
          else Some c
      | _ \<Rightarrow> Some c)"

definition OnNextVoteEnough :: "env \<Rightarrow> backend \<Rightarrow> hash \<Rightarrow> u32 \<Rightarrow> Context \<Rightarrow> (StateEvent \<times> Context) option" where
  "OnNextVoteEnough en bk value' round' c =
     (if c_Round c \<le> round' then map_option (Pair NewRound) (gotoProposal en bk (round' + 1) value' c)
      else case c_state c of
             Some (StateSecondFinishing sb _) \<Rightarrow>
               if 0 < sb_weight sb \<and> 2 \<le> c_Round c \<and> c_Round c - 1 = round' \<and> value' = c_EmptyValue c then do {
                 ((exists', _), c) \<leftarrow> isSoftVoteEnoughForNonEmptyValueWhoseBlockIsReceivedAndValid en bk (c_Round c) c;
                 if exists' then Some (Unchanged, c)
                 else map_option (Pair Unchanged) (sendVote en VoteTypeNext (c_EmptyValue c) sb c)
               } else Some (Unchanged, c)
           | _ \<Rightarrow> Some (Unchanged, c))"

definition OnProposalLeaderReceived :: "env \<Rightarrow> ProposalLeaderData \<Rightarrow> Context \<Rightarrow> Context option" where
  "OnProposalLeaderReceived en value' c =
     (if pl_Round value' < c_Round c \<or> (pl_Round value' = c_Round c \<and> c_Step c \<noteq> RoundStep1Proposal) then Some c
      else case getProposalLeader (pl_Round value') c of
             None \<Rightarrow> Some (UpdateProposalLeader value' c)
           | Some leader \<Rightarrow> do {
               less' \<leftarrow> ProposalLeaderData_LessThan (en_crypto en) value' leader;
               Some (if less' then UpdateProposalLeader value' c else c)
             })"

text \<open>The part common to all states, then the votes that waited for the block.\<close>

definition Base_OnProposalDataComplete ::
    "env \<Rightarrow> backend \<Rightarrow> ProposalBlockData \<Rightarrow> Context \<Rightarrow> (StateEvent \<times> Context) option" where
  "Base_OnProposalDataComplete en bk data c =
     (if c_WaitingBlockForValue c = Block_Hash (en_crypto en) (pb_Block data) then do {
        (err, c) \<leftarrow> verifyBlockSync en bk (pb_Block data) c;
        if err = None then OnCertVoteEnough en bk (c_WaitingBlockForValue c) (c_WaitingBlockForRound c) c
        else Some (Unchanged, c)
      } else Some (Unchanged, c))"

definition OnProposalDataComplete ::
    "env \<Rightarrow> backend \<Rightarrow> ProposalBlockData \<Rightarrow> Context \<Rightarrow> (StateEvent \<times> Context) option" where
  "OnProposalDataComplete en bk data c = do {
     (event, c) \<leftarrow> Base_OnProposalDataComplete en bk data c;
     if event \<noteq> Unchanged then Some (event, c)
     else case c_state c of
            Some (StateCertifying sb certWaiting) \<Rightarrow>
              if \<not> EmptyHash certWaiting \<and> certWaiting = Block_Hash (en_crypto en) (pb_Block data) then do {
                (err, c) \<leftarrow> verifyBlockSync en bk (pb_Block data) c;
                if err \<noteq> None then Some (Unchanged, c)
                else map_option (Pair Unchanged) (sendVote en VoteTypeCert certWaiting sb c)
              } else Some (Unchanged, c)
          | Some (StateSecondFinishing sb waiting) \<Rightarrow>
              if Block_Hash (en_crypto en) (pb_Block data) = waiting then do {
                (err, c) \<leftarrow> verifyBlockSync en bk (pb_Block data) c;
                if err \<noteq> None then Some (Unchanged, c)
                else map_option (Pair Unchanged) (sendVote en VoteTypeNext waiting sb c)
              } else Some (Unchanged, c)
          | _ \<Rightarrow> Some (Unchanged, c)
   }"

section \<open>Handlers\<close>

text \<open>
  The verification of a message fills in the weight of its credential.  An error of a handler is
  logged by its caller and has no other effect.
\<close>

definition verify_credential ::
    "env \<Rightarrow> bytes \<Rightarrow> ForwardSecureSignature \<Rightarrow> Credential \<Rightarrow> Context \<Rightarrow> (miner_error option \<times> Credential) option" where
  "verify_credential en signBytes sig credential c =
     VerifySignatureAndCredential (en_crypto en) (en_binomial en)
       (GetMinerVerifier (en_crypto en) (cc_Algorand (en_config en)) (c_parentStatedb c) (cr_Address credential) (cr_Height credential))
       signBytes sig credential (c_parentStatedb c) (c_Seed c) (c_Total c)"

definition handleProposalLeader :: "env \<Rightarrow> ProposalLeaderData \<Rightarrow> Context \<Rightarrow> Context option" where
  "handleProposalLeader en data c = do {
     bigger \<leftarrow> (case getProposalLeader (pl_Round data) c of
                 None \<Rightarrow> Some False
               | Some leader \<Rightarrow> ProposalLeaderData_LessThan (en_crypto en) leader data);
     if bigger then Some c
     else do {
       (err, credential) \<leftarrow> verify_credential en (ProposalLeaderData_SignBytes data) (pl_ESignValue data) (pl_Credential data) c;
       let data = data\<lparr>pl_Credential := credential\<rparr>;
       if err \<noteq> None then Some c
       else OnProposalLeaderReceived en data
              (broadcastMsg (HasProposalLeaderMsg (ProposalLeaderData_ToHasProposalData data)) c)
     }
   }"

text \<open>The rest of \<^verbatim>\<open>handleProposalBlock\<close> once the header has been verified.\<close>

definition accept_block :: "env \<Rightarrow> backend \<Rightarrow> string \<Rightarrow> ProposalBlockData \<Rightarrow> Context \<Rightarrow> Context option" where
  "accept_block en bk from block c = do {
     let h = Block_Hash (en_crypto en) (pb_Block block);
     let c = (if from = fromMe
              then saveVerifiedBlockState h \<lparr>bs_err = None, bs_statedb = c_statedb c, bs_receipts = c_receipts c,
                                             bs_counter = c_mortgageContractCounter c\<rparr> c else c);
     let c = SaveProposalBlock (en_crypto en) block c;
     c \<leftarrow> (if c_StartingValue c = h \<or> IsPotentialValue (c_counter c) (pb_Round block) h
           then verifyBlockAsync en bk (pb_Block block) c else Some c);
     map_option snd (OnProposalDataComplete en bk block c)
   }"

definition handleProposalBlock :: "env \<Rightarrow> backend \<Rightarrow> string \<Rightarrow> ProposalBlockData \<Rightarrow> Context \<Rightarrow> Context option" where
  "handleProposalBlock en bk from block c =
     (let cr = en_crypto en; b = pb_Block block
      in if getProposalBlock (Block_Hash cr b) c \<noteq> None then Some c
         else do {
           (err, credential) \<leftarrow> verify_credential en (ProposalBlockData_SignBytes cr block) (pb_ESignValue block) (pb_Credential block) c;
           let block = block\<lparr>pb_Credential := credential\<rparr>;
           let mv = GetMinerVerifier cr (cc_Algorand (en_config en)) (c_parentStatedb c) (cr_Address credential) (pb_Height block);
           if err \<noteq> None then Some c
           else if VerifySeed cr mv (pb_Height block) (c_Seed c) (Block_Hash cr (c_parent c)) (Seed (b_header b))
                     (Block_SeedProof b) \<noteq> None then Some c
           else if h_Coinbase (b_header b) \<noteq> mv_coinbase mv then Some c
           else do {
             c \<leftarrow> OnProposalLeaderReceived en (NewProposalLeaderData cr block)
                    (broadcastMsg (HasProposalBlockMsg (ProposalBlockData_ToHasProposalData cr block)) c);
             header_err \<leftarrow> VerifyHeader (bk_chain bk) cr (en_binomial en) (cc_Algorand (en_config en)) (bk_now bk) (b_header b) False;
             if header_err \<noteq> None then Some c else accept_block en bk from block c
           }
         })"

definition react_to_quorum :: "env \<Rightarrow> backend \<Rightarrow> VoteData \<Rightarrow> Context \<Rightarrow> Context option" where
  "react_to_quorum en bk vote c =
     (let t = VoteTypeOfStep (v_Step vote)
      in if t = VoteTypeSoft then OnSoftVoteEnough en bk (v_Value vote) (v_Round vote) c
         else if t = VoteTypeCert then map_option snd (OnCertVoteEnough en bk (v_Value vote) (v_Round vote) c)
         else if t = VoteTypeNext then map_option snd (OnNextVoteEnough en bk (v_Value vote) (v_Round vote) c)
         else Some c)"

definition handleVote :: "env \<Rightarrow> backend \<Rightarrow> VoteData \<Rightarrow> Context \<Rightarrow> Context option" where
  "handleVote en bk vote c =
     (if HasVote (c_counter c) (v_Round vote) (v_Step vote) (v_Address vote) then Some c
      else do {
        (err, credential) \<leftarrow> verify_credential en (VoteData_SignBytes vote) (v_ESignValue vote) (v_Credential vote) c;
        let vote = vote\<lparr>v_Credential := credential\<rparr>;
        if err \<noteq> None then Some c
        else do {
          let c = broadcastMsg (HasVoteMsg (ToHasVote vote)) c;
          let (result, counter) = AddVoteAndCount vote (fst (GetCommitteeNumber (v_Height vote) (v_Step vote))) (c_counter c);
          let c = c\<lparr>c_counter := counter\<rparr>;
          if ar_err result \<noteq> None then Some c
          else do {
            c \<leftarrow> (if ar_newPotential result then OnPotentialVoteEnough en bk (v_Value vote) c else Some c);
            if ar_added result \<and> ar_enough result then react_to_quorum en bk vote c else Some c
          }
        }
      })"

definition handleMsg :: "env \<Rightarrow> backend \<Rightarrow> msg \<Rightarrow> string \<Rightarrow> Context \<Rightarrow> Context option" where
  "handleMsg en bk m from c =
     (if c_state c = None then Some c
      else case m of
             ProposalLeaderMsg data \<Rightarrow>
               if \<not> ProposalLeaderData_Valid data (c_Height c) then Some c else handleProposalLeader en data c
           | ProposalBlockMsg data \<Rightarrow>
               if \<not> ProposalBlockData_Valid data (c_Height c) then Some c else handleProposalBlock en bk from data c
           | VoteMsg vote \<Rightarrow>
               if \<not> VoteData_Valid vote (c_Height c) (c_EmptyValue c) then Some c else handleVote en bk vote c
           | _ \<Rightarrow> Some c)"

definition handleTimeout :: "env \<Rightarrow> backend \<Rightarrow> TimeoutInfo \<Rightarrow> Context \<Rightarrow> Context option" where
  "handleTimeout en bk ti c =
     (if c_state c = None then Some c
      else if ti_Height ti \<noteq> c_Height c \<or> ti_Round ti \<noteq> c_Round c \<or> ti_Step ti \<noteq> c_Step c then Some c
      else OnTimeout en bk c)"

section \<open>The journal\<close>

text \<open>
  A journal entry is the encoding of its message, which leaves out the cached weight of a credential.
  A write opens the file when it is not open.
\<close>

definition unweighted :: "Credential \<Rightarrow> Credential" where "unweighted cred = cred\<lparr>cr_Weight := 0\<rparr>"

fun journaled :: "msg \<Rightarrow> msg" where
  "journaled (ProposalLeaderMsg d) = ProposalLeaderMsg (d\<lparr>pl_Credential := unweighted (pl_Credential d)\<rparr>)"
| "journaled (ProposalBlockMsg d) = ProposalBlockMsg (d\<lparr>pb_Credential := unweighted (pb_Credential d)\<rparr>)"
| "journaled (VoteMsg d) = VoteMsg (d\<lparr>v_Credential := unweighted (v_Credential d)\<rparr>)"
| "journaled m = m"

definition journal_file :: "u64 \<Rightarrow> Context \<Rightarrow> journal_entry list" where
  "journal_file height c = (case mget (c_journals c) height of None \<Rightarrow> [] | Some es \<Rightarrow> es)"

definition VoteJournal_Write :: "journal_entry \<Rightarrow> Context \<Rightarrow> Context option" where
  "VoteJournal_Write e c =
     map_option (\<lambda>h. c\<lparr>c_journals := mput h (journal_file h c @ [e]) (c_journals c)\<rparr>) (c_journal c)"

definition resetAndOpenRecoverFile :: "u64 \<Rightarrow> Context \<Rightarrow> Context" where
  "resetAndOpenRecoverFile height c =
     c\<lparr>c_journal := Some height, c_journals := mput height (journal_file height c) (c_journals c)\<rparr>"

definition prepareRecover :: "Block \<Rightarrow> Context \<Rightarrow> Context" where
  "prepareRecover canonicalBlock c =
     (let height = Block_Number canonicalBlock + 1
      in c\<lparr>c_recover := (c_recover c \<and> mget (c_journals c) height \<noteq> None), c_journal := Some height\<rparr>)"

fun loadRecoverEntry :: "env \<Rightarrow> backend \<Rightarrow> journal_entry list \<Rightarrow> Context \<Rightarrow> Context option" where
  "loadRecoverEntry en bk [] c = Some c"
| "loadRecoverEntry en bk (JournalMsg m from # es) c = do {
     c \<leftarrow> handleMsg en bk m (''recover-'' @ from) c;
     loadRecoverEntry en bk es c
   }"
| "loadRecoverEntry en bk (JournalTimeout ti # es) c = do {
     c \<leftarrow> handleTimeout en bk ti c;
     loadRecoverEntry en bk es c
   }"

definition readyRecover :: "env \<Rightarrow> backend \<Rightarrow> Block \<Rightarrow> Context \<Rightarrow> Context option" where
  "readyRecover en bk canonicalBlock c = do {
     let c = (if c_recover c then prepareRecover canonicalBlock c else c);
     let entries = (case c_journal c of None \<Rightarrow> [] | Some h \<Rightarrow> journal_file h c);
     c \<leftarrow> startStateMachine en bk canonicalBlock c;
     c \<leftarrow> (if c_recover c then loadRecoverEntry en bk entries c else Some c);
     Some (c\<lparr>c_recover := False\<rparr>)
   }"

definition stopRunning :: "Context \<Rightarrow> Context" where
  "stopRunning c = c\<lparr>c_Height := 0, c_Round := BadRound, c_state := None\<rparr>"

section \<open>Events\<close>

text \<open>
  The turns of \<^verbatim>\<open>receiveRoutine\<close> (a message of its channel, a timeout, a new head of the chain), of
  \<^verbatim>\<open>broadcastLoop\<close>, of the key update routine and of the callers in other goroutines, in any order.
\<close>

datatype event =
  Receive msg string | Message | Timeout TimeoutInfo | ChainHead | Broadcast
| MinerSet address | ExtraSet bytes | MiningStarted | MiningStopped | KeysUpdated u64

fun machine_step :: "env \<Rightarrow> backend \<Rightarrow> event \<Rightarrow> Context \<Rightarrow> Context option" where
  "machine_step en bk (Receive m from) c = Some (OnReceive m from c)"
| "machine_step en bk Message c =
     (case c_msgChan c of
        [] \<Rightarrow> Some c
      | (m, from) # rest \<Rightarrow>
          let c = c\<lparr>c_msgChan := rest\<rparr>
          in if Block_Number (bk_CurrentBlock bk) < c_Height c then do {
               c \<leftarrow> VoteJournal_Write (JournalMsg (journaled m) from) c;
               handleMsg en bk m from c
             } else Some c)"
| "machine_step en bk (Timeout ti) c =
     (if Block_Number (bk_CurrentBlock bk) < c_Height c then do {
        c \<leftarrow> VoteJournal_Write (JournalTimeout ti) c;
        handleTimeout en bk ti c
      } else Some c)"
| "machine_step en bk ChainHead c =
     (let currentBlock = bk_CurrentBlock bk
      in if Block_Hash (en_crypto en) (c_parent c) \<noteq> Block_Hash (en_crypto en) currentBlock
         then gotoNewHeight en bk currentBlock (resetAndOpenRecoverFile (Block_Number currentBlock + 1) c)
         else Some c)"
| "machine_step en bk Broadcast c = Some (c\<lparr>c_broadcastMsgCh := tl (c_broadcastMsgCh c)\<rparr>)"
| "machine_step en bk (MinerSet a) c = Some (SetMiner a c)"
| "machine_step en bk (ExtraSet x) c = Some (SetExtra x c)"
| "machine_step en bk MiningStarted c = Some (StartMining c)"
| "machine_step en bk MiningStopped c = Some (StopMining c)"
| "machine_step en bk (KeysUpdated h) c = map_option (\<lambda>mkm. c\<lparr>c_mkm := mkm\<rparr>) (updateRoutine_head h (c_mkm c))"

end
