(* ===== verification/Machine_Invariant.thy ===== *)
theory Machine_Invariant
  imports State_Machine
begin

text \<open>
  The invariant of the consensus state machine: the votes it has sent do not contradict each other, its
  states and steps agree, its timers lie in order, and what it has counted and stored was verified.
  The operations that change neither the position of the machine nor its votes are collected in a
  relation \<open>quiet\<close>, closed under composition; the invariant is carried through the rest, one lemma
  per operation.  The promises that follow from it are in \<open>Machine_Safety\<close>.
\<close>

section \<open>Quiet operations\<close>

fun vote_of :: "effect \<Rightarrow> VoteData list" where
  "vote_of (SelfMsg (VoteMsg v)) = [v]"
| "vote_of _ = []"

fun timeout_of :: "effect \<Rightarrow> TimeoutInfo list" where
  "timeout_of (Schedule ti) = [ti]"
| "timeout_of _ = []"

definition votes_out :: "Context \<Rightarrow> VoteData list" where
  "votes_out c = concat (map vote_of (c_out c))"

definition timeouts_out :: "Context \<Rightarrow> TimeoutInfo list" where
  "timeouts_out c = concat (map timeout_of (c_out c))"

text \<open>
  A block is ready when it has been received and verified.  Blocks are stored under their hashes, and
  a channel is empty only after its result has been saved.
\<close>

definition ready :: "hash \<Rightarrow> Context \<Rightarrow> bool" where
  "ready v c \<longleftrightarrow> mget (c_ReceivedProposalBlock c) v \<noteq> None \<and> (\<exists>r. mget (c_verified c) v = Some r \<and> bs_err r = None)"

definition keyed :: "env \<Rightarrow> Context \<Rightarrow> bool" where
  "keyed en c \<longleftrightarrow> (\<forall>v d. mget (c_ReceivedProposalBlock c) v = Some d \<longrightarrow> Block_Hash (en_crypto en) (pb_Block d) = v)"

definition drained :: "Context \<Rightarrow> bool" where
  "drained c \<longleftrightarrow> (\<forall>k. mget (c_verifing c) k = Some [] \<longrightarrow> mget (c_verified c) k \<noteq> None)"

text \<open>A received block was proposed for this height: signed, with a verified credential and seed.\<close>

definition proposed :: "env \<Rightarrow> Context \<Rightarrow> ProposalBlockData \<Rightarrow> bool" where
  "proposed en c d \<longleftrightarrow> pb_Height d = c_Height c \<and> cr_Step (pb_Credential d) = RoundStep1Proposal \<and>
     verify_credential en (ProposalBlockData_SignBytes (en_crypto en) d) (pb_ESignValue d) (pb_Credential d) c =
       Some (None, pb_Credential d) \<and>
     VerifySeed (en_crypto en)
       (GetMinerVerifier (en_crypto en) (cc_Algorand (en_config en)) (c_parentStatedb c) (cr_Address (pb_Credential d)) (c_Height c))
       (c_Height c) (c_Seed c) (Block_Hash (en_crypto en) (c_parent c)) (Seed (b_header (pb_Block d)))
       (Block_SeedProof (pb_Block d)) = None"

definition quiet :: "env \<Rightarrow> Context \<Rightarrow> Context \<Rightarrow> bool" where
  "quiet en c c' \<longleftrightarrow>
     c_Height c' = c_Height c \<and> c_Round c' = c_Round c \<and> c_Step c' = c_Step c \<and>
     c_EmptyValue c' = c_EmptyValue c \<and> c_StartingValue c' = c_StartingValue c \<and> c_counter c' = c_counter c \<and>
     c_recover c' = c_recover c \<and> c_state c' = c_state c \<and> c_parent c' = c_parent c \<and>
     c_parentStatedb c' = c_parentStatedb c \<and>
     votes_out c' = votes_out c \<and> timeouts_out c' = timeouts_out c \<and>
     (keyed en c \<longrightarrow> keyed en c') \<and> (drained c \<longrightarrow> drained c') \<and> (\<forall>v. ready v c \<longrightarrow> ready v c') \<and>
     (\<forall>v d. mget (c_ReceivedProposalBlock c') v = Some d \<longrightarrow> mget (c_ReceivedProposalBlock c) v = Some d \<or> proposed en c d)"

lemmas quiet_defs = quiet_def votes_out_def timeouts_out_def keyed_def drained_def ready_def

named_theorems quiet_intro

lemma context_quiet_refl [simp]: "quiet en c c"
  by (simp add: quiet_def)

lemma proposed_cong:
  "c_Height c' = c_Height c \<Longrightarrow> c_parent c' = c_parent c \<Longrightarrow> c_parentStatedb c' = c_parentStatedb c \<Longrightarrow>
     proposed en c' d = proposed en c d"
  by (simp add: proposed_def verify_credential_def)

lemma context_quiet_trans: "quiet en c d \<Longrightarrow> quiet en d e \<Longrightarrow> quiet en c e"
  using proposed_cong [of d c] by (simp add: quiet_def) blast

lemma quiet_fields [simp]:
  "quiet en c (c\<lparr>c_mkm := m\<rparr>)"
  "quiet en c (c\<lparr>c_msgChan := q\<rparr>)"
  "quiet en c (c\<lparr>c_broadcastMsgCh := q\<rparr>)"
  "quiet en c (c\<lparr>c_journals := js\<rparr>)"
  "quiet en c (c\<lparr>c_ProposalLeader := pl\<rparr>)"
  "quiet en c (c\<lparr>c_statedb := s\<rparr>)"
  "quiet en c (c\<lparr>c_WaitingBlockForValue := v, c_WaitingBlockForRound := r\<rparr>)"
  "quiet en c (c\<lparr>c_statedb := s, c_receipts := rs, c_mortgageContractCounter := mc, c_newBlock := b\<rparr>)"
  "quiet en c (c\<lparr>c_statedb := s, c_newBlock := b, c_receipts := rs, c_mortgageContractCounter := mc\<rparr>)"
  "quiet en c (c\<lparr>c_extra := x\<rparr>)"
  "quiet en c (c\<lparr>c_mining := mi\<rparr>)"
  "quiet en c (c\<lparr>c_nextMiner := a\<rparr>)"
  "quiet en c (c\<lparr>c_currentMiner := a\<rparr>)"
  "quiet en c (c\<lparr>c_journal := j\<rparr>)"
  by (simp_all add: quiet_defs)

lemma quiet_emit: "vote_of e = [] \<Longrightarrow> timeout_of e = [] \<Longrightarrow> quiet en c (emit e c)"
  by (simp add: quiet_defs)

lemma quiet_emits [simp]:
  "quiet en c (emit (InsertChain b) c)" "quiet en c (emit (WriteBlock b) c)" "quiet en c (emit (PostMined b) c)"
  "quiet en c (emit (PostChainEvents b s) c)" "quiet en c (emit (UpdateMortgage h m) c)"
  "quiet en c (emit (Sub i d) c)" "quiet en c (emit (UnSub i) c)" "quiet en c (emit (Publish i m') c)"
  "quiet en c (emit (RequestBlock i h') c)"
  by (simp_all add: quiet_emit)

text \<open>The operations of the context, one after the other.\<close>

lemma quiet_sendToSelf: "vote_of (SelfMsg m) = [] \<Longrightarrow> quiet en c (sendToSelf m c)"
  by (simp add: sendToSelf_def quiet_defs)

lemma quiet_broadcastMsg [simp]: "quiet en c (broadcastMsg m c)"
  by (simp add: broadcastMsg_def)

lemma quiet_clearTimer [simp]: "quiet en c (clearTimer c)"
  by (simp add: clearTimer_def split: option.split State.split)

lemma quiet_UpdateProposalLeader [simp]: "quiet en c (UpdateProposalLeader v c)"
  by (simp add: UpdateProposalLeader_def)

lemma quiet_sortition:
  assumes "Context_sortition en c = Some (sb, c')" shows "quiet en c c'"
  using assms
  by (auto simp: Context_sortition_def Let_def split: if_splits prod.splits sum.splits option.splits)

lemma quiet_verifyBlockAsync:
  assumes "verifyBlockAsync en bk b c = Some c'" shows "quiet en c c'"
  using assms by (auto simp: verifyBlockAsync_def Let_def quiet_defs split: if_splits)

lemma quiet_verifyBlockSync:
  assumes "verifyBlockSync en bk b c = Some (err, c')" shows "quiet en c c'"
proof (cases "mget (c_verified c) (Block_Hash (en_crypto en) b)")
  case None
  with assms obtain d where d: "verifyBlockAsync en bk b c = Some d"
    by (auto simp: verifyBlockSync_def Let_def bind_eq_Some_conv)
  note q = quiet_verifyBlockAsync [OF d]
  have n: "mget (c_verified d) (Block_Hash (en_crypto en) b) = None"
    using d None by (auto simp: verifyBlockAsync_def Let_def split: if_splits)
  from assms None d n have "quiet en d c'"
    by (auto simp: verifyBlockSync_def Let_def saveVerifiedBlockState_def dropProposalBlock_def quiet_defs
        split: option.splits list.splits if_splits)
  with q show ?thesis by (rule context_quiet_trans)
qed (use assms in \<open>simp add: verifyBlockSync_def\<close>)

lemma quiet_soft_enough:
  assumes "isSoftVoteEnoughForNonEmptyValueWhoseBlockIsReceivedAndValid en bk r c = Some (res, c')"
  shows "quiet en c c'"
  using assms
  by (auto simp: isSoftVoteEnoughForNonEmptyValueWhoseBlockIsReceivedAndValid_def Let_def bind_eq_Some_conv
      split: prod.splits if_splits option.splits dest: quiet_verifyBlockSync)

lemma quiet_sendProposal:
  assumes "sendProposal en v sb c = Some c'" shows "quiet en c c'"
proof -
  have q: "quiet en c (sendToSelf (ProposalLeaderMsg d) c)" for c d by (rule quiet_sendToSelf) simp
  have q': "quiet en c (emit (Publish i (ProposalBlockMsg p)) (sendToSelf (ProposalBlockMsg p) c))" for c i p
    by (rule context_quiet_trans [OF quiet_sendToSelf quiet_emit]) simp_all
  show ?thesis using assms
    by (auto simp: sendProposal_def Let_def split: if_splits prod.splits sum.splits option.splits
        intro!: quiet_fields context_quiet_trans [OF _ q'] context_quiet_trans [OF context_quiet_trans [OF _ q] quiet_broadcastMsg])
qed

lemma quiet_select_and_finalize:
  assumes "select_and_finalize en bk header s c = Some (err, c')" shows "quiet en c c'"
  using assms
  by (auto simp: select_and_finalize_def Let_def bind_eq_Some_conv quiet_defs
      split: option.splits if_splits prod.splits)

lemma quiet_NewBlock:
  assumes "NewBlock en bk c = Some (err, c')" shows "quiet en c c'"
proof -
  let ?c0 = "c\<lparr>c_statedb := None, c_receipts := [], c_mortgageContractCounter := [], c_newBlock := None\<rparr>"
  have r [simp]: "quiet en c (?c0\<lparr>c_mkm := m\<rparr>)" for m by (simp add: quiet_defs)
  show ?thesis using assms
    by (auto simp: NewBlock_def Let_def split: option.splits prod.splits sum.splits
        dest!: quiet_select_and_finalize intro: context_quiet_trans [OF r])
qed

lemma quiet_insert:
  assumes "insertIntoBlockChain en bk b c = Some (err, c')" shows "quiet en c c'"
  using assms
  by (auto simp: insertIntoBlockChain_def Let_def quiet_defs
      split: option.splits prod.splits sum.splits if_splits)

lemma quiet_OnCertVoteEnough:
  assumes "OnCertVoteEnough en bk v r c = Some (ev, c')" shows "quiet en c c'"
  using assms
  by (auto simp: OnCertVoteEnough_def Let_def bind_eq_Some_conv split: option.splits if_splits dest: quiet_insert)

lemma quiet_OnProposalLeaderReceived:
  assumes "OnProposalLeaderReceived en v c = Some c'" shows "quiet en c c'"
  using assms
  by (auto simp: OnProposalLeaderReceived_def bind_eq_Some_conv split: option.splits if_splits)

lemma quiet_handleProposalLeader:
  assumes "handleProposalLeader en d c = Some c'" shows "quiet en c c'"
  using assms
  by (auto simp: handleProposalLeader_def Let_def bind_eq_Some_conv split: if_splits
      dest!: quiet_OnProposalLeaderReceived intro: context_quiet_trans [OF quiet_broadcastMsg])

lemma quiet_OnPotentialVoteEnough:
  assumes "OnPotentialVoteEnough en bk v c = Some c'" shows "quiet en c c'"
  using assms by (auto simp: OnPotentialVoteEnough_def split: option.splits dest: quiet_verifyBlockAsync)

lemma quiet_Base_OnProposalDataComplete:
  assumes "Base_OnProposalDataComplete en bk d c = Some (ev, c')" shows "quiet en c c'"
  using assms
  by (auto simp: Base_OnProposalDataComplete_def bind_eq_Some_conv split: if_splits
      dest!: quiet_verifyBlockSync quiet_OnCertVoteEnough intro: context_quiet_trans)

lemma quiet_VoteJournal_Write:
  assumes "VoteJournal_Write e c = Some c'" shows "quiet en c c'"
  using assms by (auto simp: VoteJournal_Write_def)

lemma quiet_SetMiner [simp]: "quiet en c (SetMiner a c)"
  by (simp add: SetMiner_def Let_def quiet_defs)

lemma quiet_OnExit:
  assumes "OnExit c = Some c'" shows "quiet en c c'"
  using assms by (auto simp: OnExit_def split: option.splits State.splits)

section \<open>The invariant\<close>

text \<open>
  Votes are consistent when no two soft votes of a round differ, and every certificate and next vote
  of a round in which a certificate vote was sent agrees with that vote.
\<close>

definition agree :: "VoteData \<Rightarrow> VoteData \<Rightarrow> bool" where
  "agree v v' \<longleftrightarrow> (v_Height v' = v_Height v \<and> v_Round v' = v_Round v \<longrightarrow>
     (v_Step v = RoundStep2Filtering \<and> v_Step v' = RoundStep2Filtering \<longrightarrow> v_Value v' = v_Value v) \<and>
     (v_Step v = RoundStep3Certifying \<and> RoundStep3Certifying \<le> v_Step v' \<longrightarrow> v_Value v' = v_Value v))"

definition consistent :: "VoteData list \<Rightarrow> bool" where
  "consistent vs \<longleftrightarrow> (\<forall>v \<in> set vs. \<forall>v' \<in> set vs. agree v v')"

text \<open>A counted vote has been verified against the parent's state.\<close>

definition accepted :: "env \<Rightarrow> Context \<Rightarrow> VoteData \<Rightarrow> bool" where
  "accepted en c v \<longleftrightarrow> VoteData_Valid v (c_Height c) (c_EmptyValue c) \<and>
     verify_credential en (VoteData_SignBytes v) (v_ESignValue v) (v_Credential v) c = Some (None, v_Credential v)"

definition counter_ok :: "env \<Rightarrow> Context \<Rightarrow> bool" where
  "counter_ok en c \<longleftrightarrow> (\<exists>votes. c_counter c = counted (c_Height c) votes \<and> (\<forall>v \<in> set votes. accepted en c v))"

definition soft_major :: "Context \<Rightarrow> u32 \<Rightarrow> hash \<Rightarrow> bool" where
  "soft_major c r v \<longleftrightarrow> major_of (c_counter c) r RoundStep2Filtering = v \<and> v \<noteq> 0 \<and> v \<noteq> c_EmptyValue c"

text \<open>
  A vote the machine has sent lies at or before its position; a certificate vote of the current height
  is for the value with a soft quorum, whose block is ready.
\<close>

definition vote_ok :: "Context \<Rightarrow> VoteData \<Rightarrow> bool" where
  "vote_ok c v \<longleftrightarrow> RoundStep2Filtering \<le> v_Step v \<and> v_Height v \<le> c_Height c \<and>
     (v_Height v = c_Height c \<longrightarrow>
        v_Round v \<le> c_Round c \<and> (v_Round v = c_Round c \<longrightarrow> v_Step v \<le> c_Step c) \<and>
        (v_Step v = RoundStep3Certifying \<longrightarrow> soft_major c (v_Round v) (v_Value v) \<and> ready (v_Value v) c))"

definition here :: "Context \<Rightarrow> TimeoutInfo" where
  "here c = \<lparr>ti_Duration = 0, ti_Height = c_Height c, ti_Round = c_Round c, ti_Step = c_Step c\<rparr>"

definition settled :: "env \<Rightarrow> Context \<Rightarrow> bool" where
  "settled en c \<longleftrightarrow> keyed en c \<and> drained c \<and> counter_ok en c \<and>
     (\<forall>v d. mget (c_ReceivedProposalBlock c) v = Some d \<longrightarrow> proposed en c d) \<and> consistent (votes_out c) \<and>
     (\<forall>v \<in> set (votes_out c). vote_ok c v) \<and>
     sorted_wrt hrs_less (timeouts_out c) \<and> (\<forall>ti \<in> set (timeouts_out c). \<not> hrs_less (here c) ti)"

text \<open>Like \<^const>\<open>quiet\<close>, but votes may be sent.\<close>

definition still :: "env \<Rightarrow> Context \<Rightarrow> Context \<Rightarrow> bool" where
  "still en c c' \<longleftrightarrow>
     c_Height c' = c_Height c \<and> c_Round c' = c_Round c \<and> c_Step c' = c_Step c \<and>
     c_EmptyValue c' = c_EmptyValue c \<and> c_StartingValue c' = c_StartingValue c \<and> c_counter c' = c_counter c \<and>
     c_recover c' = c_recover c \<and> c_state c' = c_state c \<and> c_parent c' = c_parent c \<and>
     c_parentStatedb c' = c_parentStatedb c \<and> timeouts_out c' = timeouts_out c"

lemma still_refl [simp]: "still en c c"
  by (simp add: still_def)

lemma still_trans: "still en c d \<Longrightarrow> still en d e \<Longrightarrow> still en c e"
  by (simp add: still_def)

lemma quiet_still: "quiet en c c' \<Longrightarrow> still en c c'"
  by (simp add: still_def quiet_def)

lemma accepted_cong:
  assumes "c_Height c' = c_Height c" "c_EmptyValue c' = c_EmptyValue c" "c_parent c' = c_parent c"
    "c_parentStatedb c' = c_parentStatedb c"
  shows "accepted en c' v = accepted en c v"
  by (simp add: accepted_def verify_credential_def assms)

lemma settled_quiet:
  assumes "quiet en c c'" "settled en c" shows "settled en c'"
proof -
  have q: "c_Height c' = c_Height c" "c_EmptyValue c' = c_EmptyValue c" "c_parent c' = c_parent c"
    "c_parentStatedb c' = c_parentStatedb c" "c_counter c' = c_counter c" "c_Round c' = c_Round c" "c_Step c' = c_Step c"
    "votes_out c' = votes_out c" "timeouts_out c' = timeouts_out c" "keyed en c \<longrightarrow> keyed en c'" "drained c \<longrightarrow> drained c'"
    and r: "\<And>v. ready v c \<Longrightarrow> ready v c'"
    and p: "\<And>v d. mget (c_ReceivedProposalBlock c') v = Some d \<Longrightarrow> mget (c_ReceivedProposalBlock c) v = Some d \<or> proposed en c d"
    using assms(1) by (simp_all add: quiet_def)
  have "counter_ok en c'" using assms(2) accepted_cong [OF q(1-4)] by (simp add: settled_def counter_ok_def q)
  moreover have "vote_ok c v \<Longrightarrow> vote_ok c' v" for v using r by (simp add: vote_ok_def soft_major_def q)
  moreover have "here c' = here c" by (simp add: here_def q)
  moreover have "\<forall>v d. mget (c_ReceivedProposalBlock c') v = Some d \<longrightarrow> proposed en c' d"
  proof (intro allI impI)
    fix v d assume "mget (c_ReceivedProposalBlock c') v = Some d"
    with p assms(2) have "proposed en c d" unfolding settled_def by blast
    then show "proposed en c' d" using proposed_cong [OF q(1,3,4)] by simp
  qed
  ultimately show ?thesis using assms(2) by (simp add: settled_def q)
qed

lemma settled_state [simp]: "settled en (c\<lparr>c_state := s\<rparr>) = settled en c"
  by (simp add: settled_def keyed_def drained_def counter_ok_def accepted_def proposed_def verify_credential_def votes_out_def
      timeouts_out_def vote_ok_def soft_major_def ready_def here_def)

lemma settled_recover [simp]: "settled en (c\<lparr>c_recover := s\<rparr>) = settled en c"
  by (simp add: settled_def keyed_def drained_def counter_ok_def accepted_def proposed_def verify_credential_def votes_out_def
      timeouts_out_def vote_ok_def soft_major_def ready_def here_def)

text \<open>Moving to a later step or round.\<close>

lemma settled_move:
  assumes "settled en c" "c_Round c < r \<or> c_Round c = r \<and> c_Step c \<le> s"
  shows "settled en (c\<lparr>c_Round := r, c_Step := s\<rparr>)"
proof -
  let ?c = "c\<lparr>c_Round := r, c_Step := s\<rparr>"
  have "ready v ?c = ready v c" for v by (simp add: ready_def)
  then have "vote_ok c v \<Longrightarrow> vote_ok ?c v" for v
    using assms(2) by (auto simp: vote_ok_def soft_major_def dest: leD)
  moreover have "\<not> hrs_less (here c) ti \<Longrightarrow> \<not> hrs_less (here ?c) ti" for ti
    using assms(2) by (auto simp: hrs_less_def here_def)
  moreover have "proposed en ?c d = proposed en c d" for d by (rule proposed_cong) simp_all
  ultimately show ?thesis using assms(1)
    by (simp add: settled_def keyed_def drained_def counter_ok_def accepted_def verify_credential_def votes_out_def
        timeouts_out_def)
qed

lemmas settled_step = settled_move [where r = "c_Round c" and c = c for c, simplified]

lemma settled_starting [simp]: "settled en (c\<lparr>c_StartingValue := s\<rparr>) = settled en c"
  by (simp add: settled_def keyed_def drained_def counter_ok_def accepted_def proposed_def verify_credential_def votes_out_def
      timeouts_out_def vote_ok_def soft_major_def ready_def here_def)

text \<open>Starting the timer of a position none of the scheduled timeouts has reached.\<close>

definition fresh :: "Context \<Rightarrow> bool" where
  "fresh c \<longleftrightarrow> (\<forall>ti \<in> set (timeouts_out c). hrs_less ti (here c))"

definition timed :: "Context \<Rightarrow> bool" where
  "timed c \<longleftrightarrow> timeouts_out c \<noteq> [] \<and> (let ti = last (timeouts_out c)
     in ti_Height ti = c_Height c \<and> ti_Round ti = c_Round c \<and> ti_Step ti = c_Step c)"

lemma startTimer_fields:
  "timeouts_out (startTimer en c) = timeouts_out c @ [(here c)\<lparr>ti_Duration :=
     TimeoutTwoLambdaDuration (cc_Algorand (en_config en)) * timer_factor (c_Round c) (c_Step c)\<rparr>]"
  "votes_out (startTimer en c) = votes_out c"
  "\<exists>out. startTimer en c = c\<lparr>c_out := out\<rparr>"
  by (auto simp: startTimer_def Let_def timeouts_out_def votes_out_def here_def
      split: option.split State.split)

lemma startTimer_simps [simp]:
  "c_Height (startTimer en c) = c_Height c" "c_Round (startTimer en c) = c_Round c" "c_Step (startTimer en c) = c_Step c"
  "c_EmptyValue (startTimer en c) = c_EmptyValue c" "c_StartingValue (startTimer en c) = c_StartingValue c"
  "c_counter (startTimer en c) = c_counter c" "c_recover (startTimer en c) = c_recover c"
  "c_state (startTimer en c) = c_state c" "c_mkm (startTimer en c) = c_mkm c" "c_parent (startTimer en c) = c_parent c"
  "c_parentStatedb (startTimer en c) = c_parentStatedb c"
  "c_ReceivedProposalBlock (startTimer en c) = c_ReceivedProposalBlock c"
  "c_verified (startTimer en c) = c_verified c" "c_verifing (startTimer en c) = c_verifing c"
  using startTimer_fields(3) [of en c] by force+

lemma startTimer_timed [simp]: "timed (startTimer en c)"
  by (simp add: timed_def startTimer_fields(1)) (simp add: here_def)

lemma settled_startTimer:
  assumes "settled en c" "fresh c" shows "settled en (startTimer en c)"
proof -
  have "hrs_less ti ((here c)\<lparr>ti_Duration := d\<rparr>) = hrs_less ti (here c)"
    "\<not> hrs_less (here c) ((here c)\<lparr>ti_Duration := d\<rparr>)" for ti d
    by (simp_all add: hrs_less_def)
  moreover have "here (startTimer en c) = here c" by (simp add: here_def)
  moreover have "proposed en (startTimer en c) d = proposed en c d" for d by (rule proposed_cong) simp_all
  ultimately show ?thesis using assms
    by (auto simp: settled_def fresh_def startTimer_fields(1,2) sorted_wrt_append keyed_def drained_def counter_ok_def
        accepted_def verify_credential_def vote_ok_def soft_major_def ready_def)
qed

lemma fresh_move:
  assumes "settled en c" "c_Round c < r \<or> c_Round c = r \<and> c_Step c < s"
  shows "fresh (c\<lparr>c_Round := r, c_Step := s\<rparr>)"
  using assms by (force simp: settled_def fresh_def here_def hrs_less_def timeouts_out_def)

lemmas fresh_step = fresh_move [where r = "c_Round c" and c = c for c, simplified]

lemma fresh_quiet: "quiet en c c' \<Longrightarrow> fresh c \<Longrightarrow> fresh c'"
  by (simp add: quiet_def fresh_def here_def)

lemma fresh_state [simp]: "fresh (c\<lparr>c_state := s\<rparr>) = fresh c" "fresh (c\<lparr>c_StartingValue := sv\<rparr>) = fresh c"
  by (simp_all add: fresh_def timeouts_out_def here_def)

section \<open>Sending a vote\<close>

lemma sendVote_cases:
  assumes "sendVote en t x sb c = Some c'"
  obtains "quiet en c c'"
  | vote where "v_Value vote = x" "v_Height vote = c_Height c" "v_Round vote = c_Round c" "v_Step vote = c_Step c"
      "votes_out c' = votes_out c @ [vote]" "still en c c'" "\<And>v. ready v c' = ready v c"
      "keyed en c' = keyed en c" "drained c' = drained c" "c_ReceivedProposalBlock c' = c_ReceivedProposalBlock c"
proof -
  define vote where "vote sig = \<lparr>v_Value = x, v_ESignValue = sig, v_Credential = own_credential (c_Step c) sb c\<rparr>" for sig
  have m: "own_credential s sb (c\<lparr>c_mkm := m\<rparr>) = own_credential s sb c" for s m by (simp add: own_credential_def)
  have "quiet en c c' \<or> (\<exists>sig m. c' = broadcastMsg (VoteMsg (vote sig)) (sendToSelf (VoteMsg (vote sig)) (c\<lparr>c_mkm := m\<rparr>)))"
    using assms
    by (auto simp: sendVote_def Let_def m vote_def split: if_splits prod.splits sum.splits option.splits)
  moreover have "c' = broadcastMsg (VoteMsg v) (sendToSelf (VoteMsg v) (c\<lparr>c_mkm := m\<rparr>)) \<Longrightarrow>
      votes_out c' = votes_out c @ [v] \<and> still en c c' \<and> (\<forall>v. ready v c' = ready v c) \<and>
      keyed en c' = keyed en c \<and> drained c' = drained c \<and> c_ReceivedProposalBlock c' = c_ReceivedProposalBlock c" for v m
    by (simp add: broadcastMsg_def sendToSelf_def votes_out_def still_def timeouts_out_def ready_def keyed_def drained_def)
  moreover have "v_Value (vote sig) = x" "v_Height (vote sig) = c_Height c" "v_Round (vote sig) = c_Round c"
    "v_Step (vote sig) = c_Step c" for sig
    by (simp_all add: vote_def own_credential_def)
  ultimately show thesis using that by blast
qed

text \<open>What a vote of each step must satisfy to keep the votes consistent.\<close>

definition may_vote :: "hash \<Rightarrow> Context \<Rightarrow> bool" where
  "may_vote x c \<longleftrightarrow> RoundStep2Filtering \<le> c_Step c \<and>
     (c_Step c = RoundStep2Filtering \<longrightarrow>
        (\<forall>v \<in> set (votes_out c). v_Height v = c_Height c \<longrightarrow> v_Round v \<noteq> c_Round c)) \<and>
     (c_Step c = RoundStep3Certifying \<longrightarrow> soft_major c (c_Round c) x \<and> ready x c) \<and>
     (RoundStep4FirstFinishing \<le> c_Step c \<longrightarrow>
        (\<forall>v \<in> set (votes_out c). v_Height v = c_Height c \<and> v_Round v = c_Round c \<and> v_Step v = RoundStep3Certifying
           \<longrightarrow> v_Value v = x))"

lemma consistent_snoc:
  "consistent (vs @ [w]) \<longleftrightarrow> consistent vs \<and> (\<forall>v \<in> set vs. agree v w \<and> agree w v)"
  by (auto simp: consistent_def agree_def [of w w])

lemma step_after_cert:
  "RoundStep3Certifying \<le> s \<Longrightarrow> s = RoundStep3Certifying \<or> RoundStep4FirstFinishing \<le> s"
  by (simp add: round_step_defs word_le_nat_alt word_unat_eq_iff) arith

lemma sendVote_settled:
  assumes "sendVote en t x sb c = Some c'" "settled en c" "may_vote x c"
  shows "settled en c' \<and> still en c c'"
  using assms(1)
proof (cases rule: sendVote_cases)
  case 1
  then show ?thesis using settled_quiet quiet_still assms(2) by blast
next
  case (2 vote)
  have f: "c_Height c' = c_Height c" "c_EmptyValue c' = c_EmptyValue c" "c_parent c' = c_parent c"
    "c_parentStatedb c' = c_parentStatedb c" "c_counter c' = c_counter c" "c_Round c' = c_Round c"
    "c_Step c' = c_Step c" "timeouts_out c' = timeouts_out c"
    using 2(6) by (simp_all add: still_def)
  have ok: "vote_ok c' v = vote_ok c v" for v by (simp add: vote_ok_def soft_major_def 2(7) f)
  have old: "vote_ok c v" if "v \<in> set (votes_out c)" for v using assms(2) that by (simp add: settled_def)
  have new: "vote_ok c vote" using assms(3) 2(1-4) by (auto simp: vote_ok_def may_vote_def)
  have "agree v vote \<and> agree vote v" if v: "v \<in> set (votes_out c)" for v
    unfolding agree_def 2(1-4)
  proof (intro conjI impI; elim conjE)
    assume p: "c_Height c = v_Height v" "c_Round c = v_Round v"
    show "x = v_Value v" if "v_Step v = RoundStep2Filtering" "c_Step c = RoundStep2Filtering"
      using assms(3) v p that unfolding may_vote_def by metis
    show "x = v_Value v" if "v_Step v = RoundStep3Certifying" "RoundStep3Certifying \<le> c_Step c"
      using assms(3) old [OF v] v p that step_after_cert [OF that(2)]
      by (auto simp: may_vote_def vote_ok_def soft_major_def)
  next
    assume p: "v_Height v = c_Height c" "v_Round v = c_Round c"
    show "v_Value v = x" if "c_Step c = RoundStep2Filtering" "v_Step v = RoundStep2Filtering"
      using assms(3) v p that unfolding may_vote_def by metis
    show "v_Value v = x" if "c_Step c = RoundStep3Certifying" "RoundStep3Certifying \<le> v_Step v"
      using assms(3) old [OF v] p that by (simp add: may_vote_def vote_ok_def soft_major_def)
  qed
  then have "consistent (votes_out c @ [vote])" using assms(2) by (simp add: consistent_snoc settled_def)
  then show ?thesis
    using assms(2) 2(5,6,8-10) old new accepted_cong [OF f(1-4)] proposed_cong [OF f(1,3,4)]
    by (simp add: settled_def counter_ok_def f ok here_def)
qed

section \<open>Soft quorums and ready blocks\<close>

lemma soft_enough_major:
  "IsSoftVoteEnoughForNonEmpty (c_counter c) (c_EmptyValue c) r =
     (let m = major_of (c_counter c) r RoundStep2Filtering
      in if soft_major c r m then (True, m) else (False, c_EmptyValue c))"
  by (auto simp: IsSoftVoteEnoughForNonEmpty_def HeightVoteSet_RoundVoteSet_def GetSoftMajorValue_def EmptyHash_def
      soft_major_def major_of_def step_view_def round_view_def getStepVoteSet_def Let_def VoteTypeOfStep_cases
      NewStepVoteSet_def split: option.splits)

lemma verifyBlockSync_result:
  assumes "verifyBlockSync en bk b c = Some (err, c')"
  defines "k \<equiv> Block_Hash (en_crypto en) b"
  shows "\<exists>r. mget (c_verified c') k = Some r \<and> bs_err r = err"
    and "err = None \<Longrightarrow> c_ReceivedProposalBlock c' = c_ReceivedProposalBlock c"
    and "c_WaitingBlockForValue c' = c_WaitingBlockForValue c"
proof -
  have "(\<exists>r. mget (c_verified c') k = Some r \<and> bs_err r = err) \<and>
    (err = None \<longrightarrow> c_ReceivedProposalBlock c' = c_ReceivedProposalBlock c) \<and>
    c_WaitingBlockForValue c' = c_WaitingBlockForValue c"
  proof (cases "mget (c_verified c) k")
    case None
    with assms obtain e where e: "verifyBlockAsync en bk b c = Some e"
      by (auto simp: verifyBlockSync_def Let_def bind_eq_Some_conv)
    then have "c_ReceivedProposalBlock e = c_ReceivedProposalBlock c" "c_WaitingBlockForValue e = c_WaitingBlockForValue c"
      by (auto simp: verifyBlockAsync_def Let_def split: if_splits)
    moreover from assms None e obtain r rs where "mget (c_verifing e) k = Some (r # rs)"
      by (auto simp: verifyBlockSync_def Let_def split: option.splits list.splits)
    ultimately show ?thesis using assms None e
      by (auto simp: verifyBlockSync_def Let_def saveVerifiedBlockState_def dropProposalBlock_def split: if_splits)
  qed (use assms in \<open>auto simp: verifyBlockSync_def\<close>)
  then show "\<exists>r. mget (c_verified c') k = Some r \<and> bs_err r = err"
    "err = None \<Longrightarrow> c_ReceivedProposalBlock c' = c_ReceivedProposalBlock c"
    "c_WaitingBlockForValue c' = c_WaitingBlockForValue c" by simp_all
qed

lemma verifyBlockSync_ready:
  assumes "getProposalBlock x c = Some d" "keyed en c" "verifyBlockSync en bk (pb_Block d) c = Some (None, c')"
  shows "ready x c'"
  using verifyBlockSync_result [OF assms(3)] assms(1,2) by (auto simp: ready_def keyed_def getProposalBlock_def)

lemma ready_verified:
  assumes "ready x c" "keyed en c"
  obtains d where "getProposalBlock x c = Some d" "verifyBlockSync en bk (pb_Block d) c = Some (None, c)"
  using assms by (auto simp: ready_def keyed_def getProposalBlock_def verifyBlockSync_def)

lemma verifyBlockSync_not_ready:
  assumes "getProposalBlock x c = Some d" "keyed en c" "verifyBlockSync en bk (pb_Block d) c = Some (Some e, c')"
  shows "\<not> ready x c'"
  using verifyBlockSync_result(1) [OF assms(3)] assms(1,2) by (auto simp: ready_def keyed_def getProposalBlock_def)

lemma soft_enough_result:
  assumes "isSoftVoteEnoughForNonEmptyValueWhoseBlockIsReceivedAndValid en bk r c = Some ((b, x), c')" "keyed en c"
  shows "if b then soft_major c r x \<and> ready x c' else \<not> (\<exists>y. soft_major c r y \<and> ready y c')"
proof -
  let ?m = "major_of (c_counter c) r RoundStep2Filtering"
  have "if b then x = ?m \<and> soft_major c r ?m \<and> ready ?m c' else \<not> (soft_major c r ?m \<and> ready ?m c')"
  proof (cases "soft_major c r ?m \<and> getProposalBlock ?m c \<noteq> None")
    case True
    then obtain d where d: "getProposalBlock ?m c = Some d" by blast
    with True assms(1) obtain err where v: "verifyBlockSync en bk (pb_Block d) c = Some (err, c')"
      and "(b, x) = (if err = None then (True, ?m) else (False, 0))"
      by (auto simp: isSoftVoteEnoughForNonEmptyValueWhoseBlockIsReceivedAndValid_def soft_enough_major Let_def
          bind_eq_Some_conv)
    with True show ?thesis
      using verifyBlockSync_ready [OF d assms(2)] verifyBlockSync_not_ready [OF d assms(2)] by (cases err) simp_all
  next
    case False
    with assms(1) show ?thesis
      by (auto simp: isSoftVoteEnoughForNonEmptyValueWhoseBlockIsReceivedAndValid_def soft_enough_major Let_def
          ready_def getProposalBlock_def split: if_splits)
  qed
  then show ?thesis by (cases b) (auto simp: soft_major_def)
qed

text \<open>A certificate vote of the current round fixes the value of the soft quorum, whose block is ready.\<close>

lemma cert_vote_locks:
  assumes "settled en c" "v \<in> set (votes_out c)" "v_Height v = c_Height c" "v_Step v = RoundStep3Certifying"
  shows "soft_major c (v_Round v) (v_Value v) \<and> ready (v_Value v) c"
  using assms by (simp add: settled_def vote_ok_def)

lemma may_next:
  assumes "settled en c" "RoundStep4FirstFinishing \<le> c_Step c"
    and "soft_major c (c_Round c) x \<or> \<not> (\<exists>y. soft_major c (c_Round c) y \<and> ready y c)"
  shows "may_vote x c"
proof -
  have "c_Step c \<noteq> RoundStep2Filtering \<and> c_Step c \<noteq> RoundStep3Certifying \<and> RoundStep2Filtering \<le> c_Step c"
    using assms(2) by (auto simp: round_step_defs word_le_nat_alt)
  moreover have "v_Value v = x" if "v \<in> set (votes_out c)" "v_Height v = c_Height c" "v_Round v = c_Round c"
    "v_Step v = RoundStep3Certifying" for v
    using cert_vote_locks [OF assms(1) that(1,2,4)] assms(3) that(3) unfolding soft_major_def by metis
  ultimately show ?thesis by (simp add: may_vote_def)
qed

lemma may_cert:
  "c_Step c = RoundStep3Certifying \<Longrightarrow> soft_major c (c_Round c) x \<Longrightarrow> ready x c \<Longrightarrow> may_vote x c"
  by (simp add: may_vote_def round_step_defs)

section \<open>Entering states\<close>

definition waiting_ok :: "Context \<Rightarrow> hash \<Rightarrow> bool" where
  "waiting_ok c w \<longleftrightarrow> w = 0 \<or> soft_major c (c_Round c) w"

text \<open>Between events the machine is in one of three states, whose step fits, with its timer running.\<close>

definition parked :: "Context \<Rightarrow> bool" where
  "parked c \<longleftrightarrow> BadRound < c_Round c \<and> timed c \<and>
     (case c_state c of
        Some (StateProposal _ _ _) \<Rightarrow> c_Step c = RoundStep1Proposal
      | Some (StateCertifying _ w) \<Rightarrow> c_Step c = RoundStep3Certifying \<and> waiting_ok c w
      | Some (StateSecondFinishing _ w) \<Rightarrow> RoundStep4FirstFinishing < c_Step c \<and> odd (c_Step c) \<and> waiting_ok c w
      | _ \<Rightarrow> False)"

lemma parked_still: "still en c c' \<Longrightarrow> parked c \<Longrightarrow> parked c'"
  by (simp add: still_def parked_def timed_def waiting_ok_def soft_major_def split: option.splits State.splits)

lemma timed_quiet: "quiet en c c' \<Longrightarrow> timed c' = timed c"
  by (simp add: quiet_def timed_def)

lemma timed_state [simp]: "timed (c\<lparr>c_state := s\<rparr>) = timed c"
  by (simp add: timed_def timeouts_out_def)

lemma switchState_quiet:
  assumes "switchState s c = Some c'"
  obtains d where "quiet en c d" "c' = d\<lparr>c_state := Some s\<rparr>"
  using assms by (auto simp: switchState_def dest: quiet_OnExit)

lemma unat_step_succ: "s < 0xFFFFFFFF \<Longrightarrow> unat (s + 1) = unat s + 1" for s :: u32
  by (simp add: unat_word_ariths word_less_nat_alt)

lemma step_succ:
  fixes s :: u32 assumes "s < 0xFFFFFFF0"
  shows "s < s + 1" "s + 1 < s + 2"
proof -
  have "unat (s + 1) = unat s + 1" using assms by (intro unat_step_succ) (simp add: word_less_nat_alt)
  moreover from this have "unat (s + 1 + 1) = unat s + 2" using assms by (subst unat_step_succ) (simp_all add: word_less_nat_alt)
  moreover have "s + 1 + 1 = s + 2" by simp
  ultimately show "s < s + 1" "s + 1 < s + 2" by (simp_all add: word_less_nat_alt)
qed

lemma step_four: "RoundStep3Certifying \<le> s \<Longrightarrow> s < s + 1 \<Longrightarrow> RoundStep4FirstFinishing \<le> s + 1" for s :: u32
  by (metis RoundStep3Certifying_def RoundStep4FirstFinishing_def inc_le numeral_plus_one
      order_le_less_trans semiring_norm(2) semiring_norm(8))

lemma quietD:
  assumes "quiet en c c'"
  shows "c_Height c' = c_Height c" "c_Round c' = c_Round c" "c_Step c' = c_Step c" "c_EmptyValue c' = c_EmptyValue c"
    "c_StartingValue c' = c_StartingValue c" "c_counter c' = c_counter c" "c_recover c' = c_recover c"
    "c_state c' = c_state c" "votes_out c' = votes_out c" "timeouts_out c' = timeouts_out c"
  using assms by (simp_all add: quiet_def)

text \<open>Where an operation leaves the machine: at the same height, at the given round and step, parked.\<close>

definition reaches :: "env \<Rightarrow> Context \<Rightarrow> u32 \<Rightarrow> u32 \<Rightarrow> Context \<Rightarrow> bool" where
  "reaches en c r s c' \<longleftrightarrow> settled en c' \<and> parked c' \<and> c_Height c' = c_Height c \<and> c_Round c' = r \<and> c_Step c' = s \<and>
     c_recover c' = c_recover c"

lemma gotoSecondFinishing_reaches:
  assumes "gotoSecondFinishing en bk c = Some c'" "settled en c" "BadRound < c_Round c"
    and "RoundStep4FirstFinishing \<le> c_Step c" "even (c_Step c)" "c_Step c < c_Step c + 1"
  shows "reaches en c (c_Round c) (c_Step c + 1) c'"
proof -
  obtain e sb f where e: "switchState (StateSecondFinishing zeroBase 0) c = Some e"
    and f: "Context_sortition en (startTimer en (e\<lparr>c_Step := c_Step e + 1\<rparr>)) = Some (sb, f)"
    and c': "c' = f\<lparr>c_state := Some (StateSecondFinishing sb 0)\<rparr>"
    using assms(1) by (auto simp: gotoSecondFinishing_def SecondFinishing_OnEnter_def bind_eq_Some_conv Let_def)
  obtain d where d: "quiet en c d" "e = d\<lparr>c_state := Some (StateSecondFinishing zeroBase 0)\<rparr>"
    using e by (rule switchState_quiet)
  note q = quietD [OF d(1)] and q' = quietD [OF quiet_sortition [OF f]]
  have "settled en e" "c_Step e < c_Step e + 1"
    using settled_quiet [OF d(1) assms(2)] assms(6) d(2) q by simp_all
  then have "settled en (startTimer en (e\<lparr>c_Step := c_Step e + 1\<rparr>))"
    by (intro settled_startTimer settled_step fresh_step) simp_all
  then have "settled en c'" using settled_quiet [OF quiet_sortition [OF f]] c' by simp
  moreover have "timed c'" using timed_quiet [OF quiet_sortition [OF f]] c' by simp
  moreover have "RoundStep4FirstFinishing < c_Step c + 1" using assms(4,6) by (rule order.strict_trans1)
  ultimately show ?thesis using assms(3,5) q q' d(2) c'
    by (simp add: reaches_def parked_def waiting_ok_def)
qed

lemma FirstFinishing_votes:
  assumes "sendVote en t x sb c = Some c'" "settled en c" "RoundStep4FirstFinishing \<le> c_Step c"
    and "soft_major c (c_Round c) x \<or> \<not> (\<exists>y. soft_major c (c_Round c) y \<and> ready y c)"
  shows "settled en c' \<and> still en c c'"
  using sendVote_settled [OF assms(1,2) may_next [OF assms(2-4)]] .

lemma gotoFirstFinishing_reaches:
  assumes "gotoFirstFinishing en bk c = Some c'" "settled en c" "BadRound < c_Round c"
    and "RoundStep3Certifying \<le> c_Step c" "odd (c_Step c)" "c_Step c < 0xFFFFFFF0"
  shows "reaches en c (c_Round c) (c_Step c + 2) c'"
proof -
  obtain e sb f where e: "switchState (StateFirstFinishing zeroBase) c = Some e"
    and f: "Context_sortition en (e\<lparr>c_Step := c_Step e + 1\<rparr>) = Some (sb, f)"
    using assms(1) by (auto simp: gotoFirstFinishing_def FirstFinishing_OnEnter_def bind_eq_Some_conv)
  obtain d where d: "quiet en c d" "e = d\<lparr>c_state := Some (StateFirstFinishing zeroBase)\<rparr>"
    using e by (rule switchState_quiet)
  define g where "g = f\<lparr>c_state := Some (StateFirstFinishing sb)\<rparr>"
  note q = quietD [OF d(1)] and q' = quietD [OF quiet_sortition [OF f]]
  note lt = step_succ [OF assms(6)]
  have g: "c_Height g = c_Height c" "c_Round g = c_Round c" "c_Step g = c_Step c + 1" "c_recover g = c_recover c"
    using q q' d(2) by (simp_all add: g_def)
  have "settled en (e\<lparr>c_Step := c_Step e + 1\<rparr>)"
    using settled_quiet [OF d(1) assms(2)] lt(1) d(2) q by (intro settled_step) simp_all
  then have sg: "settled en g" using settled_quiet [OF quiet_sortition [OF f]] by (simp add: g_def)
  have s4: "RoundStep4FirstFinishing \<le> c_Step c + 1"
    using assms(4) lt(1) by (rule step_four)
  have "\<exists>h. gotoSecondFinishing en bk h = Some c' \<and> settled en h \<and> still en g h"
  proof (cases "sb_weight sb = 0")
    case True
    with assms(1) e f sg show ?thesis
      by (auto simp: gotoFirstFinishing_def FirstFinishing_OnEnter_def Let_def g_def)
  next
    case False
    with assms(1) e f obtain b x h k where
      h: "isSoftVoteEnoughForNonEmptyValueWhoseBlockIsReceivedAndValid en bk (c_Round g) g = Some ((b, x), h)"
      and k: "(if b then sendVote en VoteTypeNext x sb h
             else if 2 \<le> c_Round h \<and> isNextVoteEnoughForEmpty (c_Round h - 1) h
             then sendVote en VoteTypeNext (c_EmptyValue h) sb h
             else sendVote en VoteTypeNext (c_StartingValue h) sb h) = Some k"
      and c': "gotoSecondFinishing en bk k = Some c'"
      by (auto simp: gotoFirstFinishing_def FirstFinishing_OnEnter_def bind_eq_Some_conv Let_def g_def)
    have keyed: "keyed en g" using sg by (simp add: settled_def)
    have sh: "settled en h" "still en g h"
      using settled_quiet [OF quiet_soft_enough [OF h] sg] quiet_still [OF quiet_soft_enough [OF h]] by simp_all
    note q'' = quietD [OF quiet_soft_enough [OF h]]
    have nv: "soft_major h (c_Round h) y \<or> \<not> (\<exists>y. soft_major h (c_Round h) y \<and> ready y h)"
      if "b \<longrightarrow> y = x" for y
      using soft_enough_result [OF h keyed] q'' that by (auto simp: soft_major_def split: if_splits)
    have "settled en k \<and> still en h k"
      using k sh(1) s4 g(3) q''(3) nv FirstFinishing_votes by (simp split: if_splits)
    with c' sh show ?thesis using still_trans by blast
  qed
  then obtain h where h: "gotoSecondFinishing en bk h = Some c'" "settled en h" "still en g h" by blast
  have fh: "c_Height h = c_Height c" "c_Round h = c_Round c" "c_Step h = c_Step c + 1" "c_recover h = c_recover c"
    using h(3) g by (simp_all add: still_def)
  have "reaches en h (c_Round h) (c_Step h + 1) c'"
    using gotoSecondFinishing_reaches [OF h(1,2)] assms(3,5) s4 lt fh by (simp add: add.commute)
  then show ?thesis by (simp add: reaches_def fh)
qed

text \<open>No header hashes to zero, the value that stands for none.\<close>

definition hash_nonzero :: "env \<Rightarrow> bool" where
  "hash_nonzero en \<longleftrightarrow> (\<forall>h. Header_Hash (en_crypto en) h \<noteq> 0)"

lemma no_zero_block: "hash_nonzero en \<Longrightarrow> keyed en c \<Longrightarrow> getProposalBlock 0 c = None"
  by (auto simp: hash_nonzero_def keyed_def getProposalBlock_def Block_Hash_def) (metis not_None_eq)

abbreviation stays :: "env \<Rightarrow> Context \<Rightarrow> Context \<Rightarrow> bool" where
  "stays en c c' \<equiv> reaches en c (c_Round c) (c_Step c) c'"

lemma stays_still: "settled en c' \<Longrightarrow> still en c c' \<Longrightarrow> parked c \<Longrightarrow> stays en c c'"
  using parked_still [of en c c'] by (auto simp: reaches_def still_def)

lemma stays_quiet: "settled en c \<Longrightarrow> parked c \<Longrightarrow> quiet en c c' \<Longrightarrow> stays en c c'"
  by (rule stays_still) (auto intro: settled_quiet quiet_still)

lemma stays_trans: "stays en c d \<Longrightarrow> reaches en d r s e \<Longrightarrow> reaches en c r s e"
  by (simp add: reaches_def)

lemma tryCertValue_stays:
  assumes "tryCertValue en bk sb x c = Some c'" "settled en c" "parked c" "hash_nonzero en"
    and "c_state c = Some (StateCertifying sb w)" "x = 0 \<or> soft_major c (c_Round c) x"
  shows "stays en c c'"
proof (cases "getProposalBlock x c")
  case None
  with assms(1) have c': "c' = emit (RequestBlock (makeChanId (c_Height c) (c_Round c)) x)
                  (c\<lparr>c_state := Some (StateCertifying sb x)\<rparr>)" by (simp add: tryCertValue_def)
  have "parked (c\<lparr>c_state := Some (StateCertifying sb x)\<rparr>)"
    using assms(3,5,6) by (auto simp: parked_def waiting_ok_def soft_major_def)
  with assms(2) have "stays en (c\<lparr>c_state := Some (StateCertifying sb x)\<rparr>) c'"
    unfolding c' by (intro stays_quiet) (simp_all add: quiet_defs)
  then show ?thesis by (simp add: reaches_def)
next
  case (Some d)
  have k: "keyed en c" using assms(2) by (simp add: settled_def)
  with Some assms(4,6) have x: "soft_major c (c_Round c) x" using no_zero_block by fastforce
  from Some assms(1) obtain err e where v: "verifyBlockSync en bk (pb_Block d) c = Some (err, e)"
    and c': "(if err \<noteq> None then Some e else sendVote en VoteTypeCert x sb e) = Some c'"
    by (auto simp: tryCertValue_def bind_eq_Some_conv)
  note q = quiet_verifyBlockSync [OF v]
  have e: "stays en c e" using assms(2,3) q by (rule stays_quiet)
  show ?thesis
  proof (cases err)
    case None
    have "c_Step e = RoundStep3Certifying" using assms(3,5) quietD [OF q] by (simp add: parked_def)
    moreover have "ready x e" using verifyBlockSync_ready [OF Some k] v None by simp
    moreover have "soft_major e (c_Round e) x" using x quietD [OF q] by (simp add: soft_major_def)
    ultimately have "may_vote x e" by (intro may_cert)
    then have "settled en c' \<and> still en e c'"
      using c' None e by (intro sendVote_settled) (simp_all add: reaches_def)
    then have "stays en e c'" using e by (intro stays_still) (simp_all add: reaches_def)
    with e show ?thesis by (auto simp: reaches_def)
  qed (use c' e in simp)
qed

lemma gotoCertifying_reaches:
  assumes "gotoCertifying en bk c = Some c'" "settled en c" "hash_nonzero en"
    and "BadRound < c_Round c" "c_Step c = RoundStep2Filtering"
  shows "reaches en c (c_Round c) RoundStep3Certifying c'"
proof -
  obtain e sb f where e: "switchState (StateCertifying zeroBase 0) c = Some e"
    and f: "Context_sortition en (startTimer en (e\<lparr>c_Step := RoundStep3Certifying\<rparr>)) = Some (sb, f)"
    using assms(1) by (auto simp: gotoCertifying_def Certifying_OnEnter_def bind_eq_Some_conv)
  obtain d where d: "quiet en c d" "e = d\<lparr>c_state := Some (StateCertifying zeroBase 0)\<rparr>"
    using e by (rule switchState_quiet)
  note q = quietD [OF d(1)] and q' = quietD [OF quiet_sortition [OF f]]
  define g where "g = f\<lparr>c_state := Some (StateCertifying sb 0)\<rparr>"
  have "settled en e" "c_Step e < RoundStep3Certifying"
    using settled_quiet [OF d(1) assms(2)] assms(5) d(2) q by (simp_all add: round_step_defs)
  then have "settled en (startTimer en (e\<lparr>c_Step := RoundStep3Certifying\<rparr>))"
    by (intro settled_startTimer settled_step fresh_step) simp_all
  then have sg: "settled en g" using settled_quiet [OF quiet_sortition [OF f]] by (simp add: g_def)
  have pg: "parked g"
    using timed_quiet [OF quiet_sortition [OF f]] assms(4) q q' d(2) by (simp add: g_def parked_def waiting_ok_def)
  have gc: "c_Height g = c_Height c" "c_Round g = c_Round c" "c_Step g = RoundStep3Certifying" "c_recover g = c_recover c"
    using q q' d(2) by (simp_all add: g_def)
  have "stays en g c'"
  proof (cases "sb_weight sb = 0 \<or> \<not> fst (IsSoftVoteEnoughForNonEmpty (c_counter g) (c_EmptyValue g) (c_Round g))")
    case True
    with assms(1) e f have "c' = g"
      by (auto simp: gotoCertifying_def Certifying_OnEnter_def Let_def g_def case_prod_beta split: if_splits)
    with sg pg show ?thesis by (simp add: reaches_def)
  next
    case False
    let ?x = "snd (IsSoftVoteEnoughForNonEmpty (c_counter g) (c_EmptyValue g) (c_Round g))"
    from False assms(1) e f have "tryCertValue en bk sb ?x g = Some c'"
      by (auto simp: gotoCertifying_def Certifying_OnEnter_def Let_def g_def case_prod_beta split: if_splits)
    moreover have "soft_major g (c_Round g) ?x"
      using False by (auto simp: soft_enough_major Let_def split: if_splits)
    ultimately show ?thesis using sg pg assms(3) by (intro tryCertValue_stays) (auto simp: g_def)
  qed
  then show ?thesis using gc by (simp add: reaches_def)
qed

lemma no_vote_yet:
  assumes "settled en c" "c_Step c = RoundStep1Proposal" "v \<in> set (votes_out c)" "v_Height v = c_Height c"
  shows "v_Round v \<noteq> c_Round c"
proof
  assume "v_Round v = c_Round c"
  with assms have "RoundStep2Filtering \<le> v_Step v" "v_Step v \<le> RoundStep1Proposal"
    by (auto simp: settled_def vote_ok_def)
  then have "RoundStep2Filtering \<le> RoundStep1Proposal" by (rule order_trans)
  then show False by (simp add: round_step_defs word_le_nat_alt)
qed

lemma gotoFiltering_reaches:
  assumes "gotoFiltering en bk c = Some c'" "settled en c" "hash_nonzero en"
    and "BadRound < c_Round c" "c_Step c = RoundStep1Proposal"
  shows "reaches en c (c_Round c) RoundStep3Certifying c'"
proof -
  obtain e sb f where e: "switchState (StateFiltering zeroBase) c = Some e"
    and f: "Context_sortition en (e\<lparr>c_Step := RoundStep2Filtering\<rparr>) = Some (sb, f)"
    using assms(1) by (auto simp: gotoFiltering_def Filtering_OnEnter_def bind_eq_Some_conv)
  obtain d where d: "quiet en c d" "e = d\<lparr>c_state := Some (StateFiltering zeroBase)\<rparr>"
    using e by (rule switchState_quiet)
  note q = quietD [OF d(1)] and q' = quietD [OF quiet_sortition [OF f]]
  define g where "g = f\<lparr>c_state := Some (StateFiltering sb)\<rparr>"
  have "settled en (e\<lparr>c_Step := RoundStep2Filtering\<rparr>)"
    using settled_quiet [OF d(1) assms(2)] assms(5) d(2) q by (intro settled_step) (simp_all add: round_step_defs)
  then have sg: "settled en g" using settled_quiet [OF quiet_sortition [OF f]] by (simp add: g_def)
  have gc: "c_Height g = c_Height c" "c_Round g = c_Round c" "c_Step g = RoundStep2Filtering" "c_recover g = c_recover c"
    "votes_out g = votes_out c"
    using q q' d(2) by (simp_all add: g_def votes_out_def)
  have may: "may_vote x g" for x
    using no_vote_yet [OF assms(2,5)] gc by (auto simp: may_vote_def round_step_defs)
  have "\<exists>h. gotoCertifying en bk h = Some c' \<and> settled en h \<and> still en g h"
  proof (cases "sb_weight sb = 0")
    case True
    with assms(1) e f sg show ?thesis by (auto simp: gotoFiltering_def Filtering_OnEnter_def Let_def g_def)
  next
    case False
    with assms(1) e f obtain h where c': "gotoCertifying en bk h = Some c'"
      and h: "h = g \<or> (\<exists>x. sendVote en VoteTypeSoft x sb g = Some h)"
      by (auto simp: gotoFiltering_def Filtering_OnEnter_def bind_eq_Some_conv Let_def g_def split: if_splits option.splits)
    with sg sendVote_settled [OF _ sg may] show ?thesis by auto
  qed
  then obtain h where h: "gotoCertifying en bk h = Some c'" "settled en h" "still en g h" by blast
  have fh: "c_Height h = c_Height c" "c_Round h = c_Round c" "c_Step h = RoundStep2Filtering" "c_recover h = c_recover c"
    using h(3) gc by (simp_all add: still_def)
  have "reaches en h (c_Round h) RoundStep3Certifying c'"
    using gotoCertifying_reaches [OF h(1,2) assms(3)] assms(4) fh by simp
  then show ?thesis by (simp add: reaches_def fh)
qed

lemma gotoProposal_reaches:
  assumes "gotoProposal en bk r sv c = Some c'" "settled en c" "c_Round c < r"
  shows "reaches en c r RoundStep1Proposal c'"
proof -
  obtain e where e: "switchState (StateProposal zeroBase r sv) c = Some e"
    and c': "Proposal_OnEnter en bk r sv e = Some c'"
    using assms(1) by (auto simp: gotoProposal_def bind_eq_Some_conv)
  obtain d where d: "quiet en c d" "e = d\<lparr>c_state := Some (StateProposal zeroBase r sv)\<rparr>"
    using e by (rule switchState_quiet)
  define f where "f = e\<lparr>c_Round := r, c_StartingValue := sv, c_Step := RoundStep1Proposal\<rparr>"
  define m where "m = StatusMsg \<lparr>sd_Height = c_Height f, sd_Round = c_Round f\<rparr>"
  obtain sb g where g: "Context_sortition en (startTimer en (broadcastMsg m f)) = Some (sb, g)"
    using c' unfolding Proposal_OnEnter_def f_def m_def by (auto simp: Let_def bind_eq_Some_conv)
  define h where "h = g\<lparr>c_state := Some (StateProposal sb r sv)\<rparr>"
  note q = quietD [OF d(1)] and qb = quietD [OF quiet_broadcastMsg [of en f m]] and q' = quietD [OF quiet_sortition [OF g]]
  have "settled en e" "c_Round e < r" using settled_quiet [OF d(1) assms(2)] assms(3) d(2) q by simp_all
  moreover have "f = e\<lparr>c_Round := r, c_Step := RoundStep1Proposal\<rparr>\<lparr>c_StartingValue := sv\<rparr>" by (simp add: f_def)
  ultimately have "settled en f" "fresh f" by (simp_all only: settled_starting fresh_state) (simp_all add: settled_move fresh_move)
  then have "settled en (startTimer en (broadcastMsg m f))"
    by (intro settled_startTimer settled_quiet [OF quiet_broadcastMsg] fresh_quiet [OF quiet_broadcastMsg])
  then have sh: "settled en h" using settled_quiet [OF quiet_sortition [OF g]] by (simp add: h_def)
  have hc: "c_Height h = c_Height c" "c_Round h = r" "c_Step h = RoundStep1Proposal" "c_recover h = c_recover c"
    using q q' qb d(2) by (simp_all add: h_def f_def)
  have "BadRound < r" using assms(3) by (simp add: BadRound_def word_gt_0) auto
  then have ph: "parked h"
    using timed_quiet [OF quiet_sortition [OF g]] hc by (simp add: h_def parked_def)
  have "quiet en h c'"
    using c' g unfolding Proposal_OnEnter_def f_def [symmetric] Let_def m_def [symmetric]
    by (auto simp: bind_eq_Some_conv h_def [symmetric] f_def [symmetric] m_def [symmetric]
        split: if_splits option.splits dest!: quiet_sendProposal quiet_NewBlock intro: context_quiet_trans)
  with sh ph have "stays en h c'" by (rule stays_quiet)
  then show ?thesis using hc by (simp add: reaches_def)
qed

lemma quiet_resetParent:
  "resetParentRoundVoteSet c = Some c' \<Longrightarrow> quiet en c c'"
  "resetParentProposalBlockData en bk c = Some c' \<Longrightarrow> quiet en c c'"
  by (auto simp: resetParentRoundVoteSet_def resetParentProposalBlockData_def Let_def quiet_defs split: if_splits)

text \<open>A height can be entered from any context whose votes and timeouts lie below it.\<close>

definition below :: "u64 \<Rightarrow> Context \<Rightarrow> bool" where
  "below h c \<longleftrightarrow> consistent (votes_out c) \<and> sorted_wrt hrs_less (timeouts_out c) \<and>
     (\<forall>v \<in> set (votes_out c). RoundStep2Filtering \<le> v_Step v \<and> v_Height v < h) \<and>
     (\<forall>ti \<in> set (timeouts_out c). ti_Height ti < h)"

lemma settled_below: "settled en c \<Longrightarrow> c_Height c < h \<Longrightarrow> below h c"
  by (fastforce simp: settled_def below_def vote_ok_def here_def hrs_less_def not_less)

lemma NewHeight_settled:
  assumes "below (Block_Number parent + 1) c"
  shows "settled en (NewHeight_init en s parent c)"
proof -
  have "counted h [] = NewHeightVoteSet" for h by simp
  then show ?thesis using assms
    by (force simp: settled_def below_def NewHeight_init_def Let_def keyed_def drained_def counter_ok_def
        votes_out_def timeouts_out_def vote_ok_def here_def hrs_less_def Block_Number_def NumberU64_def
        intro: exI [of _ "[]"])
qed

lemma NewHeight_reaches:
  assumes "NewHeight_OnEnter en bk b c = Some c'" "below (Block_Number b + 1) c"
  shows "settled en c' \<and> parked c' \<and> c_Height c' = Block_Number b + 1 \<and> c_Round c' = 1 \<and>
    c_Step c' = RoundStep1Proposal \<and> c_recover c' = c_recover c"
proof -
  obtain st d e where d: "resetParentRoundVoteSet (NewHeight_init en st b c) = Some d"
    and e: "resetParentProposalBlockData en bk d = Some e" and c': "gotoProposal en bk 1 (c_EmptyValue e) e = Some c'"
    using assms(1) by (auto simp: NewHeight_OnEnter_def bind_eq_Some_conv)
  have q: "quiet en (NewHeight_init en st b c) e" by (rule context_quiet_trans [OF quiet_resetParent(1) [OF d] quiet_resetParent(2) [OF e]])
  have "settled en e" using settled_quiet [OF q NewHeight_settled [OF assms(2)]] .
  moreover have "c_Round e < 1" "c_Height e = Block_Number b + 1" "c_recover e = c_recover c"
    using quietD [OF q]
    by (simp_all add: NewHeight_init_def Let_def BadRound_def Block_Number_def NumberU64_def)
  ultimately show ?thesis using gotoProposal_reaches [OF c'] by (simp add: reaches_def)
qed

section \<open>Reactions\<close>

text \<open>Where an event of the same height leaves the machine: at its position or a later one.\<close>

definition onward :: "env \<Rightarrow> Context \<Rightarrow> Context \<Rightarrow> bool" where
  "onward en c c' \<longleftrightarrow>
     (\<exists>r s. reaches en c r s c' \<and> (c_Round c < r \<or> c_Round c = r \<and> c_Step c \<le> s))"

lemma onward_stays: "stays en c c' \<Longrightarrow> onward en c c'"
  by (auto simp: onward_def)

lemma onward_quiet: "settled en c \<Longrightarrow> parked c \<Longrightarrow> quiet en c c' \<Longrightarrow> onward en c c'"
  by (rule onward_stays) (rule stays_quiet)

lemma stays_onward: "stays en c d \<Longrightarrow> onward en d e \<Longrightarrow> onward en c e"
  by (auto simp: onward_def reaches_def)

lemma stays_refl: "settled en c \<Longrightarrow> parked c \<Longrightarrow> stays en c c"
  by (simp add: reaches_def)

lemma staysD: "stays en c d \<Longrightarrow> settled en d" "stays en c d \<Longrightarrow> parked d"
  by (simp_all add: reaches_def)

text \<open>A next vote for a value whose block has just been verified.\<close>

lemma next_vote_stays:
  assumes "sendVote en t x sb c = Some c'" "settled en c" "parked c" "RoundStep4FirstFinishing \<le> c_Step c"
    and "soft_major c (c_Round c) x \<or> \<not> (\<exists>y. soft_major c (c_Round c) y \<and> ready y c)"
  shows "stays en c c'"
  using FirstFinishing_votes [OF assms(1,2,4,5)] assms(3) by (auto intro: stays_still)

lemma OnSoftVoteEnough_stays:
  assumes "OnSoftVoteEnough en bk x r c = Some c'" "settled en c" "parked c" "hash_nonzero en"
    and "x = 0 \<or> x = c_EmptyValue c \<or> soft_major c r x"
  shows "stays en c c'"
proof (cases "\<exists>sb w. c_state c = Some (StateCertifying sb w) \<and> 0 < sb_weight sb \<and> r = c_Round c \<and> x \<noteq> c_EmptyValue c")
  case True
  then obtain sb w where c: "c_state c = Some (StateCertifying sb w)" and t: "tryCertValue en bk sb x c = Some c'"
    and r: "r = c_Round c" "x \<noteq> c_EmptyValue c" using assms(1) by (auto simp: OnSoftVoteEnough_def)
  show ?thesis using tryCertValue_stays [OF t assms(2-4) c] assms(5) r by simp
next
  case nc: False
  show ?thesis
  proof (cases "\<exists>sb w. c_state c = Some (StateSecondFinishing sb w) \<and> 0 < sb_weight sb \<and> r = c_Round c \<and> x \<noteq> c_EmptyValue c")
    case True
    then obtain sb w where c: "c_state c = Some (StateSecondFinishing sb w)"
      and r: "0 < sb_weight sb" "r = c_Round c" "x \<noteq> c_EmptyValue c" by blast
    have x: "x = 0 \<or> soft_major c (c_Round c) x" using assms(5) r by simp
    show ?thesis
    proof (cases "getProposalBlock x c")
      case None
      with assms(1) c r have c': "c' = c\<lparr>c_state := Some (StateSecondFinishing sb x)\<rparr>"
        by (simp add: OnSoftVoteEnough_def)
      show ?thesis using assms(2,3) c x unfolding c'
        by (auto simp: reaches_def parked_def waiting_ok_def soft_major_def)
    next
      case (Some d)
      with assms(1) c r obtain err e where v: "verifyBlockSync en bk (pb_Block d) c = Some (err, e)"
        and c': "(if err \<noteq> None then Some e else sendVote en VoteTypeNext x sb e) = Some c'"
        by (auto simp: OnSoftVoteEnough_def bind_eq_Some_conv)
      note q = quiet_verifyBlockSync [OF v]
      have e: "stays en c e" using assms(2,3) q by (rule stays_quiet)
      have "soft_major c (c_Round c) x" using x Some no_zero_block [OF assms(4)] assms(2) by (auto simp: settled_def)
      then have "soft_major e (c_Round e) x" using quietD [OF q] by (simp add: soft_major_def)
      moreover have "RoundStep4FirstFinishing \<le> c_Step e" using assms(3) c quietD [OF q] by (simp add: parked_def less_imp_le)
      ultimately show ?thesis using c' e staysD [OF e] next_vote_stays [of en VoteTypeNext x sb e c']
        by (auto split: if_splits intro: stays_trans simp: reaches_def)
    qed
  next
    case False
    with nc assms(1) have "c' = c" by (auto simp: OnSoftVoteEnough_def split: option.splits State.splits if_splits)
    then show ?thesis using assms(2,3) by (simp add: reaches_def)
  qed
qed

lemma OnNextVoteEnough_onward:
  assumes "OnNextVoteEnough en bk x r c = Some (ev, c')" "settled en c" "parked c" "r < 0xFFFFFFFF"
  shows "onward en c c'"
proof (cases "c_Round c \<le> r")
  case True
  with assms(1) have g: "gotoProposal en bk (r + 1) x c = Some c'" by (auto simp: OnNextVoteEnough_def)
  have "c_Round c < r + 1" using True unat_step_succ [OF assms(4)] by (simp add: word_less_nat_alt word_le_nat_alt)
  with gotoProposal_reaches [OF g assms(2)] show ?thesis by (auto simp: onward_def)
next
  case False
  show ?thesis
  proof (cases "\<exists>sb w. c_state c = Some (StateSecondFinishing sb w) \<and> 0 < sb_weight sb \<and> 2 \<le> c_Round c \<and>
      c_Round c - 1 = r \<and> x = c_EmptyValue c")
    case True
    with False assms(1) obtain sb w b y e where c: "c_state c = Some (StateSecondFinishing sb w)"
      and e: "isSoftVoteEnoughForNonEmptyValueWhoseBlockIsReceivedAndValid en bk (c_Round c) c = Some ((b, y), e)"
      and c': "if b then c' = e else sendVote en VoteTypeNext (c_EmptyValue e) sb e = Some c'"
      by (auto simp: OnNextVoteEnough_def bind_eq_Some_conv split: if_splits)
    note q = quiet_soft_enough [OF e]
    have se: "stays en c e" using assms(2,3) q by (rule stays_quiet)
    have "stays en e c'"
    proof (cases b)
      case True
      with c' staysD [OF se] show ?thesis by (simp add: reaches_def)
    next
      case False
      then have "\<not> (\<exists>y. soft_major e (c_Round e) y \<and> ready y e)"
        using soft_enough_result [OF e] assms(2) quietD [OF q] by (simp add: settled_def soft_major_def)
      moreover have "RoundStep4FirstFinishing \<le> c_Step e"
        using assms(3) c quietD [OF q] by (simp add: parked_def less_imp_le)
      ultimately show ?thesis using False c' staysD [OF se] next_vote_stays by simp
    qed
    with se show ?thesis by (blast intro: stays_onward onward_stays)
  next
    case nc: False
    with False assms(1) have "c' = c" by (auto simp: OnNextVoteEnough_def split: option.splits State.splits if_splits)
    then show ?thesis using assms(2,3) by (simp add: onward_stays stays_refl)
  qed
qed

text \<open>A block whose verification has failed is not verified again.\<close>

definition known_bad :: "env \<Rightarrow> ProposalBlockData \<Rightarrow> Context \<Rightarrow> bool" where
  "known_bad en d c \<longleftrightarrow>
     (\<exists>r. mget (c_verified c) (Block_Hash (en_crypto en) (pb_Block d)) = Some r \<and> bs_err r \<noteq> None)"

lemma Base_unchanged:
  assumes "Base_OnProposalDataComplete en bk d c = Some (Unchanged, e)"
    and "getProposalBlock (Block_Hash (en_crypto en) (pb_Block d)) c = Some d"
  shows "e = c \<or> known_bad en d e"
proof (cases "c_WaitingBlockForValue c = Block_Hash (en_crypto en) (pb_Block d)")
  case True
  with assms(1) obtain err f where v: "verifyBlockSync en bk (pb_Block d) c = Some (err, f)"
    and e: "if err = None then OnCertVoteEnough en bk (c_WaitingBlockForValue f) (c_WaitingBlockForRound f) f = Some (Unchanged, e)
      else f = e"
    by (auto simp: Base_OnProposalDataComplete_def bind_eq_Some_conv split: if_splits)
  show ?thesis
  proof (cases err)
    case None
    from None verifyBlockSync_result(2,3) [OF v] assms(2) True
    have "getProposalBlock (c_WaitingBlockForValue f) f = Some d" by (simp add: getProposalBlock_def)
    with e None show ?thesis by (auto simp: OnCertVoteEnough_def Let_def bind_eq_Some_conv split: if_splits)
  next
    case (Some x)
    with e verifyBlockSync_result(1) [OF v] show ?thesis by (auto simp: known_bad_def)
  qed
qed (use assms(1) in \<open>simp add: Base_OnProposalDataComplete_def\<close>)

lemma vote_after_block:
  assumes "verifyBlockSync en bk (pb_Block d) c = Some (err, e)"
    and "(if err \<noteq> None then Some (Unchanged, e) else map_option (Pair Unchanged) (sendVote en t w sb e)) = Some (ev, c')"
    and "settled en c" "parked c" "getProposalBlock w c = Some d \<or> known_bad en d c" "soft_major c (c_Round c) w"
    and "c_Step c = RoundStep3Certifying \<or> RoundStep4FirstFinishing \<le> c_Step c"
  shows "stays en c c'"
proof -
  note q = quiet_verifyBlockSync [OF assms(1)]
  have e: "stays en c e" using assms(3,4) q by (rule stays_quiet)
  show ?thesis
  proof (cases err)
    case None
    have "getProposalBlock w c = Some d" using assms(1,5) None by (auto simp: verifyBlockSync_def known_bad_def)
    from verifyBlockSync_ready [OF this] assms(1,3) None have r: "ready w e" unfolding settled_def by blast
    have m: "soft_major e (c_Round e) w" using assms(6) quietD [OF q] by (simp add: soft_major_def)
    have "may_vote w e"
      using assms(7) quietD(3) [OF q] may_cert [OF _ m r] may_next [OF staysD(1) [OF e]] m by auto
    then have "settled en c' \<and> still en e c'"
      using assms(2) None staysD [OF e] sendVote_settled by auto
    then have "stays en e c'" using staysD [OF e] stays_still by blast
    with e show ?thesis by (auto simp: reaches_def)
  qed (use assms(2) e in simp)
qed

lemma OnProposalDataComplete_stays:
  assumes "OnProposalDataComplete en bk d c = Some (ev, c')" "settled en c" "parked c" "hash_nonzero en"
    and "getProposalBlock (Block_Hash (en_crypto en) (pb_Block d)) c = Some d"
  shows "stays en c c'"
proof -
  let ?h = "Block_Hash (en_crypto en) (pb_Block d)"
  have h0: "?h \<noteq> 0" using assms(4) by (simp add: hash_nonzero_def Block_Hash_def)
  obtain ev0 e where b: "Base_OnProposalDataComplete en bk d c = Some (ev0, e)"
    using assms(1) by (auto simp: OnProposalDataComplete_def bind_eq_Some_conv)
  note q = quiet_Base_OnProposalDataComplete [OF b]
  have e: "stays en c e" using assms(2,3) q by (rule stays_quiet)
  have "stays en e c'"
  proof (cases "ev0 = Unchanged \<and>
      (\<exists>sb. c_state e = Some (StateCertifying sb ?h) \<or> c_state e = Some (StateSecondFinishing sb ?h))")
    case True
    then obtain sb where s: "c_state e = Some (StateCertifying sb ?h) \<or> c_state e = Some (StateSecondFinishing sb ?h)" by blast
    with True assms(1) b h0 obtain err f t where v: "verifyBlockSync en bk (pb_Block d) e = Some (err, f)"
      and c': "(if err \<noteq> None then Some (Unchanged, f) else map_option (Pair Unchanged) (sendVote en t ?h sb f)) = Some (ev, c')"
      by (auto simp: OnProposalDataComplete_def bind_eq_Some_conv EmptyHash_def)
    show ?thesis
    proof (rule vote_after_block [OF v c' staysD [OF e]])
      show "getProposalBlock ?h e = Some d \<or> known_bad en d e"
        using Base_unchanged [of en bk d c e] b True assms(5) by auto
      show "soft_major e (c_Round e) ?h" using s h0 staysD(2) [OF e] by (auto simp: parked_def waiting_ok_def)
      show "c_Step e = RoundStep3Certifying \<or> RoundStep4FirstFinishing \<le> c_Step e"
        using s staysD(2) [OF e] by (auto simp: parked_def less_imp_le)
    qed
  next
    case False
    with assms(1) b have "c' = e"
      by (auto simp: OnProposalDataComplete_def split: if_splits option.splits State.splits)
    with staysD [OF e] show ?thesis by (simp add: reaches_def)
  qed
  with e show ?thesis by (auto simp: reaches_def)
qed

section \<open>Handlers\<close>

lemma quiet_save:
  "bs_err r = None \<Longrightarrow> quiet en c (saveVerifiedBlockState h r c)"
  "proposed en c d \<Longrightarrow> quiet en c (SaveProposalBlock (en_crypto en) d c)"
  by (auto simp: quiet_defs saveVerifiedBlockState_def SaveProposalBlock_def)

lemma accept_block_stays:
  assumes "accept_block en bk from d c = Some c'" "settled en c" "parked c" "hash_nonzero en" "proposed en c d"
  shows "stays en c c'"
proof -
  let ?h = "Block_Hash (en_crypto en) (pb_Block d)"
  define e where "e = (if from = fromMe
      then saveVerifiedBlockState ?h \<lparr>bs_err = None, bs_statedb = c_statedb c, bs_receipts = c_receipts c,
                                       bs_counter = c_mortgageContractCounter c\<rparr> c else c)"
  define f where "f = SaveProposalBlock (en_crypto en) d e"
  obtain g ev where g: "(if c_StartingValue f = ?h \<or> IsPotentialValue (c_counter f) (pb_Round d) ?h
           then verifyBlockAsync en bk (pb_Block d) f else Some f) = Some g"
    and c': "OnProposalDataComplete en bk d g = Some (ev, c')"
    using assms(1) unfolding accept_block_def Let_def e_def f_def by (auto simp: bind_eq_Some_conv)
  have qe: "quiet en c e" by (simp add: e_def quiet_save)
  moreover have "quiet en e f"
    unfolding f_def using qe assms(5) proposed_cong [of e c] by (intro quiet_save) (simp add: quiet_def)
  moreover have "quiet en f g" using g by (auto split: if_splits dest: quiet_verifyBlockAsync)
  ultimately have "quiet en c g" by (blast intro: context_quiet_trans)
  then have sg: "stays en c g" using assms(2,3) by (intro stays_quiet)
  have "getProposalBlock ?h g = Some d"
    using g by (auto simp: f_def SaveProposalBlock_def getProposalBlock_def verifyBlockAsync_def Let_def split: if_splits)
  then have "stays en g c'" using OnProposalDataComplete_stays [OF c' staysD [OF sg] assms(4)] by simp
  with sg show ?thesis by (auto simp: reaches_def)
qed

lemma verify_idem:
  assumes "verify_credential en sb sig cred c = Some (None, cred')"
  shows "verify_credential en sb sig cred' c = Some (None, cred') \<and> cr_Address cred' = cr_Address cred \<and>
    cr_Height cred' = cr_Height cred \<and> cr_Round cred' = cr_Round cred \<and> cr_Step cred' = cr_Step cred"
  using assms
  by (auto simp: verify_credential_def VerifySignatureAndCredential_def split: option.splits prod.splits)

lemma handleProposalBlock_proposed:
  assumes "verify_credential en (ProposalBlockData_SignBytes (en_crypto en) d) (pb_ESignValue d) (pb_Credential d) c = Some (None, cred)"
    and "ProposalBlockData_Valid d (c_Height c)"
    and "VerifySeed (en_crypto en)
       (GetMinerVerifier (en_crypto en) (cc_Algorand (en_config en)) (c_parentStatedb c) (cr_Address cred) (cr_Height cred))
       (cr_Height cred) (c_Seed c) (Block_Hash (en_crypto en) (c_parent c)) (Seed (b_header (pb_Block d)))
       (Block_SeedProof (pb_Block d)) = None"
  shows "proposed en c (d\<lparr>pb_Credential := cred\<rparr>)"
proof -
  note i = verify_idem [OF assms(1)]
  have "cr_Height cred = c_Height c" "cr_Step cred = RoundStep1Proposal"
    using i assms(2) by (simp_all add: ProposalBlockData_Valid_def)
  then show ?thesis using i assms(3) by (simp add: proposed_def ProposalBlockData_SignBytes_def)
qed

lemma handleProposalBlock_stays:
  assumes "handleProposalBlock en bk from d c = Some c'" "settled en c" "parked c" "hash_nonzero en"
    and "ProposalBlockData_Valid d (c_Height c)"
  shows "stays en c c'"
proof -
  have "c' = c \<or> (\<exists>m d' e. OnProposalLeaderReceived en m (broadcastMsg d' c) = Some e \<and>
      (c' = e \<or> (\<exists>b. accept_block en bk from b e = Some c' \<and> proposed en c b)))"
  proof (cases "getProposalBlock (Block_Hash (en_crypto en) (pb_Block d)) c")
    case None
    with assms(1) obtain err cred where v: "verify_credential en (ProposalBlockData_SignBytes (en_crypto en) d)
        (pb_ESignValue d) (pb_Credential d) c = Some (err, cred)"
      by (auto simp: handleProposalBlock_def Let_def bind_eq_Some_conv)
    let ?mv = "GetMinerVerifier (en_crypto en) (cc_Algorand (en_config en)) (c_parentStatedb c) (cr_Address cred) (cr_Height cred)"
    show ?thesis
    proof (cases "err = None \<and> VerifySeed (en_crypto en) ?mv (cr_Height cred) (c_Seed c) (Block_Hash (en_crypto en) (c_parent c))
        (Seed (b_header (pb_Block d))) (Block_SeedProof (pb_Block d)) = None")
      case True
      then have "proposed en c (d\<lparr>pb_Credential := cred\<rparr>)" using v assms(5) by (intro handleProposalBlock_proposed) auto
      with True None v assms(1) show ?thesis
        by (auto simp: handleProposalBlock_def Let_def bind_eq_Some_conv split: if_splits)
    qed (use None v assms(1) in \<open>auto simp: handleProposalBlock_def Let_def split: if_splits\<close>)
  qed (use assms(1) in \<open>simp add: handleProposalBlock_def\<close>)
  then show ?thesis
  proof (elim disjE exE conjE)
    fix m d' e b
    assume e: "OnProposalLeaderReceived en m (broadcastMsg d' c) = Some e"
    have se: "stays en c e"
      using assms(2,3) context_quiet_trans [OF quiet_broadcastMsg quiet_OnProposalLeaderReceived [OF e]] by (rule stays_quiet)
    show "stays en c c'" if "c' = e" using se that by simp
    show "stays en c c'" if a: "accept_block en bk from b e = Some c'" and p: "proposed en c b"
    proof -
      have "proposed en e b"
        using p context_quiet_trans [OF quiet_broadcastMsg quiet_OnProposalLeaderReceived [OF e]] proposed_cong [of e c en b]
        by (simp add: quiet_def)
      then have "stays en e c'" by (rule accept_block_stays [OF a staysD [OF se] assms(4)])
      with se show ?thesis by (auto simp: reaches_def)
    qed
  qed (use assms(2,3) in \<open>simp add: reaches_def\<close>)
qed

lemma settled_count:
  assumes "settled en c" "accepted en c vote"
  shows "settled en (c\<lparr>c_counter := count_vote (c_Height c) (c_counter c) vote\<rparr>)"
proof -
  let ?c = "c\<lparr>c_counter := count_vote (c_Height c) (c_counter c) vote\<rparr>"
  obtain votes where "c_counter c = counted (c_Height c) votes" "\<forall>v \<in> set votes. accepted en c v"
    using assms(1) by (auto simp: settled_def counter_ok_def)
  then have "c_counter ?c = counted (c_Height ?c) (votes @ [vote])" "\<forall>v \<in> set (votes @ [vote]). accepted en ?c v"
    using assms(2) by (simp_all add: accepted_def verify_credential_def)
  then have "counter_ok en ?c" unfolding counter_ok_def by blast
  moreover have "vote_ok c v \<Longrightarrow> vote_ok ?c v" for v
    using vote_tally.decided_step [of "c_counter c" "(v_Round v, RoundStep2Filtering)" "c_Height c" vote]
    by (auto simp: vote_ok_def soft_major_def ready_def)
  moreover have "proposed en ?c d = proposed en c d" for d by (rule proposed_cong) simp_all
  ultimately show ?thesis using assms(1)
    by (simp add: settled_def keyed_def drained_def votes_out_def timeouts_out_def here_def)
qed

lemma parked_count:
  assumes "parked c" shows "parked (c\<lparr>c_counter := count_vote h (c_counter c) vote\<rparr>)"
  using assms vote_tally.decided_step [of "c_counter c" "(c_Round c, RoundStep2Filtering)" h vote]
  by (auto simp: parked_def timed_def timeouts_out_def waiting_ok_def soft_major_def split: option.splits State.splits)

lemma quorum_major:
  assumes "ar_added (count_result height hvs vote)" "ar_enough (count_result height hvs vote)"
  shows "major_of (count_vote height hvs vote) (v_Round vote) (v_Step vote) = v_Value vote"
proof -
  let ?svs = "step_view hvs (v_Round vote) (v_Step vote)"
  have c: "counts ?svs vote" using assms(1) by (simp add: count_result_eq)
  then have "count_result height hvs vote = fst (StepVoteSet_count vote (threshold_of height (v_Step vote)) ?svs [])"
    by (simp add: count_result_def height_step(2) counts_def)
  with c assms(2) show ?thesis by (simp add: major_of_def count_vote_view tally_at(4))
qed

lemma react_to_quorum_onward:
  assumes "react_to_quorum en bk vote c = Some c'" "settled en c" "parked c" "hash_nonzero en"
    and "v_Round vote < 0xFFFFFFFF" "major_of (c_counter c) (v_Round vote) (v_Step vote) = v_Value vote"
  shows "onward en c c'"
proof -
  have soft: "VoteTypeOfStep (v_Step vote) = VoteTypeSoft \<Longrightarrow> v_Step vote = RoundStep2Filtering"
    by (auto simp: VoteTypeOfStep_def vote_type_defs BadStep_def split: if_splits)
  show ?thesis
  proof (cases "VoteTypeOfStep (v_Step vote) = VoteTypeSoft")
    case True
    with assms(1) have "OnSoftVoteEnough en bk (v_Value vote) (v_Round vote) c = Some c'"
      by (simp add: react_to_quorum_def)
    from OnSoftVoteEnough_stays [OF this assms(2-4)] soft [OF True] assms(6) show ?thesis
      by (intro onward_stays) (auto simp: soft_major_def)
  next
    case False
    with assms(1-3,5) show ?thesis
      by (auto simp: react_to_quorum_def Let_def split: if_splits
          dest!: quiet_OnCertVoteEnough intro: onward_quiet OnNextVoteEnough_onward)
  qed
qed

lemma handleVote_onward:
  assumes "handleVote en bk vote c = Some c'" "settled en c" "parked c" "hash_nonzero en"
    and "v_Round vote < 0xFFFFFFFF" "VoteData_Valid vote (c_Height c) (c_EmptyValue c)"
  shows "onward en c c'"
proof (cases "HasVote (c_counter c) (v_Round vote) (v_Step vote) (v_Address vote)")
  case True
  with assms(1-3) show ?thesis by (simp add: handleVote_def onward_stays stays_refl)
next
  case False
  with assms(1) obtain err cred where
    v: "verify_credential en (VoteData_SignBytes vote) (v_ESignValue vote) (v_Credential vote) c = Some (err, cred)"
    by (auto simp: handleVote_def bind_eq_Some_conv)
  show ?thesis
  proof (cases err)
    case (Some x)
    with assms(1-3) False v show ?thesis by (simp add: handleVote_def Let_def onward_stays stays_refl)
  next
    case None
    define w where "w = vote\<lparr>v_Credential := cred\<rparr>"
    note i = verify_idem [OF v [unfolded None]]
    have w: "v_Round w = v_Round vote" "v_Step w = v_Step vote" "v_Height w = c_Height c" "v_Value w = v_Value vote"
      using i assms(6) by (auto simp: w_def VoteData_Valid_def split: if_splits)
    define d where "d = broadcastMsg (HasVoteMsg (ToHasVote w)) c"
    define e where "e = d\<lparr>c_counter := count_vote (c_Height d) (c_counter d) w\<rparr>"
    have q: "quiet en c d" by (simp add: d_def)
    have "accepted en c w"
      using i assms(6) w by (auto simp: accepted_def w_def VoteData_SignBytes_def VoteData_Valid_def split: if_splits)
    then have "accepted en d w" using q accepted_cong [of d c] by (simp add: quiet_def)
    with settled_quiet [OF q assms(2)] parked_still [OF quiet_still [OF q] assms(3)]
    have se: "settled en e" "parked e" by (simp_all add: e_def settled_count parked_count)
    have add: "AddVoteAndCount w (fst (GetCommitteeNumber (v_Height w) (v_Step w))) (c_counter d) =
        (count_result (c_Height d) (c_counter d) w, count_vote (c_Height d) (c_counter d) w)"
      using w quietD(1) [OF q] by (simp add: count_result_def count_vote_def threshold_of_def)
    let ?r = "count_result (c_Height d) (c_counter d) w"
    have "handleVote en bk vote c =
      (case AddVoteAndCount w (fst (GetCommitteeNumber (v_Height w) (v_Step w))) (c_counter d) of (result, counter) \<Rightarrow>
         let c = d\<lparr>c_counter := counter\<rparr>
         in if ar_err result \<noteq> None then Some c
            else do {
              c \<leftarrow> (if ar_newPotential result then OnPotentialVoteEnough en bk (v_Value w) c else Some c);
              if ar_added result \<and> ar_enough result then react_to_quorum en bk w c else Some c
            })"
      unfolding w_def d_def by (simp add: handleVote_def False v None Let_def)
    then have hv: "(if ar_err ?r \<noteq> None then Some e
            else do {
              c \<leftarrow> (if ar_newPotential ?r then OnPotentialVoteEnough en bk (v_Value w) e else Some e);
              if ar_added ?r \<and> ar_enough ?r then react_to_quorum en bk w c else Some c
            }) = Some c'"
      unfolding add using assms(1) by (simp add: e_def Let_def)
    have "onward en e c'"
    proof (cases "ar_err ?r")
      case e0: None
      with hv obtain f where
        f: "(if ar_newPotential ?r then OnPotentialVoteEnough en bk (v_Value w) e else Some e) = Some f"
        and c': "(if ar_added ?r \<and> ar_enough ?r then react_to_quorum en bk w f else Some f) = Some c'"
        by (auto simp: bind_eq_Some_conv)
      have qf: "quiet en e f" using f by (auto split: if_splits dest: quiet_OnPotentialVoteEnough)
      have sf: "stays en e f" using se qf by (rule stays_quiet)
      show ?thesis
      proof (cases "ar_added ?r \<and> ar_enough ?r")
        case True
        then have "major_of (c_counter f) (v_Round w) (v_Step w) = v_Value w"
          using quorum_major [of "c_Height d" "c_counter d" w] quietD(6) [OF qf] by (simp add: e_def)
        with True c' assms(4,5) w staysD [OF sf] have "onward en f c'"
          by (intro react_to_quorum_onward [of en bk w]) simp_all
        with sf show ?thesis by (rule stays_onward)
      qed (use c' sf in \<open>auto simp: onward_stays split: if_splits\<close>)
    next
      case (Some x)
      with hv have "c' = e" by simp
      with se show ?thesis by (simp add: onward_stays stays_refl)
    qed
    then show ?thesis using quietD [OF q] by (simp add: onward_def reaches_def e_def)
  qed
qed

definition small_round :: "msg \<Rightarrow> bool" where
  "small_round m \<longleftrightarrow> (case m of VoteMsg v \<Rightarrow> v_Round v < 0xFFFFFFFF | _ \<Rightarrow> True)"

lemma handleMsg_onward:
  assumes "handleMsg en bk m from c = Some c'" "settled en c" "parked c" "hash_nonzero en" "small_round m"
  shows "onward en c c'"
proof (cases m)
  case (ProposalLeaderMsg d)
  with assms(1-3) show ?thesis
    by (auto simp: handleMsg_def split: if_splits dest!: quiet_handleProposalLeader intro: onward_quiet onward_stays stays_refl)
next
  case (ProposalBlockMsg d)
  with assms(1-4) show ?thesis
    by (auto simp: handleMsg_def split: if_splits intro: onward_stays stays_refl handleProposalBlock_stays)
next
  case (VoteMsg d)
  with assms show ?thesis
    by (auto simp: handleMsg_def small_round_def split: if_splits intro: onward_stays stays_refl handleVote_onward)
qed (use assms in \<open>auto simp: handleMsg_def split: if_splits intro: onward_stays stays_refl\<close>)

text \<open>A timeout of the machine's position always moves it on.\<close>

lemma OnTimeout_reaches:
  assumes "OnTimeout en bk c = Some c'" "settled en c" "parked c" "hash_nonzero en" "c_Step c < 0xFFFFFFF0"
  shows "reaches en c (c_Round c) (c_Step c + 2) c'"
proof -
  have three: "c_Step c = RoundStep1Proposal \<Longrightarrow> c_Step c + 2 = RoundStep3Certifying" by (simp add: round_step_defs)
  have "RoundStep3Certifying \<le> c_Step c" if "RoundStep4FirstFinishing < c_Step c"
    using that by (simp add: round_step_defs word_le_nat_alt word_less_nat_alt)
  moreover have "odd RoundStep3Certifying" by (simp add: round_step_defs)
  ultimately show ?thesis
    using assms gotoFiltering_reaches [of en bk c c'] gotoFirstFinishing_reaches [of en bk c c'] three
    by (auto simp: OnTimeout_def parked_def split: option.splits State.splits)
qed

lemma handleTimeout_onward:
  assumes "handleTimeout en bk ti c = Some c'" "settled en c" "parked c" "hash_nonzero en" "ti_Step ti < 0xFFFFFFF0"
  shows "onward en c c'"
proof (cases "c_state c \<noteq> None \<and> ti_Height ti = c_Height c \<and> ti_Round ti = c_Round c \<and> ti_Step ti = c_Step c")
  case True
  with assms(1) have t: "OnTimeout en bk c = Some c'" by (simp add: handleTimeout_def)
  have s: "c_Step c < 0xFFFFFFF0" using True assms(5) by simp
  have "c_Step c \<le> c_Step c + 2" using step_succ [OF s] by (meson less_imp_le order_trans)
  with OnTimeout_reaches [OF t assms(2-4) s] show ?thesis by (auto simp: onward_def)
next
  case False
  with assms(1-3) show ?thesis by (auto simp: handleTimeout_def onward_stays stays_refl split: if_splits)
qed

section \<open>Runs\<close>

definition entry_ok :: "journal_entry \<Rightarrow> bool" where
  "entry_ok e \<longleftrightarrow> (case e of JournalMsg m _ \<Rightarrow> small_round m | JournalTimeout ti \<Rightarrow> ti_Step ti < 0xFFFFFFF0)"

lemma onward_trans: "onward en c d \<Longrightarrow> onward en d e \<Longrightarrow> onward en c e"
  by (auto simp: onward_def reaches_def)

lemma onwardD:
  assumes "onward en c d"
  shows "settled en d" "parked d" "c_Height d = c_Height c" "c_recover d = c_recover c"
  using assms by (auto simp: onward_def reaches_def)

lemma loadRecoverEntry_onward:
  assumes "loadRecoverEntry en bk es c = Some c'" "settled en c" "parked c" "hash_nonzero en" "\<forall>e \<in> set es. entry_ok e"
  shows "onward en c c'"
  using assms
proof (induction en bk es c rule: loadRecoverEntry.induct)
  case (1 en bk c)
  then show ?case by (simp add: onward_stays stays_refl)
next
  case (2 en bk m src es c)
  then obtain d where d: "handleMsg en bk m (''recover-'' @ src) c = Some d" "loadRecoverEntry en bk es d = Some c'"
    by (auto simp: bind_eq_Some_conv)
  have o: "onward en c d" using handleMsg_onward [OF d(1)] 2 by (simp add: entry_ok_def)
  moreover have "onward en d c'" using 2(1) [of d] 2 d onwardD [OF o] by auto
  ultimately show ?case by (rule onward_trans)
next
  case (3 en bk ti es c)
  then obtain d where d: "handleTimeout en bk ti c = Some d" "loadRecoverEntry en bk es d = Some c'"
    by (auto simp: bind_eq_Some_conv)
  have o: "onward en c d" using handleTimeout_onward [OF d(1)] 3 by (simp add: entry_ok_def)
  moreover have "onward en d c'" using 3(1) [of d] 3 d onwardD [OF o] by auto
  ultimately show ?case by (rule onward_trans)
qed

text \<open>
  The conditions on an event: rounds and steps do not run out of their 32 bits, and a new head of the
  chain is not below the machine's height, which does not run out of its 64 bits.
\<close>

definition event_fits :: "backend \<Rightarrow> event \<Rightarrow> Context \<Rightarrow> bool" where
  "event_fits bk e c \<longleftrightarrow>
     (case e of
        Message \<Rightarrow> (case c_msgChan c of [] \<Rightarrow> True | (m, _) # _ \<Rightarrow> small_round m)
      | Timeout ti \<Rightarrow> ti_Step ti < 0xFFFFFFF0
      | ChainHead \<Rightarrow> c_Height c < Block_Number (bk_CurrentBlock bk) + 1
      | _ \<Rightarrow> True)"

lemma settled_parked_quiet:
  "quiet en c c' \<Longrightarrow> settled en c \<Longrightarrow> parked c \<Longrightarrow> settled en c' \<and> parked c' \<and> c_Height c' = c_Height c"
  using stays_quiet [of en c c'] by (simp add: reaches_def)

lemma machine_step_ok:
  assumes "machine_step en bk e c = Some c'" "settled en c" "parked c" "hash_nonzero en" "event_fits bk e c"
  shows "settled en c' \<and> parked c'"
proof (cases e)
  case Message
  show ?thesis
  proof (cases "c_msgChan c")
    case Nil
    with assms Message show ?thesis by simp
  next
    case (Cons mf rest)
    obtain m src where mf: "mf = (m, src)" by (cases mf)
    show ?thesis
    proof (cases "Block_Number (bk_CurrentBlock bk) < c_Height c")
      case True
      with assms(1) Message Cons mf obtain d where
        d: "VoteJournal_Write (JournalMsg (journaled m) src) (c\<lparr>c_msgChan := rest\<rparr>) = Some d"
        and c': "handleMsg en bk m src d = Some c'"
        by (auto simp: Let_def bind_eq_Some_conv)
      have "quiet en c d" using context_quiet_trans [OF _ quiet_VoteJournal_Write [OF d]] by simp
      with assms have "settled en d" "parked d" using settled_parked_quiet by blast+
      from handleMsg_onward [OF c' this assms(4)] assms(5) Message Cons mf show ?thesis
        by (auto simp: event_fits_def dest: onwardD)
    next
      case False
      with assms Message Cons mf settled_parked_quiet [OF quiet_fields(2) assms(2,3)] show ?thesis by auto
    qed
  qed
next
  case (Timeout ti)
  show ?thesis
  proof (cases "Block_Number (bk_CurrentBlock bk) < c_Height c")
    case True
    with assms(1) Timeout obtain d where d: "VoteJournal_Write (JournalTimeout ti) c = Some d"
      and c': "handleTimeout en bk ti d = Some c'" by (auto simp: bind_eq_Some_conv)
    have "settled en d" "parked d" using settled_parked_quiet [OF quiet_VoteJournal_Write [OF d]] assms by blast+
    from handleTimeout_onward [OF c' this assms(4)] assms(5) Timeout show ?thesis
      by (auto simp: event_fits_def dest: onwardD)
  qed (use assms Timeout in simp)
next
  case ChainHead
  let ?b = "bk_CurrentBlock bk" and ?c = "resetAndOpenRecoverFile (Block_Number (bk_CurrentBlock bk) + 1) c"
  show ?thesis
  proof (cases "Block_Hash (en_crypto en) (c_parent c) \<noteq> Block_Hash (en_crypto en) ?b")
    case True
    with assms(1) ChainHead obtain d where d: "switchState (StateNewHeight ?b) ?c = Some d"
      and c': "NewHeight_OnEnter en bk ?b d = Some c'"
      by (auto simp: gotoNewHeight_def Let_def bind_eq_Some_conv)
    have q: "quiet en c ?c" by (simp add: resetAndOpenRecoverFile_def quiet_defs)
    obtain f where f: "quiet en ?c f" "d = f\<lparr>c_state := Some (StateNewHeight ?b)\<rparr>" using d by (rule switchState_quiet)
    have "settled en d" "c_Height d < Block_Number ?b + 1"
      using settled_quiet [OF context_quiet_trans [OF q f(1)] assms(2)] quietD [OF context_quiet_trans [OF q f(1)]] f(2) assms(5) ChainHead
      by (simp_all add: event_fits_def)
    from NewHeight_reaches [OF c' settled_below [OF this]] show ?thesis by simp
  qed (use assms ChainHead in simp)
next
  case (KeysUpdated h)
  with assms settled_parked_quiet [OF quiet_fields(1)] show ?thesis by auto
qed (use assms settled_parked_quiet [of en c c'] in \<open>auto simp: OnReceive_def SetExtra_def StartMining_def StopMining_def\<close>)

end
