(* ===== verification/Machine_Safety.thy ===== *)
theory Machine_Safety
  imports Machine_Invariant
begin

text \<open>
  What the consensus state machine promises, over all its runs: votes that do not contradict each
  other, states that fit their steps, certificates that do not conflict without cheating voters, and
  timers that keep the machine moving.
\<close>

section \<open>Reachable contexts\<close>

text \<open>
  A run starts with \<^verbatim>\<open>readyRecover\<close>, on any journals that an earlier run may have left, and goes on
  with any events, each with its own answers of the surroundings.
\<close>

inductive reachable :: "env \<Rightarrow> Context \<Rightarrow> bool" for en where
  started: "readyRecover en bk b c0 = Some c \<Longrightarrow> c_out c0 = [] \<Longrightarrow>
    \<forall>(h, es) \<in> set (c_journals c0). \<forall>e \<in> set es. entry_ok e \<Longrightarrow> reachable en c"
| stepped: "reachable en c \<Longrightarrow> event_fits bk e c \<Longrightarrow> machine_step en bk e c = Some c' \<Longrightarrow> reachable en c'"

lemma parked_recover [simp]: "parked (c\<lparr>c_recover := x\<rparr>) = parked c"
  by (simp add: parked_def timed_def timeouts_out_def waiting_ok_def soft_major_def split: option.split State.split)

lemma readyRecover_ok:
  assumes "readyRecover en bk b c0 = Some c" "c_out c0 = []" "hash_nonzero en"
    and "\<forall>(h, es) \<in> set (c_journals c0). \<forall>e \<in> set es. entry_ok e"
  shows "settled en c \<and> parked c"
proof -
  define c1 where "c1 = (if c_recover c0 then prepareRecover b c0 else c0)"
  define entries where "entries = (case c_journal c1 of None \<Rightarrow> [] | Some h \<Rightarrow> journal_file h c1)"
  obtain d e where d: "startStateMachine en bk b c1 = Some d"
    and e: "(if c_recover d then loadRecoverEntry en bk entries d else Some d) = Some e"
    and c: "c = e\<lparr>c_recover := False\<rparr>"
    using assms(1) unfolding readyRecover_def Let_def c1_def entries_def by (auto simp: bind_eq_Some_conv)
  have j: "c_out c1 = []" "c_journals c1 = c_journals c0"
    using assms(2) by (simp_all add: c1_def prepareRecover_def Let_def)
  have "entry_ok e" if "mget (c_journals c1) h = Some es" "e \<in> set es" for h es e
    using assms(4) that(2) mget_in_set [OF that(1)] unfolding j(2) by blast
  then have ok: "\<forall>e \<in> set entries. entry_ok e"
    by (auto simp only: entries_def journal_file_def list.set empty_iff split: option.splits)
  have "NewHeight_OnEnter en bk b (c1\<lparr>c_state := Some (StateNewHeight b)\<rparr>) = Some d"
    using d by (auto simp: startStateMachine_def split: if_splits)
  moreover have "below h (c1\<lparr>c_state := Some (StateNewHeight b)\<rparr>)" for h
    using j(1) by (simp add: below_def votes_out_def timeouts_out_def consistent_def)
  ultimately have "settled en d" "parked d" using NewHeight_reaches by blast+
  then have "settled en e \<and> parked e"
    using e assms(3) ok by (auto split: if_splits dest: loadRecoverEntry_onward onwardD)
  then show ?thesis by (simp add: c)
qed

lemma reachable_ok:
  assumes "reachable en c" "hash_nonzero en" shows "settled en c \<and> parked c"
  using assms
proof (induction rule: reachable.induct)
  case (started bk b c0 c)
  then show ?case by (intro readyRecover_ok)
next
  case (stepped c bk e c')
  then show ?case using machine_step_ok by blast
qed

lemma sent_vote: "SelfMsg (VoteMsg v) \<in> set (c_out c) \<longleftrightarrow> v \<in> set (votes_out c)"
proof -
  have "v \<in> set (vote_of e) \<longleftrightarrow> e = SelfMsg (VoteMsg v)" for e by (cases e rule: vote_of.cases) auto
  then show ?thesis by (auto simp: votes_out_def)
qed

lemma sent_agree:
  assumes "reachable en c" "hash_nonzero en" "SelfMsg (VoteMsg v) \<in> set (c_out c)" "SelfMsg (VoteMsg v') \<in> set (c_out c)"
  shows "agree v v'"
  using reachable_ok [OF assms(1,2)] assms(3,4) unfolding sent_vote settled_def consistent_def by blast

section \<open>Votes\<close>


text \<open>
  C38.  The state of a running machine fits its step: it waits in the proposal state at step 1, in the
  certifying state at step 3 or in the second finishing state at an odd step from 5 on, in a round
  from 1 on; so the vote it may send there has the type of its step and passes the check of
  \<^verbatim>\<open>sendVote\<close>.
\<close>

theorem state_fits_step:
  assumes "reachable en c" and "hash_nonzero en"
  shows "BadRound < c_Round c \<and>
    (case c_state c of
       Some (StateProposal _ _ _) \<Rightarrow> c_Step c = RoundStep1Proposal
     | Some (StateCertifying _ _) \<Rightarrow> c_Step c = RoundStep3Certifying \<and> VoteTypeOfStep (c_Step c) = VoteTypeCert
     | Some (StateSecondFinishing _ _) \<Rightarrow>
         RoundStep4FirstFinishing < c_Step c \<and> odd (c_Step c) \<and> VoteTypeOfStep (c_Step c) = VoteTypeNext
     | _ \<Rightarrow> False)"
proof -
  have "parked c" using reachable_ok [OF assms] by blast
  then show ?thesis unfolding parked_def
    by (simp add: VoteTypeOfStep_cases less_imp_le split: option.splits State.splits)
qed

section \<open>Certificates\<close>

lemma reachable_counter:
  assumes "reachable en c" "hash_nonzero en"
  obtains votes where "c_counter c = counted (c_Height c) votes" "\<forall>v \<in> set votes. accepted en c v"
  using reachable_ok [OF assms] by (auto simp: settled_def counter_ok_def)

text \<open>A weight is at most the size of a committee, whatever the distribution returns; so sums of weights do not wrap.\<close>

lemma binary_loop_le: "unat (binary_loop le low high) \<le> max (unat low) (unat high)"
proof (induction le low high rule: binary_loop.induct)
  case (1 le low high)
  show ?case
  proof (cases "low < high")
    case False
    then show ?thesis by (subst binary_loop.simps) simp
  next
    case True
    define m where "m = low + (high - low) div 2"
    have m: "unat low \<le> unat m" "unat m < unat high"
      using True unat_middle [OF True] by (auto simp: m_def word_less_nat_alt)
    have inc: "unat (m + 1) = unat m + 1"
      using m by (intro unat_inc) (metis word_less_nat_alt word_order.extremum_strict)
    have "binary_loop le low high = (if le m then binary_loop le (m + 1) high else binary_loop le low m)"
      using True by (subst binary_loop.simps) (simp add: m_def Let_def)
    then show ?thesis using 1(1,2) [OF True m_def] m inc by (auto simp: max_def)
  qed
qed

lemma Choose_le: "Choose bin h n th t W = Some j \<Longrightarrow> unat j \<le> max 1 (unat t)"
proof -
  assume "Choose bin h n th t W = Some j"
  then have "j = 0 \<or> j = binary_loop (bin h n t W) 1 (MaxJ n t)"
    by (auto simp: Choose_def SortitionByBinarySearch_def split: if_splits)
  moreover have "unat (MaxJ n t) \<le> unat t" by (simp add: MaxJ_def min_def word_le_nat_alt)
  ultimately show ?thesis using binary_loop_le [of "bin h n t W" 1 "MaxJ n t"] by auto
qed

lemma committee_size: "unat (snd (GetCommitteeNumber height step)) \<le> 5000"
  by (simp add: GetCommitteeNumber_def CommitteeConfigv1_def)

lemma VerifySortition_le: "VerifySortition cr bin mv h r st proof seed s t = Some (e, j) \<Longrightarrow> unat j \<le> 5000"
  using committee_size [of h st]
  by (auto simp: VerifySortition_def Let_def split: if_splits option.splits prod.splits dest!: Choose_le)

lemma accepted_light: "accepted en c v \<Longrightarrow> light_vote v"
proof -
  assume "accepted en c v"
  then obtain j where "unat j \<le> 5000" "(v_Credential v)\<lparr>cr_Weight := j\<rparr> = v_Credential v"
    by (auto simp: accepted_def verify_credential_def VerifySignatureAndCredential_def split: option.splits prod.splits
        dest!: VerifySortition_le)
  moreover have "v_Weight v = j" using arg_cong [OF calculation(2), of cr_Weight] by simp
  ultimately show ?thesis by (simp add: light_vote_def word_less_nat_alt)
qed

lemma GetCertVotesOfValue_view:
  "GetCertVotesOfValue hvs r x = votes_at (step_view hvs r RoundStep3Certifying) x"
  by (auto simp: GetCertVotesOfValue_def HeightVoteSet_RoundVoteSet_def votes_at_def RoundVoteSet_GetCertVotesOfValue_def
      step_view_def round_view_def NewStepVoteSet_def getStepVoteSet_def Let_def split: option.splits)

text \<open>The votes for a certified value: verified, of this round, from different voters, and enough.\<close>

lemma certified_votes:
  assumes "reachable en c" "hash_nonzero en" "major_of (c_counter c) r RoundStep3Certifying = x" "x \<noteq> 0"
  shows "v \<in> set (GetCertVotesOfValue (c_counter c) r x) \<Longrightarrow>
      accepted en c v \<and> v_Round v = r \<and> v_Step v = RoundStep3Certifying \<and> v_Value v = x"
    and "distinct (map v_Address (GetCertVotesOfValue (c_counter c) r x))"
    and "unat (threshold_of (c_Height c) RoundStep3Certifying) \<le> (\<Sum>v\<leftarrow>GetCertVotesOfValue (c_counter c) r x. unat (v_Weight v))"
    and "(\<Sum>v\<leftarrow>GetCertVotesOfValue (c_counter c) r x. unat (v_Weight v)) < 2 ^ 63"
proof -
  obtain votes where votes: "c_counter c = counted (c_Height c) votes" "\<forall>v \<in> set votes. accepted en c v"
    using reachable_counter [OF assms(1,2)] by blast
  have light: "\<forall>v \<in> set votes. light_vote v" using votes(2) accepted_light by blast
  note wf = counted_step_wf [OF light, of "c_Height c" RoundStep3Certifying r, folded votes(1)]
  show "accepted en c v \<and> v_Round v = r \<and> v_Step v = RoundStep3Certifying \<and> v_Value v = x"
    if "v \<in> set (GetCertVotesOfValue (c_counter c) r x)"
    using stored_vote [OF light, of v "c_Height c" r RoundStep3Certifying x] that votes by (auto simp: GetCertVotesOfValue_view)
  show "distinct (map v_Address (GetCertVotesOfValue (c_counter c) r x))"
    using svs_wfD(5) [OF wf, of x] by (simp add: GetCertVotesOfValue_view)
  have w: "(\<Sum>v\<leftarrow>GetCertVotesOfValue (c_counter c) r x. unat (v_Weight v)) =
      unat (weight_at (step_view (c_counter c) r RoundStep3Certifying) x)"
    using svs_wfD(3) [OF wf, of x] by (simp add: GetCertVotesOfValue_view comp_def)
  show "unat (threshold_of (c_Height c) RoundStep3Certifying) \<le> (\<Sum>v\<leftarrow>GetCertVotesOfValue (c_counter c) r x. unat (v_Weight v))"
    using svs_wfD(10) [OF wf] assms(3,4) by (simp add: w major_of_def word_le_nat_alt)
  show "(\<Sum>v\<leftarrow>GetCertVotesOfValue (c_counter c) r x. unat (v_Weight v)) < 2 ^ 63"
    using svs_wfD(4) [OF wf, of x] by (simp add: w)
qed


end
