(* ===== verification/Machine_Seal.thy ===== *)
theory Machine_Seal
  imports Machine_Safety
begin

text \<open>
  The blocks that the consensus state machine seals, against the verification of seals by the engine
  (\<^verbatim>\<open>Algorand.VerifySeal\<close>), and what a signature of a vote binds.
\<close>

section \<open>Certificates from counted votes\<close>

lemma mset_insert_cert [simp]: "mset (insert_cert x xs) = add_mset x (mset xs)"
  by (induction xs) auto

lemma mset_sort_certs [simp]: "mset (sort_certs xs) = mset xs"
proof -
  have "mset (foldr insert_cert xs ys) = mset xs + mset ys" for ys by (induction xs) auto
  then show ?thesis by (simp add: sort_certs_def)
qed

definition stored_cert :: "VoteData \<Rightarrow> CertVoteStorage" where
  "stored_cert vote = \<lparr>cvs_ESignValue = v_ESignValue vote,
     cvs_Credential = \<lparr>cs_Address = v_Address vote, cs_Proof = cr_Proof (v_Credential vote)\<rparr>\<rparr>"

lemma GetCertVoteStorage_stored: "GetCertVoteStorage hvs r x = map stored_cert (GetCertVotesOfValue hvs r x)"
  by (simp add: GetCertVoteStorage_def stored_cert_def)

lemma fold_insert_length: "distinct xs \<Longrightarrow> length (fold List.insert xs []) = length xs"
proof -
  assume d: "distinct xs"
  have "distinct (fold List.insert xs [])" "set (fold List.insert xs []) = set xs" by (simp_all add: fold_insert)
  with d show ?thesis by (metis distinct_card)
qed

text \<open>The engine's loop over votes that all verify.\<close>

lemma seal_votes_all:
  assumes "\<And>v. v \<in> set votes \<Longrightarrow>
    (let vote = NewVoteDataFromCertVoteStorage v height (ct_Round cert) (ct_Value cert)
     in signed_by cr bin config s parent (VoteData_SignBytes vote) (v_ESignValue vote) (v_Credential vote) (f v))"
  shows "seal_votes cr bin config s parent height cert (w0, A0) votes =
    Some (Inr (w0 + sum_list (map f votes), fold List.insert (map (\<lambda>v. cs_Address (cvs_Credential v)) votes) A0))"
  using assms
proof (induction votes arbitrary: w0 A0)
  case (Cons v votes)
  from Cons.prems [of v] obtain cred where
    "VerifySignatureAndCredential cr bin (GetMinerVerifier cr config s
        (v_Address (NewVoteDataFromCertVoteStorage v height (ct_Round cert) (ct_Value cert)))
        (v_Height (NewVoteDataFromCertVoteStorage v height (ct_Round cert) (ct_Value cert))))
      (VoteData_SignBytes (NewVoteDataFromCertVoteStorage v height (ct_Round cert) (ct_Value cert)))
      (v_ESignValue (NewVoteDataFromCertVoteStorage v height (ct_Round cert) (ct_Value cert)))
      (v_Credential (NewVoteDataFromCertVoteStorage v height (ct_Round cert) (ct_Value cert)))
      s (Seed parent) (h_TotalBalanceOfMiners parent) = Some (None, cred)" "cr_Weight cred = f v"
    by (auto simp: signed_by_def Let_def)
  with Cons.IH Cons.prems show ?case by (simp add: Let_def add.assoc)
qed simp

text \<open>A verified credential verifies again without its cached weight.\<close>

lemma verified_signed:
  assumes "verify_credential en data sig cred c = Some (None, cred)"
  shows "signed_by (en_crypto en) (en_binomial en) (cc_Algorand (en_config en)) (c_parentStatedb c) (b_header (c_parent c))
    data sig (cred\<lparr>cr_Weight := w\<rparr>) (cr_Weight cred)"
proof -
  let ?mv = "GetMinerVerifier (en_crypto en) (cc_Algorand (en_config en)) (c_parentStatedb c) (cr_Address cred) (cr_Height cred)"
  obtain j where j: "VerifySignature (en_crypto en) ?mv (cr_Height cred) data sig = Some None"
    "VerifySortition (en_crypto en) (en_binomial en) ?mv (cr_Height cred) (cr_Round cred) (cr_Step cred) (cr_Proof cred)
      (c_Seed c) (c_parentStatedb c) (c_Total c) = Some (None, j)" "cred\<lparr>cr_Weight := j\<rparr> = cred"
    using assms by (auto simp: verify_credential_def VerifySignatureAndCredential_def split: option.splits prod.splits)
  have "j = cr_Weight cred" using arg_cong [OF j(3), of cr_Weight] by simp
  with j(1,2) show ?thesis by (simp add: signed_by_def VerifySignatureAndCredential_def)
qed

lemma accepted_signed:
  assumes "accepted en c v" "v_Step v = RoundStep3Certifying"
  shows "let vote = NewVoteDataFromCertVoteStorage (stored_cert v) (c_Height c) (v_Round v) (v_Value v)
    in signed_by (en_crypto en) (en_binomial en) (cc_Algorand (en_config en)) (c_parentStatedb c) (b_header (c_parent c))
         (VoteData_SignBytes vote) (v_ESignValue vote) (v_Credential vote) (v_Weight v)"
proof -
  have "v_Height v = c_Height c" using assms(1) by (auto simp: accepted_def VoteData_Valid_def split: if_splits)
  with assms(2) have "NewCredentialFromCredentialStorage (cvs_Credential (stored_cert v)) (c_Height c) (v_Round v) RoundStep3Certifying 0 =
      (v_Credential v)\<lparr>cr_Weight := 0\<rparr>"
    by (simp add: NewCredentialFromCredentialStorage_def stored_cert_def)
  with verified_signed [of en "VoteData_SignBytes v" "v_ESignValue v" "v_Credential v" c 0] assms(1) show ?thesis
    by (simp add: accepted_def NewVoteDataFromCertVoteStorage_def VoteData_SignBytes_def stored_cert_def)
qed

lemma word_sum_list: "sum_list (map f xs) = of_nat (\<Sum>x\<leftarrow>xs. unat (f x))" for f :: "'a \<Rightarrow> 'b::len word"
  by (induction xs) auto

lemma Header_Hash_certificate [simp]: "Header_Hash cr (h\<lparr>h_Certificate := x\<rparr>) = Header_Hash cr h"
  by (simp add: Header_Hash_def)

lemma seal_votes_stored:
  assumes "\<And>v. v \<in> set vs \<Longrightarrow> accepted en c v \<and> v_Round v = r \<and> v_Step v = RoundStep3Certifying \<and> v_Value v = x"
    and "distinct (map v_Address vs)" and m: "mset cvs = mset (map stored_cert vs)"
    and "ct_Round cert = r" "ct_Value cert = x"
  shows "\<exists>A. seal_votes (en_crypto en) (en_binomial en) (cc_Algorand (en_config en)) (c_parentStatedb c) (b_header (c_parent c))
      (c_Height c) cert (0, []) cvs = Some (Inr (sum_list (map v_Weight vs), A)) \<and> length A = length cvs"
proof -
  have inj: "inj_on stored_cert (set vs)" using assms(2) by (simp add: distinct_map inj_on_def stored_cert_def)
  define f where "f = v_Weight \<circ> inv_into (set vs) stored_cert"
  have f: "f (stored_cert v) = v_Weight v" if "v \<in> set vs" for v
    using that inj by (simp add: f_def inv_into_f_f)
  have s: "set cvs = stored_cert ` set vs" using arg_cong [OF m, of set_mset] by simp
  have "let vote = NewVoteDataFromCertVoteStorage u (c_Height c) (ct_Round cert) (ct_Value cert)
      in signed_by (en_crypto en) (en_binomial en) (cc_Algorand (en_config en)) (c_parentStatedb c) (b_header (c_parent c))
           (VoteData_SignBytes vote) (v_ESignValue vote) (v_Credential vote) (f u)" if "u \<in> set cvs" for u
  proof -
    obtain v where v: "v \<in> set vs" "u = stored_cert v" using \<open>u \<in> set cvs\<close> s by blast
    have a: "accepted en c v" "v_Round v = ct_Round cert" "v_Step v = RoundStep3Certifying" "v_Value v = ct_Value cert"
      using assms(1) [OF v(1)] assms(4,5) by simp_all
    show ?thesis using accepted_signed [OF a(1,3)] unfolding a(2,4) v(2) f [OF v(1)] .
  qed
  from seal_votes_all [OF this]
  have "seal_votes (en_crypto en) (en_binomial en) (cc_Algorand (en_config en)) (c_parentStatedb c) (b_header (c_parent c))
      (c_Height c) cert (0, []) cvs =
      Some (Inr (0 + sum_list (map f cvs), fold List.insert (map (\<lambda>v. cs_Address (cvs_Credential v)) cvs) []))" .
  moreover have "map f (map stored_cert vs) = map v_Weight vs" using f by simp
  then have "sum_list (map f cvs) = sum_list (map v_Weight vs)"
    by (metis m mset_map sum_mset_sum_list)
  moreover have "mset (map (\<lambda>v. cs_Address (cvs_Credential v)) cvs) = mset (map v_Address vs)"
    by (simp add: m multiset.map_comp comp_def stored_cert_def)
  then have "distinct (map (\<lambda>v. cs_Address (cvs_Credential v)) cvs)"
    using assms(2) mset_eq_imp_distinct_iff by blast
  ultimately show ?thesis by (simp add: fold_insert_length)
qed

text \<open>The proposal of a received block, as the engine reads it from the sealed block.\<close>

lemma proposed_sealed:
  assumes "proposed en c d" "Block_Number (pb_Block d) = c_Height c"
  shows "proposal_signed (en_crypto en) (en_binomial en) (cc_Algorand (en_config en)) (c_parentStatedb c) (b_header (c_parent c))
    (b_header (seal_block d r x cvs proof))"
proof -
  let ?h = "b_header (seal_block d r x cvs proof)"
  have f: "Header_Hash (en_crypto en) ?h = Block_Hash (en_crypto en) (pb_Block d)" "NumberU64 ?h = c_Height c"
    "ct_Proposal (h_Certificate ?h) = ToProposalStorage d" "Proposer ?h = cr_Address (pb_Credential d)"
    "Seed ?h = Seed (b_header (pb_Block d))" "Certificate_SeedProof (h_Certificate ?h) = Block_SeedProof (pb_Block d)"
    using assms(2) by (simp_all add: seal_block_def WithSeal_def Block_Hash_def Block_Number_def NumberU64_def Proposer_def
        Certificate_Proposer_def ToProposalStorage_def Seed_def Certificate_SeedProof_def)
  have "pl_Credential (NewProposalLeaderDataFromStorage h (c_Height c) (ToProposalStorage d)) = (pb_Credential d)\<lparr>cr_Weight := 0\<rparr>"
    for h
    using assms(1) by (simp add: proposed_def NewProposalLeaderDataFromStorage_def NewCredentialFromCredentialStorage_def
        ToProposalStorage_def)
  moreover have "pl_ESignValue (NewProposalLeaderDataFromStorage h (c_Height c) (ToProposalStorage d)) = pb_ESignValue d" for h
    by (simp add: NewProposalLeaderDataFromStorage_def ToProposalStorage_def)
  moreover note verified_signed [of en "ProposalBlockData_SignBytes (en_crypto en) d" "pb_ESignValue d" "pb_Credential d" c 0]
  ultimately show ?thesis using assms(1) unfolding proposal_signed_def Let_def f
    by (auto simp: proposed_def ProposalBlockData_SignBytes_def Block_Hash_def)
qed

text \<open>
  C3.  The block a machine seals is accepted by the engine.  When a value has a quorum of certificate
  votes and its block, which is of this height, has been received, then the certificate is not empty,
  the sealed block still has the certified hash, and the seal passes every check of \<^verbatim>\<open>VerifySeal\<close> on the
  state of the parent: each vote's signature and weight, different voters, the threshold without
  wrap-around, the proposal and the seed.
\<close>

theorem own_seal_accepted:
  assumes "reachable en c" and "hash_nonzero en"
    and "major_of (c_counter c) r RoundStep3Certifying = x" and "x \<noteq> 0"
    and "getProposalBlock x c = Some d" and "Block_Number (pb_Block d) = c_Height c"
  shows "let cvs = sort_certs (GetCertVoteStorage (c_counter c) r x); block = seal_block d r x cvs proof
    in cvs \<noteq> [] \<and> Block_Hash (en_crypto en) block = x \<and>
       check_seal (en_crypto en) (en_binomial en) (cc_Algorand (en_config en)) (b_header block) (b_header (c_parent c))
         (c_parentStatedb c) = Some None"
proof -
  define vs where "vs = GetCertVotesOfValue (c_counter c) r x"
  define cvs where "cvs = sort_certs (GetCertVoteStorage (c_counter c) r x)"
  define h where "h = b_header (seal_block d r x cvs proof)"
  note vs = certified_votes [OF assms(1-4), folded vs_def]
  have thr: "threshold_of (c_Height c) RoundStep3Certifying \<le> sum_list (map v_Weight vs)"
    using vs(3,4) by (simp add: word_sum_list word_le_nat_alt take_bit_nat_eq_self unsigned_of_nat)
  have p: "proposed en c d" "Block_Hash (en_crypto en) (pb_Block d) = x"
    using reachable_ok [OF assms(1,2)] assms(5) by (auto simp: settled_def keyed_def getProposalBlock_def)
  have h: "NumberU64 h = c_Height c" "Header_Hash (en_crypto en) h = x"
    "ct_Round (h_Certificate h) = r" "ct_Value (h_Certificate h) = x" "ct_CertVoteSet (h_Certificate h) = cvs"
    using assms(6) p(2) by (simp_all add: h_def seal_block_def WithSeal_def Block_Number_def NumberU64_def Block_Hash_def)
  have m: "mset cvs = mset (map stored_cert vs)" by (simp add: cvs_def GetCertVoteStorage_stored vs_def)
  have "check_seal (en_crypto en) (en_binomial en) (cc_Algorand (en_config en)) h (b_header (c_parent c)) (c_parentStatedb c) = Some None"
    using seal_votes_stored [OF vs(1,2) m h(3,4)] thr proposed_sealed [OF p(1) assms(6), of r x cvs "proof"]
    unfolding check_seal_iff h(1,5) h_def [symmetric] threshold_of_def by blast
  moreover have "cvs \<noteq> []" using m thr threshold_bounds(1) [of "c_Height c" RoundStep3Certifying] by auto
  moreover have "Block_Hash (en_crypto en) (seal_block d r x cvs proof) = x" using h(2) by (simp add: h_def Block_Hash_def)
  ultimately show ?thesis unfolding Let_def cvs_def h_def by blast
qed

section \<open>What a vote's signature binds\<close>

text \<open>
  C39.  The signature of a vote covers the value only.  A miner's signature of a value, taken from any
  of its votes or proposals of a height, turns another verified vote of this miner and height, for
  another value, round or step, into one for the signed value: with this value and signature and the
  other vote's credential it is accepted.
\<close>

theorem vote_signature_transplant:
  assumes "accepted en c v" and "accepted en c u" and "v_Address u = v_Address v"
    and "VoteData_Valid (u\<lparr>v_Value := v_Value v\<rparr>) (c_Height c) (c_EmptyValue c)"
  shows "accepted en c (u\<lparr>v_Value := v_Value v, v_ESignValue := v_ESignValue v\<rparr>)"
proof -
  have "v_Height v = c_Height c" "v_Height u = c_Height c"
    using assms(1,2) by (auto simp: accepted_def VoteData_Valid_def split: if_splits)
  with assms show ?thesis
    by (auto simp: accepted_def verify_credential_def VerifySignatureAndCredential_def VoteData_SignBytes_def VoteData_Valid_def
        split: option.splits prod.splits if_splits)
qed

end
