(* ===== verification/Machine_Progress.thy ===== *)
theory Machine_Progress
  imports Machine_Safety
begin

text \<open>
  The machine does not get stuck: on a sound node every timeout is handled, moves the machine two
  steps on and starts the next timer, which the timer component will not ignore.
\<close>

section \<open>Sound nodes\<close>

text \<open>
  A node is sound when the keys it may load have a lifespan and belong to miners whose stake is part
  of the total of the parent, the total weight covers the largest committee, and the verification of
  a received block ends without a panic.
\<close>

definition sound :: "env \<Rightarrow> backend \<Rightarrow> Context \<Rightarrow> bool" where
  "sound en bk c \<longleftrightarrow>
     (\<forall>a h mk. fst (GetMinerKey a h (c_mkm c)) = Inr mk \<longrightarrow> mk_Lifespan mk \<noteq> 0 \<and> 5000 \<le> TotalWeight (mk_config mk) \<and>
        stake_ok (mk_config mk) (GetBalanceWithFund (en_crypto en) (c_parentStatedb c) (mk_Miner mk)) (c_Total c)) \<and>
     (\<forall>v d. mget (c_ReceivedProposalBlock c) v = Some d \<longrightarrow> verifyBlockWorker en bk (pb_Block d) \<noteq> None)"

text \<open>What the steps of a handler keep of it.\<close>

definition keeps :: "Context \<Rightarrow> Context \<Rightarrow> bool" where
  "keeps c c' \<longleftrightarrow> c_parent c' = c_parent c \<and> c_parentStatedb c' = c_parentStatedb c \<and>
     (\<forall>a h. fst (GetMinerKey a h (c_mkm c')) = fst (GetMinerKey a h (c_mkm c))) \<and>
     (\<forall>v d. mget (c_ReceivedProposalBlock c') v = Some d \<longrightarrow> mget (c_ReceivedProposalBlock c) v = Some d) \<and>
     (drained c \<longrightarrow> drained c')"

lemma keeps_trans: "keeps c d \<Longrightarrow> keeps d e \<Longrightarrow> keeps c e"
  by (auto simp: keeps_def)

definition alive :: "env \<Rightarrow> backend \<Rightarrow> Context \<Rightarrow> bool" where
  "alive en bk c \<longleftrightarrow> sound en bk c \<and> drained c"

lemma keeps_alive: "keeps c c' \<Longrightarrow> alive en bk c \<Longrightarrow> alive en bk c'"
  by (simp add: keeps_def sound_def alive_def) blast

lemma keeps_fields [simp]:
  "keeps c c" "keeps c (c\<lparr>c_Step := s\<rparr>)" "keeps c (c\<lparr>c_state := st\<rparr>)" "keeps c (c\<lparr>c_out := out\<rparr>)"
  by (simp_all add: keeps_def drained_def)

lemma GetMinerKey_again:
  "fst (GetMinerKey a h (snd (GetMinerKey a' h' m))) = fst (GetMinerKey a h m)"
  by (auto simp: GetMinerKey_def Let_def split: option.splits prod.splits)

lemma keeps_mkm: "GetMinerKey a h (c_mkm c) = (k, mkm) \<Longrightarrow> keeps c (c\<lparr>c_mkm := mkm\<rparr>)"
  using GetMinerKey_again [of _ _ a h "c_mkm c"] by (simp add: keeps_def drained_def)

lemma keeps_startTimer [simp]: "keeps c (startTimer en c)"
  using startTimer_fields(3) [of en c] by (auto simp: keeps_def drained_def)

section \<open>The parts of a handler end\<close>

lemma MinerKey_Sortition_total:
  assumes "stake_ok (mk_config mk) (GetBalanceWithFund cr s (mk_Miner mk)) totalBalance" "5000 \<le> TotalWeight (mk_config mk)"
  shows "\<exists>r. MinerKey_Sortition cr bin mk h rd st seed s totalBalance = Some r"
proof -
  define W where "W = Big_Uint64 (TotalWeight (mk_config mk))"
  have u: "uint W = TotalWeight (mk_config mk)" using assms(1) uint_of_range unfolding W_def stake_ok_def by simp
  have "\<exists>w. GetWeight cr (mk_config mk) (mk_Miner mk) s totalBalance x = Some (w, W) \<and> w \<le> W" for x
    using GetWeight_value [OF assms(1), of x] u unfolding W_def word_le_def by auto
  moreover have "snd (GetCommitteeNumber h st) \<le> W" "W \<noteq> 0"
  proof -
    have "int (unat W) = TotalWeight (mk_config mk)" using u unfolding uint_nat .
    then have "5000 \<le> unat W" using assms(2) by linarith
    then show "snd (GetCommitteeNumber h st) \<le> W" "W \<noteq> 0"
      using committee_size [of h st] unfolding word_le_nat_alt by auto
  qed
  ultimately have "\<exists>w. GetWeight cr (mk_config mk) (mk_Miner mk) s totalBalance x = Some (w, W) \<and>
      (\<exists>j. Choose bin x w th (snd (GetCommitteeNumber h st)) W = Some j)" for x th
    by (metis Choose_def SortitionByBinarySearch_def)
  then show ?thesis
    by (auto simp: MinerKey_Sortition_def Let_def case_prod_beta split: option.split) (metis option.distinct(1) option.inject prod.inject)+
qed

lemma sortition_total:
  assumes "alive en bk c"
  obtains sb c' where "Context_sortition en c = Some (sb, c')" "keeps c c'"
proof (cases "c_mining c")
  case True
  obtain key mkm where k: "GetMinerKey (c_currentMiner c) (c_Height c) (c_mkm c) = (key, mkm)" by force
  show ?thesis
  proof (cases key)
    case (Inl e)
    with True k that keeps_mkm [OF k] show ?thesis by (simp add: Context_sortition_def)
  next
    case (Inr mk)
    have "fst (GetMinerKey (c_currentMiner c) (c_Height c) (c_mkm c)) = Inr mk" by (simp add: k Inr)
    with assms have "stake_ok (mk_config mk) (GetBalanceWithFund (en_crypto en) (c_parentStatedb c) (mk_Miner mk)) (c_Total c)"
      "5000 \<le> TotalWeight (mk_config mk)" unfolding alive_def sound_def by blast+
    from MinerKey_Sortition_total [OF this] obtain r where
      "MinerKey_Sortition (en_crypto en) (en_binomial en) mk (c_Height c) (c_Round c) (c_Step c) (c_Seed c) (c_parentStatedb c) (c_Total c)
        = Some r" by blast
    with True k Inr that keeps_mkm [OF k] show ?thesis
      by (cases r) (auto simp: Context_sortition_def Let_def)
  qed
qed (use that in \<open>simp add: Context_sortition_def\<close>)

lemma keeps_verified:
  assumes "keeps c c'"
  shows "keeps c (saveVerifiedBlockState k r (c'\<lparr>c_verifing := mput k rest (c_verifing c')\<rparr>))"
    "keeps c (dropProposalBlock cr b c')"
  using assms by (auto simp: keeps_def drained_def saveVerifiedBlockState_def dropProposalBlock_def split: if_splits)

lemma verifyBlockSync_total:
  assumes "alive en bk c" "mget (c_ReceivedProposalBlock c) v = Some d"
  obtains e c' where "verifyBlockSync en bk (pb_Block d) c = Some (e, c')" "keeps c c'"
proof -
  let ?k = "Block_Hash (en_crypto en) (pb_Block d)"
  have "verifyBlockWorker en bk (pb_Block d) \<noteq> None" using assms unfolding alive_def sound_def by blast
  then obtain result where w: "verifyBlockWorker en bk (pb_Block d) = Some result" by blast
  show ?thesis
  proof (cases "mget (c_verified c) ?k")
    case None
    obtain c1 r rest where c1: "verifyBlockAsync en bk (pb_Block d) c = Some c1" "mget (c_verifing c1) ?k = Some (r # rest)"
      "keeps c c1"
    proof (cases "mget (c_verifing c) ?k")
      case fresh: None
      show ?thesis by (rule that [of "c\<lparr>c_verifing := mput ?k [result] (c_verifing c)\<rparr>" result "[]"])
        (use None fresh w in \<open>simp_all add: verifyBlockAsync_def keeps_def drained_def\<close>)
    next
      case (Some ch)
      then have "ch \<noteq> []" using None assms(1) by (auto simp: alive_def drained_def)
      then obtain r rest where "ch = r # rest" by (cases ch) auto
      with Some that [of c r rest] show ?thesis by (simp add: verifyBlockAsync_def)
    qed
    note k1 = keeps_verified(1) [OF c1(3), of ?k r rest]
    note k2 = keeps_verified(2) [OF k1, of "en_crypto en" "pb_Block d"]
    show ?thesis
    proof (cases "bs_err r = None")
      case True
      with that [OF _ k1, of None] None c1(1,2) show ?thesis by (simp add: verifyBlockSync_def Let_def)
    next
      case False
      with that [OF _ k2, of "bs_err r"] None c1(1,2) show ?thesis by (simp add: verifyBlockSync_def Let_def)
    qed
  qed (use that in \<open>auto simp: verifyBlockSync_def\<close>)
qed

lemma soft_enough_total:
  assumes "alive en bk c"
  obtains x c' where "isSoftVoteEnoughForNonEmptyValueWhoseBlockIsReceivedAndValid en bk r c = Some (x, c')" "keeps c c'"
proof -
  obtain ex v where ev: "IsSoftVoteEnoughForNonEmpty (c_counter c) (c_EmptyValue c) r = (ex, v)" by force
  show ?thesis
  proof (cases "ex \<and> getProposalBlock v c \<noteq> None")
    case True
    then obtain d where d: "mget (c_ReceivedProposalBlock c) v = Some d" by (auto simp: getProposalBlock_def)
    obtain e c' where "verifyBlockSync en bk (pb_Block d) c = Some (e, c')" "keeps c c'"
      using verifyBlockSync_total [OF assms d] by blast
    with that [OF _ this(2), of "if e = None then (True, v) else (False, 0)"] ev d True show ?thesis
      by (simp add: isSoftVoteEnoughForNonEmptyValueWhoseBlockIsReceivedAndValid_def getProposalBlock_def)
  next
    case False
    with that ev show ?thesis
      by (auto simp: isSoftVoteEnoughForNonEmptyValueWhoseBlockIsReceivedAndValid_def split: option.splits)
  qed
qed

lemma sendVote_total:
  assumes "alive en bk c" "t = VoteTypeOfStep (c_Step c)"
  obtains c' where "sendVote en t v sb c = Some c'" "keeps c c'"
proof -
  obtain key mkm where k: "GetMinerKey (c_currentMiner c) (c_Height c) (c_mkm c) = (key, mkm)" by force
  have m: "MinerKey_Sign (en_crypto en) mk (c_Height c) data \<noteq> None" if "key = Inr mk" for mk data
  proof -
    have "fst (GetMinerKey (c_currentMiner c) (c_Height c) (c_mkm c)) = Inr mk" by (simp add: k that)
    with assms(1) have "mk_Lifespan mk \<noteq> 0" unfolding alive_def sound_def by blast
    then show ?thesis by (simp add: MinerKey_Sign_def Let_def)
  qed
  have q: "keeps c (broadcastMsg x (sendToSelf x (c\<lparr>c_mkm := mkm\<rparr>)))" for x
    using keeps_mkm [OF k] by (simp add: keeps_def drained_def broadcastMsg_def sendToSelf_def)
  have "\<exists>c'. sendVote en t v sb c = Some c' \<and> keeps c c'"
  proof (cases key)
    case (Inl e)
    with assms(2) k keeps_mkm [OF k] show ?thesis by (simp add: sendVote_def)
  next
    case (Inr mk)
    from m [OF Inr] obtain r where "MinerKey_Sign (en_crypto en) mk (c_Height c) (word_bytes 32 v) = Some r" by blast
    with Inr assms(2) k keeps_mkm [OF k] q show ?thesis by (cases r) (simp_all add: sendVote_def Let_def)
  qed
  with that show ?thesis by blast
qed

lemma sendVote_still: "sendVote en t x sb c = Some c' \<Longrightarrow> still en c c'"
  by (erule sendVote_cases) (simp_all add: quiet_still)

lemma OnExit_total:
  assumes "c_state c \<noteq> None"
  obtains c' where "switchState s c = Some c'" "keeps c c'" "c_Step c' = c_Step c" "c_state c' = Some s"
    "c_Round c' = c_Round c" "c_Height c' = c_Height c"
proof -
  note result = that
  obtain y where "c_state c = Some y" using assms by blast
  then have "OnExit c = Some (c\<lparr>c_out := c_out (the (OnExit c))\<rparr>)" by (cases y) (simp_all add: OnExit_def clearTimer_def)
  then obtain out where "OnExit c = Some (c\<lparr>c_out := out\<rparr>)" by (rule that)
  then show thesis by (intro result [of "c\<lparr>c_out := out, c_state := Some s\<rparr>"]) (simp_all add: switchState_def keeps_def drained_def)
qed

section \<open>Every timeout is handled\<close>

lemma gotoSecondFinishing_total:
  assumes "alive en bk c" "c_state c \<noteq> None"
  shows "\<exists>c'. gotoSecondFinishing en bk c = Some c'"
proof -
  obtain d where d: "switchState (StateSecondFinishing zeroBase 0) c = Some d" "keeps c d"
    using OnExit_total [OF assms(2)] by blast
  let ?e = "startTimer en (d\<lparr>c_Step := c_Step d + 1\<rparr>)"
  have "keeps d ?e" by (rule keeps_trans [OF keeps_fields(2) keeps_startTimer])
  then have "alive en bk ?e" using assms(1) d(2) by (blast intro: keeps_alive keeps_trans)
  with d show ?thesis
    by (elim sortition_total) (simp add: gotoSecondFinishing_def SecondFinishing_OnEnter_def)
qed

lemma gotoFirstFinishing_total:
  assumes "alive en bk c" "c_state c \<noteq> None" "RoundStep4FirstFinishing \<le> c_Step c + 1"
  shows "\<exists>c'. gotoFirstFinishing en bk c = Some c'"
proof -
  obtain d where d: "switchState (StateFirstFinishing zeroBase) c = Some d" "keeps c d" "c_Step d = c_Step c"
    using OnExit_total [OF assms(2)] by blast
  let ?e = "d\<lparr>c_Step := c_Step d + 1\<rparr>"
  have e: "alive en bk ?e" using assms(1) d(2) keeps_fields(2) by (blast intro: keeps_alive keeps_trans)
  obtain sb f where f: "Context_sortition en ?e = Some (sb, f)" "keeps ?e f" using sortition_total [OF e] by blast
  define g where "g = f\<lparr>c_state := Some (StateFirstFinishing sb)\<rparr>"
  have g: "alive en bk g" unfolding g_def using e f(2) keeps_fields(3) by (blast intro: keeps_alive keeps_trans)
  obtain ex v h where h: "isSoftVoteEnoughForNonEmptyValueWhoseBlockIsReceivedAndValid en bk (c_Round g) g = Some ((ex, v), h)" "keeps g h"
    using soft_enough_total [OF g] by (metis surj_pair)
  have hs: "alive en bk h" using g h(2) by (rule keeps_alive [rotated])
  have "c_Step g = c_Step c + 1" using quietD(3) [OF quiet_sortition [OF f(1)]] d(3) by (simp add: g_def)
  moreover have "quiet en g h" using h(1) by (rule quiet_soft_enough)
  ultimately have t: "VoteTypeNext = VoteTypeOfStep (c_Step h)" "c_state h \<noteq> None" using assms(3) by (simp_all add: quiet_def g_def)
  have "\<exists>c'. (sendVote en VoteTypeNext x sb h \<bind> gotoSecondFinishing en bk) = Some c'" for x
  proof -
    obtain k where k: "sendVote en VoteTypeNext x sb h = Some k" "keeps h k" using sendVote_total [OF hs t(1)] by blast
    have "c_state k \<noteq> None" using sendVote_still [OF k(1)] t(2) by (simp add: still_def)
    then show ?thesis using gotoSecondFinishing_total [OF keeps_alive [OF k(2) hs]] k(1) by simp
  qed
  moreover have "\<exists>c'. gotoSecondFinishing en bk g = Some c'" by (rule gotoSecondFinishing_total [OF g]) (simp add: g_def)
  ultimately show ?thesis using d(1) f(1) h(1)
    by (auto simp: gotoFirstFinishing_def FirstFinishing_OnEnter_def g_def Let_def)
qed

lemma tryCertValue_total:
  assumes "alive en bk c" "c_Step c = RoundStep3Certifying"
  shows "\<exists>c'. tryCertValue en bk sb v c = Some c'"
proof (cases "getProposalBlock v c")
  case None
  then show ?thesis by (simp add: tryCertValue_def)
next
  case (Some d)
  obtain e f where f: "verifyBlockSync en bk (pb_Block d) c = Some (e, f)" "keeps c f"
    using verifyBlockSync_total [OF assms(1)] Some unfolding getProposalBlock_def by blast
  have "VoteTypeCert = VoteTypeOfStep (c_Step f)" using quiet_verifyBlockSync [OF f(1)] assms(2) by (simp add: quiet_def)
  then obtain g where "sendVote en VoteTypeCert v sb f = Some g" using sendVote_total [OF keeps_alive [OF f(2) assms(1)]] by blast
  with Some f(1) show ?thesis by (simp add: tryCertValue_def)
qed

lemma gotoCertifying_total:
  assumes "alive en bk c" "c_state c \<noteq> None"
  shows "\<exists>c'. gotoCertifying en bk c = Some c'"
proof -
  obtain d where d: "switchState (StateCertifying zeroBase 0) c = Some d" "keeps c d"
    using OnExit_total [OF assms(2)] by blast
  let ?e = "startTimer en (d\<lparr>c_Step := RoundStep3Certifying\<rparr>)"
  have "keeps d ?e" by (rule keeps_trans [OF keeps_fields(2) keeps_startTimer])
  then have e: "alive en bk ?e" using assms(1) d(2) by (blast intro: keeps_alive keeps_trans)
  obtain sb f where f: "Context_sortition en ?e = Some (sb, f)" "keeps ?e f" using sortition_total [OF e] by blast
  define g where "g = f\<lparr>c_state := Some (StateCertifying sb 0)\<rparr>"
  have "alive en bk g" unfolding g_def using e f(2) keeps_fields(3) by (blast intro: keeps_alive keeps_trans)
  moreover have "c_Step g = RoundStep3Certifying"
    using quietD(3) [OF quiet_sortition [OF f(1)]] startTimer_fields(3) [of en "d\<lparr>c_Step := RoundStep3Certifying\<rparr>"] by (auto simp: g_def)
  ultimately have "\<exists>c'. tryCertValue en bk sb v g = Some c'" for v by (rule tryCertValue_total)
  with d(1) f(1) show ?thesis by (auto simp: gotoCertifying_def Certifying_OnEnter_def g_def Let_def split: prod.split)
qed

lemma gotoFiltering_total:
  assumes "alive en bk c" "c_state c \<noteq> None"
  shows "\<exists>c'. gotoFiltering en bk c = Some c'"
proof -
  obtain d where d: "switchState (StateFiltering zeroBase) c = Some d" "keeps c d"
    using OnExit_total [OF assms(2)] by blast
  let ?e = "d\<lparr>c_Step := RoundStep2Filtering\<rparr>"
  have e: "alive en bk ?e" using assms(1) d(2) keeps_fields(2) by (blast intro: keeps_alive keeps_trans)
  obtain sb f where f: "Context_sortition en ?e = Some (sb, f)" "keeps ?e f" using sortition_total [OF e] by blast
  define g where "g = f\<lparr>c_state := Some (StateFiltering sb)\<rparr>"
  have g: "alive en bk g" unfolding g_def using e f(2) keeps_fields(3) by (blast intro: keeps_alive keeps_trans)
  have t: "VoteTypeSoft = VoteTypeOfStep (c_Step g)" using quietD(3) [OF quiet_sortition [OF f(1)]] by (simp add: g_def)
  have "\<exists>c'. (sendVote en VoteTypeSoft x sb g \<bind> gotoCertifying en bk) = Some c'" for x
  proof -
    obtain k where k: "sendVote en VoteTypeSoft x sb g = Some k" "keeps g k" using sendVote_total [OF g t] by blast
    have "c_state k \<noteq> None" using sendVote_still [OF k(1)] by (simp add: still_def g_def)
    then show ?thesis using gotoCertifying_total [OF keeps_alive [OF k(2) g]] k(1) by simp
  qed
  moreover have "\<exists>c'. gotoCertifying en bk g = Some c'" by (rule gotoCertifying_total [OF g]) (simp add: g_def)
  ultimately show ?thesis using d(1) f(1)
    by (auto simp: gotoFiltering_def Filtering_OnEnter_def g_def Let_def split: option.split)
qed

lemma OnTimeout_total:
  assumes "alive en bk c" "parked c" "c_Step c < 0xFFFFFFF0"
  shows "\<exists>c'. OnTimeout en bk c = Some c'"
proof -
  have "RoundStep4FirstFinishing \<le> c_Step c + 1" if "RoundStep3Certifying \<le> c_Step c"
  proof -
    have "unat (c_Step c + 1) = unat (c_Step c) + 1"
      using assms(3) by (intro unat_step_succ) (erule less_trans, simp)
    with that show ?thesis by (simp add: word_le_nat_alt round_step_defs)
  qed
  moreover have "RoundStep3Certifying \<le> s" if "RoundStep4FirstFinishing < s" for s :: u32
    using that by (simp add: word_le_nat_alt word_less_nat_alt round_step_defs)
  ultimately show ?thesis using assms(1,2) gotoFiltering_total [of en bk c] gotoFirstFinishing_total [of en bk c]
    by (auto simp: OnTimeout_def parked_def split: option.splits State.splits)
qed


section \<open>A stake that is not part of the total\<close>

lemma GetWeight_too_large:
  fixes cr s miner config
  defines "p \<equiv> TotalWeight config * GetBalanceWithFund cr s miner"
  assumes "0 < totalBalance" "0 < TotalWeight config" "(TotalWeight config + 1) * totalBalance \<le> p" "p < 2 ^ 63 * totalBalance"
  shows "\<exists>w W. GetWeight cr config miner s totalBalance h = Some (w, W) \<and> W < w"
proof -
  define q where "q = p div totalBalance"
  have "q * totalBalance \<le> p" using assms(2) by (simp add: q_def minus_mod_eq_div_mult [symmetric])
  then have "q * totalBalance < 2 ^ 63 * totalBalance" using assms(5) by (rule le_less_trans)
  then have q: "TotalWeight config + 1 \<le> q" "q < 2 ^ 63"
    using assms(2) zdiv_mono1 [OF assms(4,2)] by (simp_all add: q_def)
  have "0 \<le> p" using assms(2-4) by (smt (verit) mult_nonneg_nonneg)
  then have d: "p sdiv totalBalance = q" using assms(2) sdiv_pos [of p totalBalance] by (simp add: q_def)
  have u: "uint (Big_Uint64 q) = q" "uint (Big_Uint64 (TotalWeight config)) = TotalWeight config"
    using q assms(3) by (auto intro!: uint_of_range)
  have "uint (Big_Uint64 q + 1) = q + 1" using q u(1) assms(3) by (simp add: uint_word_ariths)
  then have "Big_Uint64 (TotalWeight config) < Big_Uint64 q + e" if "e = 0 \<or> e = 1" for e
    using that q u by (auto simp: word_less_def)
  then show ?thesis using assms(2) by (simp add: GetWeight_def Let_def d p_def [symmetric])
qed


end
