(* ===== verification/Machine_Run.thy ===== *)
theory Machine_Run
  imports Machine_Seal Machine_Progress
begin

text \<open>
  A run of the consensus state machine, from its start on the genesis block over a proposal, the soft
  vote and the certificate vote to a next vote, on concrete surroundings with a single miner; and
  another one that only listens and seals a block.  The theorems on the machine are applied to them.
\<close>

section \<open>The surroundings\<close>

text \<open>A hash that tells headers from everything else, and a distribution that chooses the whole stake.\<close>

definition run_crypto :: crypto where
  "run_crypto = plain_crypto\<lparr>Keccak256 := (\<lambda>bs. if length bs = 1 then 9 else 7),
     EncodeToBytes := (\<lambda>x. case x of RList xs \<Rightarrow> if length xs = 16 then [1] else [] | _ \<Rightarrow> [])\<rparr>"

abbreviation whole :: binomial where "whole \<equiv> \<lambda>h n t W j. j < n"

definition run_config :: AlgorandConfig where "run_config = seal_config\<lparr>TotalWeight := 5000\<rparr>"

definition run_env :: env where
  "run_env = \<lparr>en_crypto = run_crypto, en_binomial = whole, en_config = demo_chain_config\<lparr>cc_Algorand := run_config\<rparr>,
     en_gasFloor = 0, en_gasCeil = 0, en_signer = (\<lambda>_. None)\<rparr>"

definition run_parent :: Block where
  "run_parent = \<lparr>b_header = demo_header\<lparr>h_Number := 0, h_TotalBalanceOfMiners := 2\<rparr>, b_uncles = [], b_transactions = []\<rparr>"

definition run_block :: Block where
  "run_block = \<lparr>b_header = demo_header\<lparr>h_Number := 1, h_MixDigest := 6, h_Certificate := seal_certificate\<rparr>,
     b_uncles = [], b_transactions = []\<rparr>"

definition run_backend :: backend where
  "run_backend =
     \<lparr>bk_chain = demo_chain\<lparr>GetHeader := (\<lambda>_ _. Some demo_header)\<rparr>,
      bk_executor = \<lparr>ex_sender = (\<lambda>_. None), ex_ApplyMessage = (\<lambda>_ _ _ _ g s. (Inr (0, False), g, s)), ex_ApplyDAOHardFork = id\<rparr>,
      bk_StateAt = (\<lambda>_. Some seal_db), bk_GetBlock = (\<lambda>_ _. None), bk_GetHeaderByNumber = (\<lambda>_. None),
      bk_CurrentBlock = run_parent, bk_Pending = None, bk_now = 0, bk_quit = (\<lambda>_. False), bk_stopped = False,
      bk_BuildProof = (\<lambda>_ _ _ _ _. Some []), bk_InsertChain = (\<lambda>_. None), bk_WriteBlock = (\<lambda>_ _ _. Inr True)\<rparr>"

definition run_key :: MinerKey where
  "run_key = \<lparr>mk_config = run_config, mk_Miner = 7, mk_Coinbase = 7, mk_Start = 1, mk_End = 1000, mk_Lifespan = 30,
     mk_VrfKey = 3, mk_VoteKey = \<lparr>fs_PublicKey = 5, fs_Start = 0, fs_SubKeys = [\<lparr>Sk = 8, PkSig = 4\<rparr>]\<rparr>\<rparr>"

definition run_manager :: MinerKeyManager where
  "run_manager = \<lparr>mkm_config = run_config, mkm_files = [],
     mkm_keys = [(\<lparr>id_miner = 7, id_begin = 0, id_end = 1000\<rparr>, run_key)]\<rparr>"

section \<open>Verification and sortition there\<close>

lemma run_hash [simp]: "Header_Hash run_crypto h = 9" "Block_Hash run_crypto b = 9" "AlgorandEmptyValue run_crypto p n = 7"
  by (simp_all add: Header_Hash_def Block_Hash_def AlgorandEmptyValue_def rlpHash_def run_crypto_def)

lemma run_nonzero: "hash_nonzero run_env"
  by (simp add: hash_nonzero_def run_env_def)

lemma run_env_fields [simp]: "en_crypto run_env = run_crypto" "en_binomial run_env = whole" "cc_Algorand (en_config run_env) = run_config"
  by (simp_all add: run_env_def)

lemma run_verifier: "GetMinerVerifier run_crypto run_config seal_db a 1 =
    \<lparr>mv_config = run_config, mv_miner = a, mv_coinbase = 7, mv_start = 1, mv_end = 1000, mv_lifespan = 30,
     mv_vrfVerifier = 3, mv_voteVerifier = 5\<rparr>"
  by (simp add: GetMinerVerifier_def GetMiner_def MakeMinerInfoKey_def run_crypto_def plain_crypto_def seal_db_def GetState_new seal_trie_def
      MinerAddress_def slot_parse BigToHash_eq GetInterval_def GetIntervalSn_def run_config_def seal_config_def)

lemma run_weight: "GetWeight run_crypto run_config 7 seal_db 2 6 = Some (5000, 5000)"
  and run_balance: "GetBalanceWithFund run_crypto seal_db 7 = 2"
proof -
  have "GetTotalFund run_crypto seal_db 7 = 0"
    by (simp add: GetTotalFund_def GetState_new seal_db_def seal_trie_def DelegationAddress_def MinerAddress_def)
  moreover have "GetBalance seal_db 7 = 2"
    by (simp add: GetBalance_def seal_db_def getStateObject_def seal_trie_def NewStateDB_def newObject_def Let_def)
  ultimately show *: "GetBalanceWithFund run_crypto seal_db 7 = 2" by (simp add: GetBalanceWithFund_def)
  then show "GetWeight run_crypto run_config 7 seal_db 2 6 = Some (5000, 5000)"
    by (simp add: GetWeight_def sdiv_pos Big_Uint64_def Let_def run_config_def)
qed

abbreviation run_size :: "u32 \<Rightarrow> u64" where "run_size step \<equiv> snd (GetCommitteeNumber 1 step)"

lemma run_choice: "Choose whole 6 5000 th (run_size step) 5000 = Some (run_size step)"
proof -
  have "Choose whole 6 5000 0 20 5000 = Some 20" "Choose whole 6 5000 0 2990 5000 = Some 2990"
    "Choose whole 6 5000 0 1500 5000 = Some 1500" "Choose whole 6 5000 0 5000 5000 = Some 5000" by code_simp+
  then show ?thesis by (simp add: Choose_def GetCommitteeNumber_def CommitteeConfigv1_def)
qed

lemma run_positive: "run_size step \<noteq> 0"
  by (simp add: GetCommitteeNumber_def CommitteeConfigv1_def)

lemma run_sizes: "run_size RoundStep1Proposal = 20" "run_size RoundStep2Filtering = 2990" "run_size RoundStep3Certifying = 1500"
  "run_size 4 = 5000" "run_size 5 = 5000"
  by (simp_all add: GetCommitteeNumber_def CommitteeConfigv1_def round_step_defs)

lemma run_verify:
  assumes "c_parentStatedb c = seal_db" "c_parent c = run_parent" "cr_Address cred = 7" "cr_Height cred = 1" "cr_Proof cred = 1"
  shows "verify_credential run_env data seal_sig cred c = Some (None, cred\<lparr>cr_Weight := run_size (cr_Step cred)\<rparr>)"
proof -
  have "VrfVerify256 run_crypto 3 1 d = Some 6" for d
    by (simp add: VrfVerify256_def VrfProofToHash256_def run_crypto_def plain_crypto_def)
  moreover have "c_Seed c = 0" "c_Total c = 2" by (simp_all add: assms(2) run_parent_def demo_header_def Seed_def)
  ultimately show ?thesis using assms run_weight run_choice run_positive
    by (simp add: verify_credential_def VerifySignatureAndCredential_def VerifySignature_def VerifySortition_def run_verifier
        MinerVerifier_Validate_def ForwardSecureVerify_def Verify_def seal_sig_def Let_def case_prod_beta)
      (simp add: run_crypto_def plain_crypto_def)
qed

lemma run_GetMinerKey: "GetMinerKey 7 1 run_manager = (Inr run_key, run_manager)"
  by (simp add: GetMinerKey_def run_manager_def GetInterval_def GetIntervalSn_def run_config_def seal_config_def)

lemma run_sortition:
  assumes "c_mining c" "c_currentMiner c = 7" "c_Height c = 1" "c_mkm c = run_manager" "c_parentStatedb c = seal_db" "c_parent c = run_parent"
  shows "Context_sortition run_env c = Some (\<lparr>sb_weight = run_size (c_Step c), sb_hash = 6, sb_proof = 1\<rparr>, c)"
proof -
  have "VrfProve run_crypto 3 d = Some 1" "VrfProofToHash256 run_crypto 1 = Some 6" for d
    by (simp_all add: VrfProve_def VrfProofToHash256_def run_crypto_def plain_crypto_def)
  moreover have "c_Seed c = 0" "c_Total c = 2" by (simp_all add: assms(6) run_parent_def demo_header_def Seed_def)
  moreover have "c\<lparr>c_mkm := run_manager\<rparr> = c" using assms(4) by simp
  ultimately show ?thesis using assms run_weight run_choice
    by (simp add: Context_sortition_def run_GetMinerKey MinerKey_Sortition_def MinerKey_Validate_def run_key_def Let_def case_prod_beta)
qed

lemma run_Sign: "MinerKey_Sign run_crypto run_key 1 data = Some (Inr seal_sig)"
  by (simp add: MinerKey_Sign_def MinerKey_Validate_def run_key_def Let_def ValidOffset_def ForwardSecureSign_def seal_sig_def Sign_def
      PrivateKeyToPublicKey_def run_crypto_def plain_crypto_def)

lemma run_sendVote:
  assumes "\<not> c_recover c" "t = VoteTypeOfStep (c_Step c)" "c_currentMiner c = 7" "c_Height c = 1" "c_mkm c = run_manager"
  shows "sendVote run_env t v sb c =
    (let m = VoteMsg \<lparr>v_Value = v, v_ESignValue = seal_sig, v_Credential = own_credential (c_Step c) sb c\<rparr>
     in Some (broadcastMsg m (sendToSelf m c)))"
  using assms by (cases c) (simp add: sendVote_def run_GetMinerKey run_Sign Let_def own_credential_def)

section \<open>A voting run\<close>

definition run_vote :: "u32 \<Rightarrow> VoteData" where
  "run_vote step = \<lparr>v_Value = 9, v_ESignValue = seal_sig,
     v_Credential = \<lparr>cr_Address = 7, cr_Height = 1, cr_Round = 1, cr_Step = step, cr_Proof = 1, cr_Weight = run_size step\<rparr>\<rparr>"

definition run_data :: ProposalBlockData where
  "run_data = \<lparr>pb_Block = run_block, pb_ESignValue = seal_sig,
     pb_Credential = \<lparr>cr_Address = 7, cr_Height = 1, cr_Round = 1, cr_Step = RoundStep1Proposal, cr_Proof = 1, cr_Weight = 20\<rparr>\<rparr>"

definition run_init :: Context where
  "run_init =
     \<lparr>c_extra = [], c_mining = False, c_recover = False, c_mkm = run_manager, c_currentMiner = 7, c_nextMiner = 7, c_state = None,
      c_parent = run_parent, c_parentStatedb = seal_db, c_parentRoundVoteSet = None, c_parentCertVoteRound = 0,
      c_parentProposalBlockData = None, c_Height = 1, c_Round = 0, c_Step = 0, c_EmptyValue = 7, c_StartingValue = 7,
      c_counter = NewHeightVoteSet, c_ProposalLeader = [], c_ReceivedProposalBlock = [], c_verifing = [], c_verified = [],
      c_WaitingBlockForValue = 7, c_WaitingBlockForRound = 0, c_statedb = None, c_receipts = [], c_mortgageContractCounter = [],
      c_newBlock = None, c_msgChan = [], c_broadcastMsgCh = [], c_journals = [], c_journal = Some 1, c_out = []\<rparr>"

definition run_timeout :: "u32 \<Rightarrow> TimeoutInfo" where
  "run_timeout step = \<lparr>ti_Duration = 2000000000, ti_Height = 1, ti_Round = 1, ti_Step = step\<rparr>"

lemma run_timer:
  assumes "c_Height c = 1" "c_Round c = 1" "c_Step c < 8"
  shows "startTimer run_env c = c\<lparr>c_out := c_out c @ (case c_state c of Some (StateProposal _ _ _) \<Rightarrow> [Sub (makeChanId 1 1) 4000000000] | _ \<Rightarrow> [])
    @ [Schedule (run_timeout (c_Step c))]\<rparr>"
proof -
  have "\<not> (3 :: u32) \<le> 1" "\<not> 8 \<le> c_Step c" using assms(3) by (simp_all add: word_le_nat_alt word_less_nat_alt)
  then have "timer_factor 1 (c_Step c) = 1" by (simp add: timer_factor_def increaseFromRound_def increaseFromStep_def Let_def)
  moreover have "TimeoutTwoLambdaDuration run_config = 2000000000"
    by (simp add: TimeoutTwoLambdaDuration_def run_config_def seal_config_def)
  ultimately show ?thesis using assms(1,2)
    by (simp add: startTimer_def Let_def run_timeout_def split: option.split State.split)
qed

text \<open>The start.\<close>

definition run_c0 :: Context where
  "run_c0 = run_init\<lparr>c_state := Some (StateProposal zeroBase 1 7), c_Round := 1, c_Step := 1,
     c_broadcastMsgCh := [(StatusMsg \<lparr>sd_Height = 1, sd_Round = 1\<rparr>, fromMe)],
     c_out := [Sub (makeChanId 1 1) 4000000000, Schedule (run_timeout 1)]\<rparr>"

lemma run_genesis [simp]: "Block_Number run_parent = 0" "h_Number (b_header run_parent) = 0"
  by (simp_all add: run_parent_def demo_header_def Block_Number_def NumberU64_def)

lemma run_start: "readyRecover run_env run_backend run_parent run_init = Some run_c0"
proof -
  define c where "c = run_init\<lparr>c_state := Some (StateNewHeight run_parent)\<rparr>"
  have i: "NewHeight_init run_env seal_db run_parent c = c"
    by (simp add: NewHeight_init_def Let_def c_def run_init_def BadRound_def BadStep_def)
  have "gotoProposal run_env run_backend 1 7 c = Some run_c0"
    by (simp add: gotoProposal_def switchState_def OnExit_def Proposal_OnEnter_def Let_def run_timer broadcastMsg_def
        sendToMessageChan_def msgChanSize_def Context_sortition_def c_def run_init_def run_c0_def round_step_defs zeroBase_def)
  then have "startStateMachine run_env run_backend run_parent run_init = Some run_c0"
    using i by (simp add: startStateMachine_def NewHeight_OnEnter_def run_backend_def resetParentRoundVoteSet_def
        resetParentProposalBlockData_def Let_def flip: c_def)
      (simp add: c_def run_init_def resetParentRoundVoteSet_def resetParentProposalBlockData_def)
  moreover have "\<not> c_recover run_init" "\<not> c_recover run_c0" "run_c0\<lparr>c_recover := False\<rparr> = run_c0"
    by (simp_all add: run_c0_def run_init_def)
  ultimately show ?thesis by (simp add: readyRecover_def Let_def)
qed

lemma run_c0_reachable: "reachable run_env run_c0"
  by (rule started [OF run_start]) (simp_all add: run_init_def)

text \<open>A block arrives; when it is the node's own, it counts as verified.\<close>

definition run_received :: "string \<Rightarrow> Context" where
  "run_received from = run_c0\<lparr>
     c_journals := [(1, [JournalMsg (journaled (ProposalBlockMsg run_data)) from])],
     c_broadcastMsgCh := c_broadcastMsgCh run_c0 @ [(HasProposalBlockMsg (ProposalBlockData_ToHasProposalData run_crypto run_data), fromMe)],
     c_ProposalLeader := [(1, NewProposalLeaderData run_crypto run_data)],
     c_ReceivedProposalBlock := [(9, run_data)],
     c_verified := (if from = fromMe then [(9, \<lparr>bs_err = None, bs_statedb = None, bs_receipts = [], bs_counter = []\<rparr>)] else [])\<rparr>"

lemma run_seed: "VerifySeed run_crypto (GetMinerVerifier run_crypto run_config seal_db 7 1) 1 s p 6 1 = None"
  unfolding run_verifier
  by (simp add: VerifySeed_def MinerVerifier_Validate_def VrfVerify256_def VrfProofToHash256_def run_crypto_def plain_crypto_def)

lemma run_data_fields [simp]:
  "pb_Block run_data = run_block" "pb_ESignValue run_data = seal_sig" "cr_Address (pb_Credential run_data) = 7"
  "cr_Height (pb_Credential run_data) = 1" "cr_Proof (pb_Credential run_data) = 1"
  "cr_Step (pb_Credential run_data) = RoundStep1Proposal" "cr_Round (pb_Credential run_data) = 1"
  "run_data\<lparr>pb_Credential := (pb_Credential run_data)\<lparr>cr_Weight := 20\<rparr>\<rparr> = run_data"
  "Seed (b_header run_block) = 6" "Block_SeedProof run_block = 1" "h_Coinbase (b_header run_block) = 7" "Block_Number run_block = 1"
  by (simp_all add: run_data_def run_block_def demo_header_def Seed_def Block_SeedProof_def Block_Certificate_def Certificate_SeedProof_def
      seal_certificate_def Block_Number_def NumberU64_def)

lemma run_header_ok: "VerifyHeader (bk_chain run_backend) cr bin config n h False = Some None"
  by (simp add: VerifyHeader_def run_backend_def)

lemma run_handle_block:
  assumes c: "c = run_c0\<lparr>c_journals := j\<rparr>"
  shows "handleProposalBlock run_env run_backend from run_data c = Some (run_received from\<lparr>c_journals := j\<rparr>)"
proof -
  have v: "verify_credential run_env d seal_sig (pb_Credential run_data) c =
      Some (None, (pb_Credential run_data)\<lparr>cr_Weight := 20\<rparr>)" for d
    using run_verify [of c "pb_Credential run_data" d] run_sizes(1) by (simp add: c run_c0_def run_init_def)
  define e where "e = run_received ''p''\<lparr>c_journals := j, c_ReceivedProposalBlock := []\<rparr>"
  have l: "OnProposalLeaderReceived run_env (NewProposalLeaderData run_crypto run_data)
      (broadcastMsg (HasProposalBlockMsg (ProposalBlockData_ToHasProposalData run_crypto run_data)) c) = Some e"
    by (simp add: OnProposalLeaderReceived_def broadcastMsg_def c run_c0_def run_init_def e_def run_received_def getProposalLeader_def
        BadRound_def UpdateProposalLeader_def sendToMessageChan_def msgChanSize_def NewProposalLeaderData_def round_step_defs fromMe_def)
  have "accept_block run_env run_backend from run_data e = Some (run_received from\<lparr>c_journals := j\<rparr>)"
    by (simp add: accept_block_def saveVerifiedBlockState_def SaveProposalBlock_def e_def run_received_def run_c0_def run_init_def
        fromMe_def Let_def IsPotentialValue_def HeightVoteSet_RoundVoteSet_def NewHeightVoteSet_def OnProposalDataComplete_def
        Base_OnProposalDataComplete_def)
  moreover have "getProposalBlock 9 c = None" by (simp add: c run_c0_def run_init_def getProposalBlock_def)
  moreover have "c_parentStatedb c = seal_db" by (simp add: c run_c0_def run_init_def)
  ultimately show ?thesis using v l run_seed run_header_ok
    by (simp add: handleProposalBlock_def Let_def) (simp add: run_verifier)
qed

lemma run_c0_fields [simp]:
  "c_msgChan run_c0 = []" "c_journal run_c0 = Some 1" "c_journals run_c0 = []" "c_Height run_c0 = 1"
  "c_state run_c0 = Some (StateProposal zeroBase 1 7)"
  by (simp_all add: run_c0_def run_init_def)

lemma run_received_reachable: "reachable run_env (run_received from)"
proof -
  define m where "m = ProposalBlockMsg run_data"
  define j where "j = [(1 :: u64, [JournalMsg (journaled m) from])]"
  define c where "c = run_c0\<lparr>c_journals := j\<rparr>"
  have "machine_step run_env run_backend (Receive m from) run_c0 = Some (run_c0\<lparr>c_msgChan := [(m, from)]\<rparr>)"
    by (simp add: OnReceive_def sendToMessageChan_def msgChanSize_def)
  then have r: "reachable run_env (run_c0\<lparr>c_msgChan := [(m, from)]\<rparr>)"
    by (rule stepped [OF run_c0_reachable, rotated]) (simp add: event_fits_def)
  have w: "VoteJournal_Write (JournalMsg (journaled m) from) (run_c0\<lparr>c_msgChan := []\<rparr>) = Some c"
    by (simp add: VoteJournal_Write_def journal_file_def c_def j_def)
  have "run_received from\<lparr>c_journals := j\<rparr> = run_received from" by (simp add: run_received_def j_def m_def)
  with run_handle_block [OF c_def, of "from"]
  have h: "handleProposalBlock run_env run_backend from run_data c = Some (run_received from)" by simp
  have "c_state c = Some (StateProposal zeroBase 1 7)" "c_Height c = 1" by (simp_all add: c_def)
  then have "handleMsg run_env run_backend m from c = Some (run_received from)"
    by (simp add: handleMsg_def m_def ProposalBlockData_Valid_def BadRound_def h)
  moreover have "Block_Number (bk_CurrentBlock run_backend) = 0" by (simp add: run_backend_def)
  ultimately have "machine_step run_env run_backend Message (run_c0\<lparr>c_msgChan := [(m, from)]\<rparr>) = Some (run_received from)"
    using w by simp
  then show ?thesis by (rule stepped [OF r, rotated]) (simp add: event_fits_def m_def small_round_def)
qed

text \<open>The node starts to mine; the first timeout makes it vote for the leader's value.\<close>

abbreviation run_sb :: "u64 \<Rightarrow> StateBase" where "run_sb w \<equiv> \<lparr>sb_weight = w, sb_hash = 6, sb_proof = 1\<rparr>"

definition run_mining :: Context where "run_mining = (run_received fromMe)\<lparr>c_mining := True\<rparr>"

definition run_soft :: Context where
  "run_soft = run_mining\<lparr>c_state := Some (StateCertifying (run_sb 1500) 0), c_Step := 3,
     c_journals := [(1, snd (hd (c_journals run_mining)) @ [JournalTimeout (run_timeout 1)])],
     c_msgChan := [(VoteMsg (run_vote 2), fromMe)], c_broadcastMsgCh := c_broadcastMsgCh run_mining @ [(VoteMsg (run_vote 2), fromMe)],
     c_out := c_out run_mining @ [SelfMsg (VoteMsg (run_vote 2)), Schedule (run_timeout 3)]\<rparr>"

lemmas run_unfold = run_mining_def run_received_def run_c0_def run_init_def
lemmas run_entering = switchState_def OnExit_def clearTimer_def run_sortition run_timer run_sendVote own_credential_def broadcastMsg_def
  sendToSelf_def sendToMessageChan_def msgChanSize_def

lemma run_mining_reachable: "reachable run_env run_mining"
  by (rule stepped [OF run_received_reachable [of fromMe], of _ MiningStarted])
    (simp_all add: event_fits_def StartMining_def run_mining_def)

lemma run_certifying:
  assumes "c_mining c" "c_currentMiner c = 7" "c_Height c = 1" "c_Round c = 1" "c_mkm c = run_manager" "c_parentStatedb c = seal_db"
    and "c_parent c = run_parent" "c_counter c = NewHeightVoteSet" "c_state c = Some (StateFiltering sb)"
  shows "gotoCertifying run_env run_backend c = Some (c\<lparr>c_state := Some (StateCertifying (run_sb 1500) 0), c_Step := 3,
    c_out := c_out c @ [Schedule (run_timeout 3)]\<rparr>)"
  using assms run_sizes(3)
  by (simp add: gotoCertifying_def Certifying_OnEnter_def run_entering Let_def IsSoftVoteEnoughForNonEmpty_def HeightVoteSet_RoundVoteSet_def
      NewHeightVoteSet_def round_step_defs)

lemma run_filtering:
  assumes "c = run_mining\<lparr>c_journals := j\<rparr>"
  shows "gotoFiltering run_env run_backend c = Some (run_soft\<lparr>c_journals := j\<rparr>)"
  using run_sizes(2) unfolding assms
  by (simp add: gotoFiltering_def Filtering_OnEnter_def run_entering run_certifying Let_def getProposalLeader_def run_soft_def run_unfold
      BadRound_def NewProposalLeaderData_def run_vote_def round_step_defs VoteTypeOfStep_def vote_type_defs)

lemma run_soft_reachable: "reachable run_env run_soft"
proof -
  have "VoteJournal_Write (JournalTimeout (run_timeout 1)) run_mining =
      Some (run_mining\<lparr>c_journals := [(1, snd (hd (c_journals run_mining)) @ [JournalTimeout (run_timeout 1)])]\<rparr>)"
    by (simp add: VoteJournal_Write_def journal_file_def run_unfold)
  moreover have "handleTimeout run_env run_backend (run_timeout 1) (run_mining\<lparr>c_journals := j\<rparr>) = Some (run_soft\<lparr>c_journals := j\<rparr>)" for j
    using run_filtering [OF refl, of j] by (simp add: handleTimeout_def OnTimeout_def run_timeout_def run_unfold)
  moreover have "Block_Number (bk_CurrentBlock run_backend) < c_Height run_mining" by (simp add: run_backend_def run_unfold)
  ultimately have "machine_step run_env run_backend (Timeout (run_timeout 1)) run_mining = Some run_soft"
    by (simp add: run_soft_def)
  then show ?thesis by (rule stepped [OF run_mining_reachable, rotated]) (simp add: event_fits_def run_timeout_def)
qed

text \<open>Its soft vote is a quorum, so it casts a certificate vote; then a next vote for the same value.\<close>

definition run_counter :: HeightVoteSet where "run_counter = count_vote 1 NewHeightVoteSet (run_vote 2)"

lemma run_count:
  "count_result 1 NewHeightVoteSet (run_vote 2) = \<lparr>ar_added = True, ar_newPotential = True, ar_enough = True, ar_err = None\<rparr>"
  "IsSoftVoteEnoughForNonEmpty run_counter 7 1 = (True, 9)"
  by code_simp+

definition run_cert :: Context where
  "run_cert = run_soft\<lparr>c_counter := run_counter,
     c_journals := [(1, snd (hd (c_journals run_soft)) @ [JournalMsg (journaled (VoteMsg (run_vote 2))) fromMe])],
     c_msgChan := [(VoteMsg (run_vote 3), fromMe)],
     c_broadcastMsgCh := c_broadcastMsgCh run_soft @ [(HasVoteMsg (ToHasVote (run_vote 2)), fromMe), (VoteMsg (run_vote 3), fromMe)],
     c_out := c_out run_soft @ [SelfMsg (VoteMsg (run_vote 3))]\<rparr>"

lemma run_vote_fields [simp]:
  "v_Address (run_vote s) = 7" "v_Height (run_vote s) = 1" "v_Round (run_vote s) = 1" "v_Step (run_vote s) = s" "v_Value (run_vote s) = 9"
  "v_ESignValue (run_vote s) = seal_sig" "cr_Proof (v_Credential (run_vote s)) = 1" "v_Weight (run_vote s) = run_size s"
  "run_vote s\<lparr>v_Credential := (v_Credential (run_vote s))\<lparr>cr_Weight := run_size s\<rparr>\<rparr> = run_vote s"
  by (simp_all add: run_vote_def)

lemma run_handle_soft:
  assumes c: "c = run_soft\<lparr>c_journals := j, c_msgChan := []\<rparr>"
  shows "handleVote run_env run_backend (run_vote 2) c = Some (run_cert\<lparr>c_journals := j\<rparr>)"
proof -
  have f: "c_parentStatedb c = seal_db" "c_parent c = run_parent" "c_counter c = NewHeightVoteSet"
    by (simp_all add: c run_soft_def run_unfold)
  have v: "verify_credential run_env d seal_sig (v_Credential (run_vote 2)) c =
      Some (None, (v_Credential (run_vote 2))\<lparr>cr_Weight := run_size 2\<rparr>)" for d
    using run_verify [OF f(1,2), of "v_Credential (run_vote 2)" d] by simp
  have a: "AddVoteAndCount (run_vote 2) (fst (GetCommitteeNumber 1 2)) NewHeightVoteSet = (count_result 1 NewHeightVoteSet (run_vote 2), run_counter)"
    by (simp add: count_result_def count_vote_def run_counter_def threshold_of_def)
  define e where "e = (broadcastMsg (HasVoteMsg (ToHasVote (run_vote 2))) c)\<lparr>c_counter := run_counter\<rparr>"
  have "OnPotentialVoteEnough run_env run_backend 9 e = Some e"
    by (simp add: OnPotentialVoteEnough_def getProposalBlock_def verifyBlockAsync_def e_def c broadcastMsg_def run_soft_def run_unfold)
  moreover have "tryCertValue run_env run_backend (run_sb 1500) 9 e = Some (run_cert\<lparr>c_journals := j\<rparr>)"
    using run_sizes(3)
    by (simp add: tryCertValue_def getProposalBlock_def verifyBlockSync_def run_sendVote own_credential_def e_def c broadcastMsg_def
        sendToSelf_def sendToMessageChan_def msgChanSize_def run_cert_def run_soft_def run_unfold run_vote_def round_step_defs
        VoteTypeOfStep_def vote_type_defs Let_def)
  then have "react_to_quorum run_env run_backend (run_vote 2) e = Some (run_cert\<lparr>c_journals := j\<rparr>)"
    by (simp add: react_to_quorum_def OnSoftVoteEnough_def VoteTypeOfStep_def round_step_defs vote_type_defs e_def c broadcastMsg_def
        run_soft_def run_unfold)
  moreover have "\<not> HasVote (c_counter c) 1 2 7"
    by (simp add: f HasVote_def NewHeightVoteSet_def HeightVoteSet_RoundVoteSet_def)
  moreover have "c_counter (broadcastMsg m c) = NewHeightVoteSet" for m using f(3) by (simp add: broadcastMsg_def)
  ultimately show ?thesis using v a run_count(1)
    by (simp add: handleVote_def Let_def e_def [symmetric])
qed

lemma run_cert_reachable: "reachable run_env run_cert"
proof -
  have w: "VoteJournal_Write (JournalMsg (journaled (VoteMsg (run_vote 2))) fromMe) (run_soft\<lparr>c_msgChan := []\<rparr>) =
      Some (run_soft\<lparr>c_journals := c_journals run_cert, c_msgChan := []\<rparr>)"
    by (simp add: VoteJournal_Write_def journal_file_def run_cert_def run_soft_def run_unfold)
  have "handleMsg run_env run_backend (VoteMsg (run_vote 2)) fromMe (run_soft\<lparr>c_journals := c_journals run_cert, c_msgChan := []\<rparr>) = Some run_cert"
    using run_handle_soft [OF refl, of "c_journals run_cert"]
    by (simp add: handleMsg_def VoteData_Valid_def) (simp add: run_cert_def run_soft_def run_unfold BadRound_def BadStep_def MaxStep_def round_step_defs)
  then have "machine_step run_env run_backend Message run_soft = Some run_cert"
    using w by (simp add: run_soft_def) (simp add: run_backend_def run_unfold)
  then show ?thesis
    by (rule stepped [OF run_soft_reachable, rotated]) (simp add: event_fits_def run_soft_def small_round_def)
qed

definition run_next :: Context where
  "run_next = run_cert\<lparr>c_state := Some (StateSecondFinishing (run_sb 5000) 0), c_Step := 5,
     c_journals := [(1, snd (hd (c_journals run_cert)) @ [JournalTimeout (run_timeout 3)])],
     c_msgChan := c_msgChan run_cert @ [(VoteMsg (run_vote 4), fromMe)],
     c_broadcastMsgCh := c_broadcastMsgCh run_cert @ [(VoteMsg (run_vote 4), fromMe)],
     c_out := c_out run_cert @ [UnSub (makeChanId 1 1), SelfMsg (VoteMsg (run_vote 4)), Schedule (run_timeout 5)]\<rparr>"

lemma run_finishing:
  "gotoFirstFinishing run_env run_backend (run_cert\<lparr>c_journals := j\<rparr>) = Some (run_next\<lparr>c_journals := j\<rparr>)"
proof -
  define c where "c = run_cert\<lparr>c_journals := j, c_out := c_out run_cert @ [UnSub (makeChanId 1 1)], c_Step := 4,
    c_state := Some (StateFirstFinishing (run_sb 5000))\<rparr>"
  have s: "isSoftVoteEnoughForNonEmptyValueWhoseBlockIsReceivedAndValid run_env run_backend 1 c = Some ((True, 9), c)"
    using run_count(2) by (simp add: isSoftVoteEnoughForNonEmptyValueWhoseBlockIsReceivedAndValid_def verifyBlockSync_def getProposalBlock_def
        c_def run_cert_def run_soft_def run_unfold)
  define d where "d = c\<lparr>c_msgChan := c_msgChan run_cert @ [(VoteMsg (run_vote 4), fromMe)],
     c_broadcastMsgCh := c_broadcastMsgCh run_cert @ [(VoteMsg (run_vote 4), fromMe)], c_out := c_out c @ [SelfMsg (VoteMsg (run_vote 4))]\<rparr>"
  have v: "sendVote run_env VoteTypeNext 9 (run_sb 5000) c = Some d"
    using run_sizes(4) by (simp add: run_sendVote own_credential_def broadcastMsg_def sendToSelf_def sendToMessageChan_def msgChanSize_def
        c_def d_def run_cert_def run_soft_def run_unfold run_vote_def round_step_defs VoteTypeOfStep_def vote_type_defs Let_def)
  have g: "gotoSecondFinishing run_env run_backend d = Some (run_next\<lparr>c_journals := j\<rparr>)"
    using run_sizes(5) by (simp add: gotoSecondFinishing_def SecondFinishing_OnEnter_def run_entering d_def c_def run_next_def run_cert_def
        run_soft_def run_unfold Let_def)
  define e where "e = c\<lparr>c_state := Some (StateFirstFinishing zeroBase)\<rparr>"
  have "switchState (StateFirstFinishing zeroBase) (run_cert\<lparr>c_journals := j\<rparr>) = Some (e\<lparr>c_Step := 3\<rparr>)"
    by (simp add: switchState_def OnExit_def clearTimer_def e_def c_def run_cert_def run_soft_def run_unfold)
  moreover have "Context_sortition run_env e = Some (run_sb 5000, e)"
    using run_sizes(4) by (simp add: run_sortition e_def c_def run_cert_def run_soft_def run_unfold)
  moreover have f: "e\<lparr>c_Step := 4\<rparr> = e" "e\<lparr>c_state := Some (StateFirstFinishing (run_sb 5000))\<rparr> = c" "c_Round e = 1"
    by (simp_all add: e_def c_def run_cert_def run_soft_def run_unfold)
  ultimately show ?thesis
    by (simp add: gotoFirstFinishing_def FirstFinishing_OnEnter_def Let_def f s v g)
qed

lemma run_next_reachable: "reachable run_env run_next"
proof -
  have "VoteJournal_Write (JournalTimeout (run_timeout 3)) run_cert = Some (run_cert\<lparr>c_journals := c_journals run_next\<rparr>)"
    by (simp add: VoteJournal_Write_def journal_file_def run_next_def run_cert_def run_soft_def run_unfold)
  moreover have "handleTimeout run_env run_backend (run_timeout 3) (run_cert\<lparr>c_journals := j\<rparr>) = Some (run_next\<lparr>c_journals := j\<rparr>)" for j
    using run_finishing [of j] by (simp add: handleTimeout_def OnTimeout_def run_timeout_def run_cert_def run_soft_def run_unfold)
  moreover have "Block_Number (bk_CurrentBlock run_backend) < c_Height run_cert" by (simp add: run_backend_def run_cert_def run_soft_def run_unfold)
  ultimately have "machine_step run_env run_backend (Timeout (run_timeout 3)) run_cert = Some run_next"
    by (simp add: run_next_def)
  then show ?thesis by (rule stepped [OF run_cert_reachable, rotated]) (simp add: event_fits_def run_timeout_def)
qed

lemma run_votes_sent: "SelfMsg (VoteMsg (run_vote s)) \<in> set (c_out run_next)" if "s = 2 \<or> s = 3 \<or> s = 4"
  using that by (auto simp: run_next_def run_cert_def run_soft_def)

section \<open>A listening run\<close>

text \<open>A node that does not mine receives the block and a certificate vote, which is a quorum, and inserts the sealed block.\<close>

definition run_certs :: HeightVoteSet where "run_certs = count_vote 1 NewHeightVoteSet (run_vote 3)"

lemma run_certs_facts:
  "count_result 1 NewHeightVoteSet (run_vote 3) = \<lparr>ar_added = True, ar_newPotential = True, ar_enough = True, ar_err = None\<rparr>"
  "major_of run_certs 1 3 = 9" "GetCertVotesOfValue run_certs 1 9 = [run_vote 3]"
  by code_simp+

definition run_seal :: Block where
  "run_seal = seal_block run_data 1 9 (sort_certs (GetCertVoteStorage run_certs 1 9)) []"

definition run_sealed :: Context where
  "run_sealed = (run_received ''p'')\<lparr>c_counter := run_certs,
     c_journals := [(1, snd (hd (c_journals (run_received ''p''))) @ [JournalMsg (journaled (VoteMsg (run_vote 3))) ''p''])],
     c_verifing := [(9, [\<lparr>bs_err = Some (BodyInvalid UncleHashMismatch), bs_statedb = None, bs_receipts = [], bs_counter = []\<rparr>])],
     c_broadcastMsgCh := c_broadcastMsgCh (run_received ''p'') @ [(HasVoteMsg (ToHasVote (run_vote 3)), fromMe)],
     c_out := c_out (run_received ''p'') @ [InsertChain run_seal, PostMined run_seal]\<rparr>"

lemma run_worker: "verifyBlockWorker run_env run_backend run_block =
    Some \<lparr>bs_err = Some (BodyInvalid UncleHashMismatch), bs_statedb = None, bs_receipts = [], bs_counter = []\<rparr>"
  by (simp add: verifyBlockWorker_def ValidateBody_def run_backend_def demo_chain_def VerifyUncles_def run_block_def demo_header_def Let_def)

lemma run_sealing:
  assumes "c = (run_received ''p'')\<lparr>c_journals := j, c_msgChan := []\<rparr>"
  shows "handleVote run_env run_backend (run_vote 3) c = Some (run_sealed\<lparr>c_journals := j\<rparr>)"
proof -
  have f: "c_parentStatedb c = seal_db" "c_parent c = run_parent" "c_counter c = NewHeightVoteSet"
    by (simp_all add: assms run_unfold)
  have v: "verify_credential run_env d seal_sig (v_Credential (run_vote 3)) c =
      Some (None, (v_Credential (run_vote 3))\<lparr>cr_Weight := run_size 3\<rparr>)" for d
    using run_verify [OF f(1,2), of "v_Credential (run_vote 3)" d] by simp
  have a: "AddVoteAndCount (run_vote 3) (fst (GetCommitteeNumber 1 3)) NewHeightVoteSet = (count_result 1 NewHeightVoteSet (run_vote 3), run_certs)"
    by (simp add: count_result_def count_vote_def run_certs_def threshold_of_def)
  define e where "e = (broadcastMsg (HasVoteMsg (ToHasVote (run_vote 3))) c)\<lparr>c_counter := run_certs\<rparr>"
  define d where "d = e\<lparr>c_verifing := c_verifing run_sealed\<rparr>"
  have p: "OnPotentialVoteEnough run_env run_backend 9 e = Some d"
    by (simp add: OnPotentialVoteEnough_def getProposalBlock_def verifyBlockAsync_def run_worker d_def e_def assms broadcastMsg_def
        run_sealed_def run_unfold fromMe_def)
  have cvs: "sort_certs (GetCertVoteStorage run_certs 1 9) \<noteq> []"
    by (simp add: GetCertVoteStorage_def run_certs_facts(3) sort_certs_def)
  have b: "getProposalBlock 9 d = Some run_data" "c_counter d = run_certs" "mget (c_verified d) 9 = None"
    by (simp_all add: d_def e_def assms broadcastMsg_def getProposalBlock_def run_unfold fromMe_def)
  have "emit (PostMined run_seal) (emit (InsertChain run_seal) d) = run_sealed\<lparr>c_journals := j\<rparr>"
    by (simp add: d_def e_def assms broadcastMsg_def sendToMessageChan_def msgChanSize_def run_sealed_def run_unfold fromMe_def)
  then have "OnCertVoteEnough run_env run_backend 9 1 d = Some (HeightEnd, run_sealed\<lparr>c_journals := j\<rparr>)"
    using cvs b by (simp add: OnCertVoteEnough_def Let_def insertIntoBlockChain_def getVerifiedBlockState_def run_backend_def flip: run_seal_def)
  then have "react_to_quorum run_env run_backend (run_vote 3) d = Some (run_sealed\<lparr>c_journals := j\<rparr>)"
    by (simp add: react_to_quorum_def VoteTypeOfStep_def round_step_defs vote_type_defs)
  moreover have "\<not> HasVote (c_counter c) 1 3 7"
    by (simp add: f HasVote_def NewHeightVoteSet_def HeightVoteSet_RoundVoteSet_def)
  moreover have "c_counter (broadcastMsg m c) = NewHeightVoteSet" for m using f(3) by (simp add: broadcastMsg_def)
  ultimately show ?thesis using v a p run_certs_facts(1)
    by (simp add: handleVote_def Let_def e_def [symmetric])
qed

lemma run_sealed_reachable: "reachable run_env run_sealed"
proof -
  define c where "c = run_received ''p''"
  have f: "c_msgChan c = []" "c_journal c = Some 1" "c_Height c = 1" "c_state c = Some (StateProposal zeroBase 1 7)" "c_EmptyValue c = 7"
    by (simp_all add: c_def run_unfold)
  have "machine_step run_env run_backend (Receive (VoteMsg (run_vote 3)) ''p'') c = Some (c\<lparr>c_msgChan := [(VoteMsg (run_vote 3), ''p'')]\<rparr>)"
    by (simp add: OnReceive_def sendToMessageChan_def msgChanSize_def f)
  then have r: "reachable run_env (c\<lparr>c_msgChan := [(VoteMsg (run_vote 3), ''p'')]\<rparr>)"
    by (rule stepped [OF run_received_reachable [of "''p''", folded c_def], rotated]) (simp add: event_fits_def)
  have w: "VoteJournal_Write (JournalMsg (journaled (VoteMsg (run_vote 3))) ''p'') (c\<lparr>c_msgChan := []\<rparr>) =
      Some (c\<lparr>c_journals := c_journals run_sealed, c_msgChan := []\<rparr>)"
    by (simp add: VoteJournal_Write_def journal_file_def run_sealed_def c_def run_unfold)
  have "run_sealed\<lparr>c_journals := c_journals run_sealed\<rparr> = run_sealed" by simp
  with run_sealing [OF refl, of "c_journals run_sealed", folded c_def]
  have "handleVote run_env run_backend (run_vote 3) (c\<lparr>c_journals := c_journals run_sealed, c_msgChan := []\<rparr>) = Some run_sealed" by simp
  then have "handleMsg run_env run_backend (VoteMsg (run_vote 3)) ''p'' (c\<lparr>c_journals := c_journals run_sealed, c_msgChan := []\<rparr>) = Some run_sealed"
    by (simp add: handleMsg_def VoteData_Valid_def f BadRound_def BadStep_def MaxStep_def round_step_defs)
  moreover have "Block_Number (bk_CurrentBlock run_backend) = 0" by (simp add: run_backend_def)
  ultimately have "machine_step run_env run_backend Message (c\<lparr>c_msgChan := [(VoteMsg (run_vote 3), ''p'')]\<rparr>) = Some run_sealed"
    using w by (simp add: f)
  then show ?thesis by (rule stepped [OF r, rotated]) (simp add: event_fits_def small_round_def)
qed

section \<open>The theorems on these runs\<close>


lemma state_fits_step_witness:
  "c_state run_next = Some (StateSecondFinishing (run_sb 5000) 0) \<and> RoundStep4FirstFinishing < c_Step run_next \<and>
   VoteTypeOfStep (c_Step run_next) = VoteTypeNext"
proof -
  have "c_state run_next = Some (StateSecondFinishing (run_sb 5000) 0)" by (simp add: run_next_def)
  with state_fits_step [OF run_next_reachable run_nonzero] show ?thesis by simp
qed

lemma run_sealed_fields:
  "c_Height run_sealed = 1" "c_counter run_sealed = run_certs" "getProposalBlock 9 run_sealed = Some run_data"
  by (simp_all add: run_sealed_def run_unfold getProposalBlock_def)


lemma own_seal_accepted_witness:
  "let cvs = sort_certs (GetCertVoteStorage run_certs 1 9); block = seal_block run_data 1 9 cvs []
   in cvs \<noteq> [] \<and> check_seal run_crypto whole run_config (b_header block) (b_header (c_parent run_sealed)) (c_parentStatedb run_sealed) = Some None"
proof -
  have "major_of (c_counter run_sealed) 1 RoundStep3Certifying = 9"
    by (simp add: run_sealed_fields round_step_defs run_certs_facts(2))
  from own_seal_accepted [OF run_sealed_reachable run_nonzero this _ run_sealed_fields(3), of "[]"] show ?thesis
    by (simp add: run_sealed_fields Let_def)
qed

lemma run_manager_sound: "fst (GetMinerKey a h run_manager) = Inr mk \<Longrightarrow> mk = run_key"
  by (auto simp: GetMinerKey_def run_manager_def Let_def split: if_splits prod.splits)

lemma run_sound: "sound run_env run_backend run_mining"
proof -
  have "stake_ok run_config (GetBalanceWithFund run_crypto seal_db 7) 2" "5000 \<le> TotalWeight run_config"
    by (simp_all add: stake_ok_def run_balance run_config_def)
  moreover have "c_Total run_mining = 2" "c_mkm run_mining = run_manager" "c_parentStatedb run_mining = seal_db"
    "c_ReceivedProposalBlock run_mining = [(9, run_data)]"
    by (simp_all add: run_unfold run_parent_def demo_header_def)
  moreover have "mk_Lifespan run_key \<noteq> 0" "mk_config run_key = run_config" "mk_Miner run_key = 7" by (simp_all add: run_key_def)
  ultimately show ?thesis unfolding sound_def
    by (auto simp: run_worker split: if_splits dest!: run_manager_sound)
qed


lemma vote_signature_transplant_witness:
  "accepted run_env run_sealed (run_vote 3\<lparr>v_Value := 8\<rparr>) \<and>
   accepted run_env run_sealed ((run_vote 2)\<lparr>v_Value := 8, v_ESignValue := seal_sig\<rparr>)"
proof -
  have f: "c_parentStatedb run_sealed = seal_db" "c_parent run_sealed = run_parent" "c_Height run_sealed = 1" "c_EmptyValue run_sealed = 7"
    by (simp_all add: run_sealed_def run_unfold)
  have a: "accepted run_env run_sealed (run_vote s\<lparr>v_Value := x\<rparr>)" if "s = 2 \<or> s = 3" "x \<noteq> 7" for s x
    using that run_verify [OF f(1,2), of "v_Credential (run_vote s)"]
    by (auto simp: accepted_def VoteData_Valid_def f run_vote_def BadRound_def BadStep_def MaxStep_def round_step_defs)
  have e: "run_vote 2\<lparr>v_Value := 9\<rparr> = run_vote 2" by (simp add: run_vote_def)
  have "accepted run_env run_sealed (run_vote 2)" using a [of 2 9] unfolding e by simp
  from vote_signature_transplant [OF a [of 3 8] this] a [of 3 8] show ?thesis
    by (simp add: VoteData_Valid_def f BadRound_def BadStep_def MaxStep_def round_step_defs)
qed


end
